(* ===== verification/Prelude.thy ===== *)
theory Prelude
  imports Main
begin

text \<open>
  Shared vocabulary of the development.

  \<^item> Addresses are natural numbers and the null pointer is address 0. A C object is the value
    of a map from addresses to records, so reading through a pointer that holds no object is
    visible as a missing entry.
  \<^item> \<open>size_t\<close> values are natural numbers below \<open>2 ^ 64\<close>; the operations that can wrap around are
    \<open>sz_add\<close>, \<open>sz_sub\<close> and \<open>sz_mul\<close>, with the reduction written out.
  \<^item> The collections \<open>sz_arith\<close> (arithmetic on sizes in the range where nothing wraps) and
    \<open>ends\<close> (first and last elements of extended lists) carry the automation that the
    component theories share.
\<close>

named_theorems sz_arith \<open>arithmetic on machine sizes\<close>
named_theorems ends \<open>first and last element of an extended list\<close>

type_synonym addr = nat
type_synonym sz = nat

abbreviation (input) NULL :: addr where
  "NULL \<equiv> 0"

subsection \<open>Sizes: 64-bit unsigned arithmetic\<close>

definition SIZE_MOD :: sz where
  "SIZE_MOD = 2 ^ 64"

definition sz_add :: "sz \<Rightarrow> sz \<Rightarrow> sz" where
  "sz_add a b = (a + b) mod SIZE_MOD"

definition sz_sub :: "sz \<Rightarrow> sz \<Rightarrow> sz" where
  "sz_sub a b = (a + SIZE_MOD - b) mod SIZE_MOD"

definition sz_mul :: "sz \<Rightarrow> sz \<Rightarrow> sz" where
  "sz_mul a b = (a * b) mod SIZE_MOD"

lemma sz_add_exact [sz_arith]: "a + b < SIZE_MOD \<Longrightarrow> sz_add a b = a + b"
  by (simp add: sz_add_def)

lemma sz_sub_exact [sz_arith]: "b \<le> a \<Longrightarrow> a < SIZE_MOD \<Longrightarrow> sz_sub a b = a - b"
proof -
  assume "b \<le> a" "a < SIZE_MOD"
  then have "a + SIZE_MOD - b = (a - b) + SIZE_MOD" "a - b < SIZE_MOD" by simp_all
  then show ?thesis by (simp only: sz_sub_def mod_add_self2 mod_less)
qed

lemma sz_mul_exact [sz_arith]: "a * b < SIZE_MOD \<Longrightarrow> sz_mul a b = a * b"
  by (simp add: sz_mul_def)

lemma sz_add_less [simp]: "sz_add a b < SIZE_MOD"
  by (simp add: sz_add_def SIZE_MOD_def)

lemma sz_sub_less [simp]: "sz_sub a b < SIZE_MOD"
  by (simp add: sz_sub_def SIZE_MOD_def)

subsection \<open>C integers\<close>

text \<open>Conversion of a mathematical integer to a 32-bit \<open>int\<close>, and division rounding towards zero.\<close>

definition to_int32 :: "int \<Rightarrow> int" where
  "to_int32 x = (x + 2 ^ 31) mod 2 ^ 32 - 2 ^ 31"

definition c_div :: "int \<Rightarrow> int \<Rightarrow> int" where
  "c_div a b = sgn a * sgn b * (\<bar>a\<bar> div \<bar>b\<bar>)"

definition c_mod :: "int \<Rightarrow> int \<Rightarrow> int" where
  "c_mod a b = a - b * c_div a b"

lemma to_int32_id: "- (2 ^ 31) \<le> x \<Longrightarrow> x < 2 ^ 31 \<Longrightarrow> to_int32 x = x"
  by (simp add: to_int32_def)

lemma to_int32_range: "- (2 ^ 31) \<le> to_int32 x \<and> to_int32 x < 2 ^ 31"
  by (simp add: to_int32_def)

lemma c_div_nonneg: "0 \<le> a \<Longrightarrow> 0 < b \<Longrightarrow> c_div a b = a div b"
  by (cases "a = 0") (simp_all add: c_div_def)

lemma c_mod_nonneg: "0 \<le> a \<Longrightarrow> 0 < b \<Longrightarrow> c_mod a b = a mod b"
  by (simp add: c_mod_def c_div_nonneg minus_mult_div_eq_mod)

subsection \<open>Outcomes of C code\<close>

text \<open>
  A piece of C code returns a value, ends the process with \<open>exit\<close>, or reads or writes through a
  pointer that holds no object (undefined behaviour).
\<close>

datatype 'a outcome = Ret 'a | Exit int | Undef

fun obind :: "'a outcome \<Rightarrow> ('a \<Rightarrow> 'b outcome) \<Rightarrow> 'b outcome" where
  "obind (Ret x) f = f x"
| "obind (Exit c) f = Exit c"
| "obind Undef f = Undef"

lemma obind_assoc: "obind (obind m f) g = obind m (\<lambda>x. obind (f x) g)"
  by (cases m) simp_all

lemma obind_Ret_conv: "obind m f = Ret y \<longleftrightarrow> (\<exists>x. m = Ret x \<and> f x = Ret y)"
  by (cases m) simp_all

subsection \<open>First and last elements\<close>

lemma hd_snoc_Nil [ends, simp]: "hd ([] @ [b]) = b"
  by simp

lemma hd_snoc_Cons [ends]: "hd ((x # xs) @ [b]) = x"
  by simp

lemma hd_append_snoc [ends]: "hd ((xs @ ys) @ [b]) = hd (xs @ [hd (ys @ [b])])"
  by (cases xs) simp_all

lemma hd_snoc_snoc [ends, simp]: "hd (xs @ [b, c]) = hd (xs @ [b])"
  by (cases xs) simp_all

lemma last_Cons_append [ends]: "last (a # xs @ ys) = last (last (a # xs) # ys)"
  by (cases ys) (simp_all add: last_append)

lemma last_Cons_snoc [ends]: "last (a # xs @ [y]) = y"
  by simp

lemma hd_snoc_mem: "hd (xs @ [b]) \<in> insert b (set xs)"
  by (cases xs) auto

lemma last_Cons_mem: "last (a # xs) \<in> insert a (set xs)"
  by (cases xs rule: rev_cases) auto

lemma hd_snoc_nonempty: "xs \<noteq> [] \<Longrightarrow> hd (xs @ [b]) = hd xs"
  by (cases xs) auto

lemma last_Cons_nonempty: "xs \<noteq> [] \<Longrightarrow> last (a # xs) = last xs"
  by simp

lemma hd_snoc_eq_end: "b \<notin> set xs \<Longrightarrow> hd (xs @ [b]) = b \<longleftrightarrow> xs = []"
  by (cases xs) auto

lemma last_Cons_eq_end: "a \<notin> set xs \<Longrightarrow> last (a # xs) = a \<longleftrightarrow> xs = []"
  by (cases xs rule: rev_cases) auto

lemma last_notin_disjoint: "set xs \<inter> set ys = {} \<Longrightarrow> xs \<noteq> [] \<Longrightarrow> last xs \<notin> set ys"
  using last_in_set by blast

lemma hd_notin_disjoint: "set xs \<inter> set ys = {} \<Longrightarrow> ys \<noteq> [] \<Longrightarrow> hd ys \<notin> set xs"
  using hd_in_set by blast

lemma set_remove_nth:
  assumes "distinct xs" "i < length xs"
  shows "set (take i xs @ drop (Suc i) xs) = set xs - {xs ! i}"
proof -
  obtain u v x where s: "xs = u @ x # v" "length u = i"
    using id_take_nth_drop [OF assms(2)] assms(2) by fastforce
  then show ?thesis using assms(1) by auto
qed

end
