(* ===== verification/C_Strings.thy ===== *)
theory C_Strings
  imports Prelude "HOL-Library.Sublist"
begin

text \<open>
  The functions of the C and C++ string libraries that the sources call, on strings as lists of
  characters (without the terminating NUL): searching (\<open>strstr\<close>, \<open>index\<close>, \<open>find\<close>,
  \<open>find_first_of\<close>, \<open>find_first_not_of\<close>, \<open>find_last_not_of\<close>), splitting into words (\<open>sscanf\<close> with
  \<open>%s\<close>, \<open>istringstream >> s\<close>), number conversion (\<open>atoi\<close>, \<open>%d\<close>, \<open>%lu\<close>, \<open>%06lu\<close>) and comparison
  without case. A position is \<open>None\<close> where the library returns a null pointer or \<open>npos\<close>.
\<close>

abbreviation (input) LF :: char where "LF \<equiv> CHR 0x0A"
abbreviation (input) CR :: char where "CR \<equiv> CHR 0x0D"

definition CRLF :: string where
  "CRLF = [CR, LF]"

subsection \<open>Searching\<close>

fun strstr :: "string \<Rightarrow> string \<Rightarrow> nat option" where
  "strstr s p = (if take (length p) s = p then Some 0
     else case s of [] \<Rightarrow> None | c # cs \<Rightarrow> map_option Suc (strstr cs p))"

declare strstr.simps [simp del]

fun index_if :: "(char \<Rightarrow> bool) \<Rightarrow> string \<Rightarrow> nat option" where
  "index_if P [] = None"
| "index_if P (c # cs) = (if P c then Some 0 else map_option Suc (index_if P cs))"

definition strchr :: "string \<Rightarrow> char \<Rightarrow> nat option" where
  "strchr s c = index_if (\<lambda>x. x = c) s"

definition find_first_of :: "string \<Rightarrow> string \<Rightarrow> nat option" where
  "find_first_of s cs = index_if (\<lambda>x. x \<in> set cs) s"

definition find_first_not_of :: "string \<Rightarrow> string \<Rightarrow> nat option" where
  "find_first_not_of s cs = index_if (\<lambda>x. x \<notin> set cs) s"

definition find_last_not_of :: "string \<Rightarrow> string \<Rightarrow> nat option" where
  "find_last_not_of s cs =
     (case find_first_not_of (rev s) cs of None \<Rightarrow> None | Some i \<Rightarrow> Some (length s - 1 - i))"

text \<open>\<open>substr\<close> with a position that may be \<open>npos\<close> as its length.\<close>

definition take_upto :: "nat option \<Rightarrow> string \<Rightarrow> string" where
  "take_upto p s = (case p of None \<Rightarrow> s | Some i \<Rightarrow> take i s)"

subsection \<open>Words and comparison\<close>

definition isspace :: "char \<Rightarrow> bool" where
  "isspace c \<longleftrightarrow> c \<in> {CHR '' '', CHR 0x09, CHR 0x0A, CHR 0x0B, CHR 0x0C, CHR 0x0D}"

text \<open>The whitespace-separated words of a string, as repeated \<open>%s\<close> or \<open>>>\<close> conversions give them.\<close>

function words :: "string \<Rightarrow> string list" where
  "words [] = []"
| "words (c # cs) =
     (if isspace c then words cs
      else (c # takeWhile (\<lambda>x. \<not> isspace x) cs) # words (dropWhile (\<lambda>x. \<not> isspace x) cs))"
  by pat_completeness auto
termination
  by (relation "measure length") (auto simp: less_Suc_eq_le length_dropWhile_le)

definition tolower :: "char \<Rightarrow> char" where
  "tolower c = (let n = (of_char c :: nat) in if 65 \<le> n \<and> n \<le> 90 then char_of (n + 32) else c)"

definition strcasecmp_eq :: "string \<Rightarrow> string \<Rightarrow> bool" where
  "strcasecmp_eq a b \<longleftrightarrow> map tolower a = map tolower b"

subsection \<open>Numbers\<close>

definition digit_char :: "nat \<Rightarrow> char" where
  "digit_char d = char_of (48 + d)"

definition is_digit :: "char \<Rightarrow> bool" where
  "is_digit c \<longleftrightarrow> 48 \<le> (of_char c :: nat) \<and> (of_char c :: nat) \<le> 57"

definition digit_val :: "char \<Rightarrow> int" where
  "digit_val c = int (of_char c) - 48"

fun show_nat :: "nat \<Rightarrow> string" where
  "show_nat n = (if n < 10 then [digit_char n] else show_nat (n div 10) @ [digit_char (n mod 10)])"

declare show_nat.simps [simp del]

text \<open>\<open>%d\<close>\<close>

definition show_int :: "int \<Rightarrow> string" where
  "show_int i = (if i < 0 then CHR ''-'' # show_nat (nat (- i)) else show_nat (nat i))"

text \<open>\<open>%lu\<close> reads its argument as an unsigned 64-bit value; \<open>%06lu\<close> pads it with zeros.\<close>

definition show_lu :: "int \<Rightarrow> string" where
  "show_lu i = show_nat (nat (i mod 2 ^ 64))"

definition show_06lu :: "int \<Rightarrow> string" where
  "show_06lu i = (let s = show_lu i in replicate (6 - length s) (CHR ''0'') @ s)"

text \<open>A \<open>bool\<close> sent to a stream.\<close>

definition show_flag :: "bool \<Rightarrow> string" where
  "show_flag b = (if b then ''1'' else ''0'')"

fun read_digits :: "int \<Rightarrow> string \<Rightarrow> int" where
  "read_digits acc [] = acc"
| "read_digits acc (c # cs) = (if is_digit c then read_digits (10 * acc + digit_val c) cs else acc)"

text \<open>
  \<open>atoi\<close> as glibc has it: skip white space, an optional sign, decimal digits; the value saturates
  at the range of \<open>long\<close> (\<open>strtol\<close>) and is then converted to \<open>int\<close>.
\<close>

definition strtol10 :: "string \<Rightarrow> int" where
  "strtol10 s = (case dropWhile isspace s of
       [] \<Rightarrow> 0
     | c # cs \<Rightarrow>
         if c = CHR ''-'' then max (- (2 ^ 63)) (- read_digits 0 cs)
         else if c = CHR ''+'' then min (2 ^ 63 - 1) (read_digits 0 cs)
         else min (2 ^ 63 - 1) (read_digits 0 (c # cs)))"

definition atoi :: "string \<Rightarrow> int" where
  "atoi s = to_int32 (strtol10 s)"

subsection \<open>Lemmas on searching\<close>

lemma take_eq_prefix: "take (length p) s = p \<longleftrightarrow> prefix p s"
  by (metis append_eq_conv_conj prefix_def)

lemma strstr_None_iff: "strstr s p = None \<longleftrightarrow> \<not> sublist p s"
proof (induction s)
  case Nil
  then show ?case by (subst strstr.simps) simp
next
  case (Cons c cs)
  then show ?case
    by (subst strstr.simps) (auto simp: take_eq_prefix sublist_Cons_right)
qed

lemma strstr_Some_split:
  "strstr s p = Some i \<Longrightarrow> \<exists>u v. s = u @ p @ v \<and> length u = i"
proof (induction s arbitrary: i)
  case Nil
  then show ?case by (subst (asm) strstr.simps) (auto split: if_splits)
next
  case (Cons c cs)
  show ?case
  proof (cases "take (length p) (c # cs) = p")
    case True
    with Cons.prems have "i = 0" by (subst (asm) strstr.simps) simp
    moreover obtain v where "c # cs = p @ v" using True by (metis append_take_drop_id)
    ultimately show ?thesis by (metis append_Nil list.size(3))
  next
    case False
    with Cons.prems obtain j where j: "strstr cs p = Some j" "i = Suc j"
      by (subst (asm) strstr.simps) auto
    then obtain u v where "cs = u @ p @ v" "length u = j" using Cons.IH by blast
    with j show ?thesis by (metis append_Cons length_Cons)
  qed
qed

lemma index_if_None_iff: "index_if P s = None \<longleftrightarrow> (\<forall>x \<in> set s. \<not> P x)"
  by (induction s) auto

lemma index_if_Some_split:
  "index_if P s = Some i \<Longrightarrow>
     \<exists>u x v. s = u @ x # v \<and> length u = i \<and> P x \<and> (\<forall>y \<in> set u. \<not> P y)"
proof (induction s arbitrary: i)
  case (Cons c cs)
  show ?case
  proof (cases "P c")
    case True
    with Cons.prems have "i = 0" by simp
    with True show ?thesis by (intro exI [of _ "[]"]) auto
  next
    case False
    with Cons.prems obtain j where j: "index_if P cs = Some j" "i = Suc j" by auto
    then obtain u x v where "cs = u @ x # v" "length u = j" "P x" "\<forall>y \<in> set u. \<not> P y"
      using Cons.IH by blast
    with False j show ?thesis by (intro exI [of _ "c # u"]) auto
  qed
qed simp

lemma index_if_takeWhile:
  "index_if P s = Some i \<Longrightarrow> take i s = takeWhile (\<lambda>x. \<not> P x) s"
  by (induction s arbitrary: i) auto

lemma index_if_dropWhile:
  "index_if P s = Some i \<Longrightarrow> drop i s = dropWhile (\<lambda>x. \<not> P x) s"
  by (induction s arbitrary: i) auto

lemma words_ok: "w \<in> set (words s) \<Longrightarrow> w \<noteq> [] \<and> (\<forall>c \<in> set w. \<not> isspace c)"
proof (induction s rule: words.induct)
  case (2 c cs)
  show ?case
  proof (cases "isspace c")
    case False
    with "2.prems" have "w = c # takeWhile (\<lambda>x. \<not> isspace x) cs \<or>
        w \<in> set (words (dropWhile (\<lambda>x. \<not> isspace x) cs))" by simp
    then show ?thesis
    proof
      assume "w = c # takeWhile (\<lambda>x. \<not> isspace x) cs"
      with False show ?thesis using set_takeWhileD by fastforce
    next
      assume "w \<in> set (words (dropWhile (\<lambda>x. \<not> isspace x) cs))"
      with False show ?thesis by (rule "2.IH"(2))
    qed
  next
    case True
    with "2.prems" have "w \<in> set (words cs)" by simp
    with True show ?thesis by (rule "2.IH"(1))
  qed
qed simp

subsection \<open>Printing and reading numbers\<close>

lemma of_char_digit_char: "d < 10 \<Longrightarrow> (of_char (digit_char d) :: nat) = 48 + d"
  by (simp add: digit_char_def)

lemma digit_char_digit: "d < 10 \<Longrightarrow> is_digit (digit_char d) \<and> digit_val (digit_char d) = int d"
  by (simp add: is_digit_def digit_val_def of_char_digit_char)

lemma read_digits_append:
  "(\<forall>c \<in> set u. is_digit c) \<Longrightarrow> read_digits acc (u @ v) = read_digits (read_digits acc u) v"
  by (induction u arbitrary: acc) auto

lemma show_nat_digits: "\<forall>c \<in> set (show_nat n). is_digit c"
proof (induction n rule: show_nat.induct)
  case (1 n)
  then show ?case
    by (subst show_nat.simps) (auto simp: digit_char_digit)
qed

lemma read_show_nat: "read_digits 0 (show_nat n) = int n"
proof (induction n rule: show_nat.induct)
  case (1 n)
  show ?case
  proof (cases "n < 10")
    case True
    then show ?thesis by (subst show_nat.simps) (simp add: digit_char_digit)
  next
    case False
    then have "read_digits 0 (show_nat n) = 10 * int (n div 10) + int (n mod 10)"
      using 1 by (subst show_nat.simps) (simp add: read_digits_append show_nat_digits digit_char_digit)
    also have "\<dots> = int n" by presburger
    finally show ?thesis .
  qed
qed

lemma length_show_nat: "n < 10 ^ k \<Longrightarrow> 0 < k \<Longrightarrow> length (show_nat n) \<le> k"
proof (induction n arbitrary: k rule: show_nat.induct)
  case (1 n)
  show ?case
  proof (cases "n < 10")
    case False
    then obtain m where m: "k = Suc m" "0 < m" using 1(2,3) by (cases k; cases "k - 1") auto
    then have "length (show_nat (n div 10)) \<le> m" using 1(1) [OF False] 1(2) by (simp add: less_mult_imp_div_less mult.commute)
    then show ?thesis using False m(1) by (subst show_nat.simps) simp
  qed (use 1(3) in \<open>subst show_nat.simps, simp\<close>)
qed

lemma length_show_int:
  assumes "\<bar>i\<bar> < 2 ^ 31"
  shows "length (show_int i) \<le> 11"
proof -
  have "nat (- i) < 10 ^ 10" "nat i < 10 ^ 10" using assms by simp_all
  then have "length (show_nat (nat (- i))) \<le> 10" "length (show_nat (nat i)) \<le> 10" by (intro length_show_nat; simp)+
  then show ?thesis by (simp add: show_int_def)
qed

lemma length_show_lu: "length (show_lu i) \<le> 20"
proof -
  have "0 \<le> i mod 2 ^ 64" "i mod 2 ^ 64 < 2 ^ 64" by simp_all
  then have "nat (i mod 2 ^ 64) < 10 ^ 20" by (simp add: nat_less_iff)
  then show ?thesis using length_show_nat [of "nat (i mod 2 ^ 64)" 20] by (simp add: show_lu_def)
qed

lemma length_show_06lu: "length (show_06lu i) \<le> 20"
  using length_show_lu [of i] by (simp add: show_06lu_def Let_def)

lemma show_nat_nonempty: "show_nat n \<noteq> []"
  by (subst show_nat.simps) simp

lemma digit_not_sign: "is_digit c \<Longrightarrow> c \<noteq> CHR ''-'' \<and> c \<noteq> CHR ''+'' \<and> \<not> isspace c"
  by (auto simp: is_digit_def isspace_def)

lemma strtol10_show_nat: "int n < 2 ^ 63 \<Longrightarrow> strtol10 (show_nat n) = int n"
proof -
  assume n: "int n < 2 ^ 63"
  obtain c cs where c: "show_nat n = c # cs" using show_nat_nonempty by (cases "show_nat n") auto
  have d: "is_digit c" using show_nat_digits [of n] c by simp
  have r: "read_digits 0 (c # cs) = int n" using read_show_nat [of n] c by simp
  show ?thesis
    using n d r by (simp add: strtol10_def c digit_not_sign del: read_digits.simps)
qed

lemma atoi_show_int: "- (2 ^ 31) \<le> i \<Longrightarrow> i < 2 ^ 31 \<Longrightarrow> atoi (show_int i) = i"
proof (cases "i < 0")
  case True
  assume i: "- (2 ^ 31) \<le> i"
  have "strtol10 (show_int i) = max (- (2 ^ 63)) (- read_digits 0 (show_nat (nat (- i))))"
    using True by (simp add: show_int_def strtol10_def isspace_def)
  also have "\<dots> = i" using True i by (simp add: read_show_nat)
  finally show ?thesis using True i by (simp add: atoi_def to_int32_id)
next
  case False
  assume "i < 2 ^ 31"
  with False show ?thesis by (simp add: atoi_def show_int_def strtol10_show_nat to_int32_id)
qed

end
