(* ===== verification/Segel.thy ===== *)
theory Segel
  imports C_Strings
begin

text \<open>
  The support library of the web server (\<open>HW3Wet/segel.c\<close>): error reporting, the checked wrappers
  around system calls, and the robust I/O package (Rio).

  A wrapper takes the result of its system call as an argument, and \<open>strerror(errno)\<close> as the
  string \<open>err\<close>. The descriptor a Rio function reads is the list of what the successive \<open>read\<close>
  calls find: data (a longer piece than asked for is split), an interrupted call, or another
  error; the end of the list is the end of the file, which \<open>read\<close> keeps reporting. Every loop is
  total: an interrupted call consumes an element of the list.
\<close>

subsection \<open>Error reporting\<close>

text \<open>A call returns, or the process ends with a text on the error stream and an exit status.\<close>

datatype 'a proc = Done 'a | Died string int

definition unix_error :: "string \<Rightarrow> string \<Rightarrow> 'a proc" where
  "unix_error msg err = Died (msg @ '': '' @ err @ [LF]) 0"

definition posix_error :: "(int \<Rightarrow> string) \<Rightarrow> int \<Rightarrow> string \<Rightarrow> 'a proc" where
  "posix_error strerror code msg = Died (msg @ '': '' @ strerror code @ [LF]) 0"

definition dns_error :: "string \<Rightarrow> int \<Rightarrow> 'a proc" where
  "dns_error msg h_errno = Died (msg @ '': DNS error '' @ show_int h_errno @ [LF]) 0"

definition app_error :: "string \<Rightarrow> 'a proc" where
  "app_error msg = Died (msg @ [LF]) 0"

subsection \<open>Wrappers of system calls\<close>

definition checked :: "string \<Rightarrow> int \<Rightarrow> string \<Rightarrow> int proc" where
  "checked msg rc err = (if rc < 0 then unix_error msg err else Done rc)"

definition Gethostname :: "int \<Rightarrow> string \<Rightarrow> int proc" where
  "Gethostname = checked ''Setenv error''"

definition Setenv :: "int \<Rightarrow> string \<Rightarrow> int proc" where
  "Setenv = checked ''Setenv error''"

definition Fork :: "int \<Rightarrow> string \<Rightarrow> int proc" where
  "Fork = checked ''Fork error''"

text \<open>\<open>execve\<close> returns only when it fails.\<close>

definition Execve :: "int \<Rightarrow> string \<Rightarrow> unit proc" where
  "Execve rc err = (if rc < 0 then unix_error ''Execve error'' err else Done ())"

definition Wait :: "int \<Rightarrow> string \<Rightarrow> int proc" where
  "Wait = checked ''Wait error''"

definition Open :: "int \<Rightarrow> string \<Rightarrow> int proc" where
  "Open = checked ''Open error''"

definition Read :: "int \<Rightarrow> string \<Rightarrow> int proc" where
  "Read = checked ''Read error''"

definition Write :: "int \<Rightarrow> string \<Rightarrow> int proc" where
  "Write = checked ''Write error''"

definition Lseek :: "int \<Rightarrow> string \<Rightarrow> int proc" where
  "Lseek = checked ''Lseek error''"

text \<open>The wrappers that return nothing.\<close>

definition checked_void :: "string \<Rightarrow> int \<Rightarrow> string \<Rightarrow> unit proc" where
  "checked_void msg rc err = (if rc < 0 then unix_error msg err else Done ())"

definition Close :: "int \<Rightarrow> string \<Rightarrow> unit proc" where
  "Close = checked_void ''Close error''"

definition Select :: "int \<Rightarrow> string \<Rightarrow> int proc" where
  "Select = checked ''Select error''"

definition Dup2 :: "int \<Rightarrow> string \<Rightarrow> int proc" where
  "Dup2 = checked ''Dup2 error''"

definition Stat :: "int \<Rightarrow> string \<Rightarrow> unit proc" where
  "Stat = checked_void ''Stat error''"

definition Fstat :: "int \<Rightarrow> string \<Rightarrow> unit proc" where
  "Fstat = checked_void ''Fstat error''"

text \<open>\<open>mmap\<close> reports failure by the pointer \<open>(void *) -1\<close>.\<close>

definition Mmap :: "addr \<Rightarrow> string \<Rightarrow> addr proc" where
  "Mmap ptr err = (if ptr = SIZE_MOD - 1 then unix_error ''mmap error'' err else Done ptr)"

definition Munmap :: "int \<Rightarrow> string \<Rightarrow> unit proc" where
  "Munmap = checked_void ''munmap error''"

definition Socket :: "int \<Rightarrow> string \<Rightarrow> int proc" where
  "Socket = checked ''Socket error''"

definition Setsockopt :: "int \<Rightarrow> string \<Rightarrow> unit proc" where
  "Setsockopt = checked_void ''Setsockopt error''"

definition Bind :: "int \<Rightarrow> string \<Rightarrow> unit proc" where
  "Bind = checked_void ''Bind error''"

definition Listen :: "int \<Rightarrow> string \<Rightarrow> unit proc" where
  "Listen = checked_void ''Listen error''"

definition Accept :: "int \<Rightarrow> string \<Rightarrow> int proc" where
  "Accept = checked ''Accept error''"

definition Connect :: "int \<Rightarrow> string \<Rightarrow> unit proc" where
  "Connect = checked_void ''Connect error''"

text \<open>The resolver returns a host entry or a null pointer.\<close>

definition Gethostbyname :: "'h option \<Rightarrow> int \<Rightarrow> 'h proc" where
  "Gethostbyname p h_errno =
     (case p of None \<Rightarrow> dns_error ''Gethostbyname error'' h_errno | Some h \<Rightarrow> Done h)"

definition Gethostbyaddr :: "'h option \<Rightarrow> int \<Rightarrow> 'h proc" where
  "Gethostbyaddr p h_errno =
     (case p of None \<Rightarrow> dns_error ''Gethostbyaddr error'' h_errno | Some h \<Rightarrow> Done h)"

text \<open>
  The helpers that open sockets. Each later call happens only if the earlier ones succeeded;
  \<open>resolved\<close> says whether the resolver found the host. The texts on the error stream are the first component of
  \<open>open_listenfd\<close>.
\<close>

definition open_clientfd :: "int \<Rightarrow> bool \<Rightarrow> int \<Rightarrow> int" where
  "open_clientfd socket_rc resolved connect_rc =
     (if socket_rc < 0 then - 1
      else if \<not> resolved then - 2
      else if connect_rc < 0 then - 1
      else socket_rc)"

definition open_listenfd :: "int \<Rightarrow> int \<Rightarrow> int \<Rightarrow> int \<Rightarrow> string \<times> int" where
  "open_listenfd socket_rc setsockopt_rc bind_rc listen_rc =
     (if socket_rc < 0 then (''socket failed'' @ [LF], - 1)
      else if setsockopt_rc < 0 then (''setsockopt failed'' @ [LF], - 1)
      else if bind_rc < 0 then (''bind failed'' @ [LF], - 1)
      else if listen_rc < 0 then (''listen failed'' @ [LF], - 1)
      else ([], socket_rc))"

definition Open_clientfd :: "int \<Rightarrow> bool \<Rightarrow> int \<Rightarrow> string \<Rightarrow> int \<Rightarrow> int proc" where
  "Open_clientfd socket_rc resolved connect_rc err h_errno =
     (let rc = open_clientfd socket_rc resolved connect_rc in
      if rc < 0 then
        if rc = - 1 then unix_error ''Open_clientfd Unix error'' err
        else dns_error ''Open_clientfd DNS error'' h_errno
      else Done rc)"

definition Open_listenfd :: "int \<Rightarrow> int \<Rightarrow> int \<Rightarrow> int \<Rightarrow> string \<Rightarrow> string \<times> int proc" where
  "Open_listenfd socket_rc setsockopt_rc bind_rc listen_rc err =
     (let (out, rc) = open_listenfd socket_rc setsockopt_rc bind_rc listen_rc
      in (out, checked ''Open_listenfd error'' rc err))"

subsection \<open>The system calls read and write\<close>

datatype rd = RData string | RIntr | RFail

datatype sysres = Bytes string | Intr | Failed

fun sys_read :: "nat \<Rightarrow> rd list \<Rightarrow> sysres \<times> rd list" where
  "sys_read n [] = (Bytes [], [])"
| "sys_read n (RIntr # es) = (Intr, es)"
| "sys_read n (RFail # es) = (Failed, es)"
| "sys_read n (RData bs # es) =
     (if length bs \<le> n then (Bytes bs, es) else (Bytes (take n bs), RData (drop n bs) # es))"

text \<open>
  What successive \<open>write\<close> calls do: accept at least one byte, or fail. \<open>write\<close> with a result of at
  most 0 goes on only when \<open>errno\<close> is \<open>EINTR\<close>.
\<close>

datatype wr = WSome nat | WIntr | WFail

lemma sys_read_size:
  "sys_read n es = (r, es') \<Longrightarrow> length es' \<le> length es"
  by (induction n es rule: sys_read.induct) (auto split: if_splits)

lemma sys_read_Intr_size: "sys_read n es = (Intr, es') \<Longrightarrow> length es' < length es"
  by (induction n es rule: sys_read.induct) (auto split: if_splits)

subsection \<open>Unbuffered Rio\<close>

text \<open>The bytes stored in the user's buffer (the return value is their number), or \<open>-1\<close>.\<close>

datatype rio_res = Got string | RioErr

function rio_readn_loop :: "nat \<Rightarrow> string \<Rightarrow> rd list \<Rightarrow> rio_res \<times> rd list" where
  "rio_readn_loop nleft buf es =
     (if nleft = 0 then (Got buf, es)
      else case sys_read nleft es of
          (Intr, es') \<Rightarrow> rio_readn_loop nleft buf es'
        | (Failed, es') \<Rightarrow> (RioErr, es')
        | (Bytes bs, es') \<Rightarrow>
            if bs = [] then (Got buf, es')
            else rio_readn_loop (nleft - length bs) (buf @ bs) es')"
  by pat_completeness auto
termination
  by (relation "measure (\<lambda>(nleft, buf, es). nleft + length es)")
    (auto dest!: sym [of "(_, _)"] dest: sys_read_size sys_read_Intr_size
      simp: add_less_le_mono)

declare rio_readn_loop.simps [simp del]

definition rio_readn :: "nat \<Rightarrow> rd list \<Rightarrow> rio_res \<times> rd list" where
  "rio_readn n es = rio_readn_loop n [] es"

text \<open>The bytes the kernel accepted so far, and how the call ended (\<open>None\<close>: it is still blocked).\<close>

fun rio_writen_loop :: "string \<Rightarrow> string \<Rightarrow> wr list \<Rightarrow> string \<times> bool option" where
  "rio_writen_loop out [] ws = (out, Some True)"
| "rio_writen_loop out buf [] = (out, None)"
| "rio_writen_loop out buf (WIntr # ws) = rio_writen_loop out buf ws"
| "rio_writen_loop out buf (WFail # ws) = (out, Some False)"
| "rio_writen_loop out buf (WSome k # ws) =
     (let m = min (Suc k) (length buf)
      in rio_writen_loop (out @ take m buf) (drop m buf) ws)"

definition rio_writen :: "string \<Rightarrow> wr list \<Rightarrow> string \<times> bool option" where
  "rio_writen buf ws = rio_writen_loop [] buf ws"

subsection \<open>Buffered Rio\<close>

definition RIO_BUFSIZE :: nat where
  "RIO_BUFSIZE = 8192"

record rio_t =
  rio_cnt :: int
  rio_bufptr :: nat
  rio_buf :: string

definition rio_readinitb :: "rio_t \<Rightarrow> rio_t" where
  "rio_readinitb rp = rp\<lparr>rio_cnt := 0, rio_bufptr := 0\<rparr>"

datatype refill = Ready | AtEof | Broken

function rio_refill :: "rio_t \<Rightarrow> rd list \<Rightarrow> refill \<times> rio_t \<times> rd list" where
  "rio_refill rp es =
     (if 0 < rio_cnt rp then (Ready, rp, es)
      else case sys_read RIO_BUFSIZE es of
          (Intr, es') \<Rightarrow> rio_refill (rp\<lparr>rio_cnt := - 1\<rparr>) es'
        | (Failed, es') \<Rightarrow> (Broken, rp\<lparr>rio_cnt := - 1\<rparr>, es')
        | (Bytes bs, es') \<Rightarrow>
            if bs = [] then (AtEof, rp\<lparr>rio_cnt := 0\<rparr>, es')
            else (Ready, rp\<lparr>rio_cnt := int (length bs), rio_bufptr := 0,
                           rio_buf := bs @ drop (length bs) (rio_buf rp)\<rparr>, es'))"
  by pat_completeness auto
termination
  by (relation "measure (\<lambda>(rp, es). length es)")
    (auto dest!: sym [of "(_, _)"] dest: sys_read_Intr_size)

declare rio_refill.simps [simp del]

definition rio_read :: "rio_t \<Rightarrow> nat \<Rightarrow> rd list \<Rightarrow> rio_res \<times> rio_t \<times> rd list" where
  "rio_read rp n es =
     (case rio_refill rp es of
        (Broken, rp, es) \<Rightarrow> (RioErr, rp, es)
      | (AtEof, rp, es) \<Rightarrow> (Got [], rp, es)
      | (Ready, rp, es) \<Rightarrow>
          let cnt = (if rio_cnt rp < int n then nat (rio_cnt rp) else n)
          in (Got (take cnt (drop (rio_bufptr rp) (rio_buf rp))),
              rp\<lparr>rio_bufptr := rio_bufptr rp + cnt, rio_cnt := rio_cnt rp - int cnt\<rparr>, es))"

function rio_readnb_loop ::
  "rio_t \<Rightarrow> nat \<Rightarrow> string \<Rightarrow> rd list \<Rightarrow> rio_res \<times> rio_t \<times> rd list" where
  "rio_readnb_loop rp nleft buf es =
     (if nleft = 0 then (Got buf, rp, es)
      else case rio_read rp nleft es of
          (RioErr, rp', es') \<Rightarrow> (RioErr, rp', es')
        | (Got bs, rp', es') \<Rightarrow>
            if bs = [] then (Got buf, rp', es')
            else rio_readnb_loop rp' (nleft - length bs) (buf @ bs) es')"
  by pat_completeness auto
termination
  by (relation "measure (\<lambda>(rp, nleft, buf, es). nleft)") auto

declare rio_readnb_loop.simps [simp del]

definition rio_readnb :: "rio_t \<Rightarrow> nat \<Rightarrow> rd list \<Rightarrow> rio_res \<times> rio_t \<times> rd list" where
  "rio_readnb rp n es = rio_readnb_loop rp n [] es"

text \<open>
  \<open>rio_readlineb\<close> returns \<open>-1\<close>, or 0 with the user's buffer untouched, or a count with the text
  that the buffer holds before its terminating NUL.
\<close>

datatype line_res = LineErr | LineEof | Line nat string

function rio_readlineb_loop ::
  "rio_t \<Rightarrow> nat \<Rightarrow> nat \<Rightarrow> string \<Rightarrow> rd list \<Rightarrow> line_res \<times> rio_t \<times> rd list" where
  "rio_readlineb_loop rp maxlen n buf es =
     (if n < maxlen then
        (case rio_read rp 1 es of
           (Got (c # _), rp', es') \<Rightarrow>
             if c = LF then (Line n (buf @ [c]), rp', es')
             else rio_readlineb_loop rp' maxlen (Suc n) (buf @ [c]) es'
         | (Got [], rp', es') \<Rightarrow>
             if n = 1 then (LineEof, rp', es') else (Line n buf, rp', es')
         | (RioErr, rp', es') \<Rightarrow> (LineErr, rp', es'))
      else (Line n buf, rp, es))"
  by pat_completeness auto
termination
  by (relation "measure (\<lambda>(rp, maxlen, n, buf, es). maxlen - n)") auto

declare rio_readlineb_loop.simps [simp del]

definition rio_readlineb :: "rio_t \<Rightarrow> nat \<Rightarrow> rd list \<Rightarrow> line_res \<times> rio_t \<times> rd list" where
  "rio_readlineb rp maxlen es = rio_readlineb_loop rp maxlen 1 [] es"

subsection \<open>Wrappers of the Rio functions\<close>

definition Rio_readn :: "nat \<Rightarrow> rd list \<Rightarrow> string \<Rightarrow> (string \<times> rd list) proc" where
  "Rio_readn n es err =
     (case rio_readn n es of
        (RioErr, es') \<Rightarrow> unix_error ''Rio_readn error'' err
      | (Got bs, es') \<Rightarrow> Done (bs, es'))"

definition Rio_writen :: "string \<Rightarrow> wr list \<Rightarrow> string \<Rightarrow> string \<times> unit proc option" where
  "Rio_writen buf ws err =
     (case rio_writen buf ws of
        (out, None) \<Rightarrow> (out, None)
      | (out, Some True) \<Rightarrow> (out, Some (Done ()))
      | (out, Some False) \<Rightarrow> (out, Some (unix_error ''Rio_writen error'' err)))"

definition Rio_readinitb :: "rio_t \<Rightarrow> rio_t" where
  "Rio_readinitb rp = rio_readinitb rp"

definition Rio_readnb :: "rio_t \<Rightarrow> nat \<Rightarrow> rd list \<Rightarrow> string \<Rightarrow> (string \<times> rio_t \<times> rd list) proc" where
  "Rio_readnb rp n es err =
     (case rio_readnb rp n es of
        (RioErr, _) \<Rightarrow> unix_error ''Rio_readnb error'' err
      | (Got bs, rp', es') \<Rightarrow> Done (bs, rp', es'))"

text \<open>The line read replaces the buffer's text; at the end of the file the old text stays.\<close>

definition Rio_readlineb ::
  "rio_t \<Rightarrow> string \<Rightarrow> nat \<Rightarrow> rd list \<Rightarrow> string \<Rightarrow> (nat \<times> string \<times> rio_t \<times> rd list) proc" where
  "Rio_readlineb rp buf maxlen es err =
     (case rio_readlineb rp maxlen es of
        (LineErr, _) \<Rightarrow> unix_error ''Rio_readlineb error'' err
      | (LineEof, rp', es') \<Rightarrow> Done (0, buf, rp', es')
      | (Line n text, rp', es') \<Rightarrow> Done (n, text, rp', es'))"

subsection \<open>What is left to read\<close>

fun avail :: "rd list \<Rightarrow> string" where
  "avail [] = []"
| "avail (RData bs # es) = bs @ avail es"
| "avail (RIntr # es) = avail es"
| "avail (RFail # es) = avail es"

text \<open>No error other than interruptions, and no empty piece before the end.\<close>

fun clean :: "rd list \<Rightarrow> bool" where
  "clean [] \<longleftrightarrow> True"
| "clean (RData bs # es) \<longleftrightarrow> bs \<noteq> [] \<and> clean es"
| "clean (RIntr # es) \<longleftrightarrow> clean es"
| "clean (RFail # es) \<longleftrightarrow> False"

definition rio_wf :: "rio_t \<Rightarrow> bool" where
  "rio_wf rp \<longleftrightarrow> rio_bufptr rp + nat (rio_cnt rp) \<le> length (rio_buf rp)"

definition pending :: "rio_t \<Rightarrow> rd list \<Rightarrow> string" where
  "pending rp es = take (nat (rio_cnt rp)) (drop (rio_bufptr rp) (rio_buf rp)) @ avail es"

lemma sys_read_clean:
  assumes "clean es" "0 < n"
  shows "(\<exists>es'. sys_read n es = (Intr, es') \<and> clean es' \<and> avail es' = avail es) \<or>
    (\<exists>bs es'. sys_read n es = (Bytes bs, es') \<and> clean es' \<and> avail es = bs @ avail es' \<and>
       length bs \<le> n \<and> (bs = [] \<longrightarrow> avail es = []))"
  using assms by (induction n es rule: sys_read.induct) auto

text \<open>Unbuffered reading delivers the next \<open>n\<close> bytes, however the kernel cuts them up.\<close>

lemma rio_readn_loop_clean:
  assumes "clean es"
  shows "\<exists>es'. rio_readn_loop n buf es = (Got (buf @ take n (avail es)), es') \<and> clean es' \<and>
     avail es' = drop n (avail es)"
  using assms
proof (induction n buf es rule: rio_readn_loop.induct)
  case (1 n buf es)
  show ?case
  proof (cases "n = 0")
    case True
    then show ?thesis using "1.prems" by (subst rio_readn_loop.simps) simp
  next
    case False
    consider (i) es' where "sys_read n es = (Intr, es')" "clean es'" "avail es' = avail es"
      | (b) bs es' where "sys_read n es = (Bytes bs, es')" "clean es'" "avail es = bs @ avail es'"
          "length bs \<le> n" "bs = [] \<longrightarrow> avail es = []"
      using sys_read_clean [OF "1.prems", of n] False by auto
    then show ?thesis
    proof cases
      case i
      with "1.IH"(2) [OF False] False show ?thesis
        by (subst rio_readn_loop.simps) auto
    next
      case b
      show ?thesis
      proof (cases "bs = []")
        case True
        with b False show ?thesis by (subst rio_readn_loop.simps) auto
      next
        case ne: False
        with b False show ?thesis
          using "1.IH"(1) [OF False] b ne
          by (subst rio_readn_loop.simps) auto
      qed
    qed
  qed
qed

lemma rio_refill_clean:
  assumes "clean es" "rio_wf rp"
  shows "(\<exists>rp' es'. rio_refill rp es = (AtEof, rp', es') \<and> pending rp es = [] \<and> pending rp' es' = [] \<and>
       rio_wf rp' \<and> clean es') \<or>
    (\<exists>rp' es'. rio_refill rp es = (Ready, rp', es') \<and> 0 < rio_cnt rp' \<and> rio_wf rp' \<and> clean es' \<and>
       pending rp' es' = pending rp es)"
  using assms
proof (induction rp es rule: rio_refill.induct)
  case (1 rp es)
  show ?case
  proof (cases "0 < rio_cnt rp")
    case True
    then show ?thesis using "1.prems" by (subst rio_refill.simps) simp
  next
    case False
    have p: "pending rp es = avail es" using False by (simp add: pending_def)
    have n: "0 < RIO_BUFSIZE" by (simp add: RIO_BUFSIZE_def)
    consider (i) es' where "sys_read RIO_BUFSIZE es = (Intr, es')" "clean es'" "avail es' = avail es"
      | (b) bs es' where "sys_read RIO_BUFSIZE es = (Bytes bs, es')" "clean es'"
          "avail es = bs @ avail es'" "bs = [] \<longrightarrow> avail es = []"
      using sys_read_clean [OF "1.prems"(1) n] by auto
    then show ?thesis
    proof cases
      case i
      have "rio_wf (rp\<lparr>rio_cnt := - 1\<rparr>)" "pending (rp\<lparr>rio_cnt := - 1\<rparr>) es' = pending rp es"
        using "1.prems"(2) False i(3) by (auto simp: rio_wf_def pending_def)
      with "1.IH" [OF False i(1) [symmetric]] i False show ?thesis
        by (subst (1 2) rio_refill.simps) auto
    next
      case b
      show ?thesis
      proof (cases "bs = []")
        case True
        with b False p show ?thesis
          using "1.prems"(2) by (subst (1 2) rio_refill.simps) (auto simp: pending_def rio_wf_def)
      next
        case ne: False
        with b False p show ?thesis
          by (subst (1 2) rio_refill.simps) (auto simp: pending_def rio_wf_def)
      qed
    qed
  qed
qed

text \<open>A buffered read takes a non-empty piece off the front of what is left, unless nothing is.\<close>

lemma rio_read_clean:
  assumes "clean es" "rio_wf rp" "0 < n"
  obtains bs rp' es' where "rio_read rp n es = (Got bs, rp', es')" "rio_wf rp'" "clean es'"
    "pending rp es = bs @ pending rp' es'" "length bs \<le> n" "bs = [] \<Longrightarrow> pending rp es = []"
proof -
  consider (e) rp' es' where "rio_refill rp es = (AtEof, rp', es')" "pending rp es = []"
      "pending rp' es' = []" "rio_wf rp'" "clean es'"
    | (r) rp' es' where "rio_refill rp es = (Ready, rp', es')" "0 < rio_cnt rp'" "rio_wf rp'"
      "clean es'" "pending rp' es' = pending rp es"
    using rio_refill_clean [OF assms(1,2)] by blast
  then show thesis
  proof cases
    case e
    then show thesis using that [of "[]" rp' es'] by (simp add: rio_read_def)
  next
    case r
    let ?c = "if rio_cnt rp' < int n then nat (rio_cnt rp') else n"
    let ?bs = "take ?c (drop (rio_bufptr rp') (rio_buf rp'))"
    let ?rp = "rp'\<lparr>rio_bufptr := rio_bufptr rp' + ?c, rio_cnt := rio_cnt rp' - int ?c\<rparr>"
    have c: "0 < ?c" "?c \<le> n" "?c \<le> nat (rio_cnt rp')" using r(2) assms(3) by auto
    have "rio_read rp n es = (Got ?bs, ?rp, es')"
      using r(1) by (simp add: rio_read_def Let_def)
    moreover have "rio_wf ?rp" using r(3) c by (auto simp: rio_wf_def nat_diff_distrib)
    moreover have "pending rp es = ?bs @ pending ?rp es'"
    proof -
      have "take (nat (rio_cnt rp')) (drop (rio_bufptr rp') (rio_buf rp')) =
          ?bs @ take (nat (rio_cnt rp') - ?c) (drop ?c (drop (rio_bufptr rp') (rio_buf rp')))"
        using c(3) by (metis add_diff_inverse_nat leD take_add)
      moreover have "nat (rio_cnt rp' - int ?c) = nat (rio_cnt rp') - ?c"
        using c(3) by linarith
      ultimately show ?thesis
        unfolding r(5) [symmetric] by (simp add: pending_def add.commute)
    qed
    moreover have "?bs \<noteq> []" using c r(3) by (auto simp: rio_wf_def)
    ultimately show thesis using that [of ?bs ?rp es'] r(4) c(2) by simp
  qed
qed

lemma rio_readnb_loop_clean:
  assumes "clean es" "rio_wf rp"
  shows "\<exists>rp' es'. rio_readnb_loop rp n buf es = (Got (buf @ take n (pending rp es)), rp', es') \<and>
     clean es' \<and> rio_wf rp' \<and> pending rp' es' = drop n (pending rp es)"
  using assms
proof (induction rp n buf es rule: rio_readnb_loop.induct)
  case (1 rp n buf es)
  show ?case
  proof (cases "n = 0")
    case True
    then show ?thesis using "1.prems" by (subst rio_readnb_loop.simps) simp
  next
    case False
    obtain bs rp' es' where r: "rio_read rp n es = (Got bs, rp', es')" "rio_wf rp'" "clean es'"
      "pending rp es = bs @ pending rp' es'" "length bs \<le> n" "bs = [] \<Longrightarrow> pending rp es = []"
      using rio_read_clean [OF "1.prems"] False by blast
    show ?thesis
    proof (cases "bs = []")
      case True
      with r False show ?thesis by (subst rio_readnb_loop.simps) auto
    next
      case ne: False
      with "1.IH" [OF False r(1) [symmetric]] r False show ?thesis
        by (subst rio_readnb_loop.simps) auto
    qed
  qed
qed

text \<open>
  The line that \<open>rio_readlineb\<close> should find in the remaining input: at most \<open>k\<close> bytes, up to and
  including the first newline.
\<close>

fun line_of :: "nat \<Rightarrow> string \<Rightarrow> string" where
  "line_of 0 s = []"
| "line_of (Suc k) [] = []"
| "line_of (Suc k) (c # cs) = (if c = LF then [c] else c # line_of k cs)"

text \<open>The count it returns: one more than the bytes stored unless a newline ended the line.\<close>

definition line_count :: "string \<Rightarrow> nat" where
  "line_count l = (if l \<noteq> [] \<and> last l = LF then length l else Suc (length l))"

lemma rio_read1_clean:
  assumes "clean es" "rio_wf rp"
  shows "(pending rp es = [] \<and>
       (\<exists>rp' es'. rio_read rp 1 es = (Got [], rp', es') \<and> rio_wf rp' \<and> clean es' \<and> pending rp' es' = [])) \<or>
    (\<exists>c rp' es'. rio_read rp 1 es = (Got [c], rp', es') \<and> rio_wf rp' \<and> clean es' \<and>
       pending rp es = c # pending rp' es')"
proof -
  obtain bs rp' es' where r: "rio_read rp 1 es = (Got bs, rp', es')" "rio_wf rp'" "clean es'"
      "pending rp es = bs @ pending rp' es'" "length bs \<le> 1" "bs = [] \<Longrightarrow> pending rp es = []"
    using rio_read_clean [OF assms, of 1] by auto
  then show ?thesis by (cases bs) auto
qed

lemma rio_readlineb_loop_clean:
  assumes "clean es" "rio_wf rp" "n = Suc (length buf)" "LF \<notin> set buf" "n \<le> maxlen"
  shows "\<exists>rp' es'. rio_readlineb_loop rp maxlen n buf es =
       (let l = buf @ line_of (maxlen - n) (pending rp es)
        in (if n < maxlen \<and> l = [] then LineEof else Line (line_count l) l), rp', es') \<and>
     clean es' \<and> rio_wf rp' \<and>
     pending rp' es' = drop (length (line_of (maxlen - n) (pending rp es))) (pending rp es)"
  using assms
proof (induction rp maxlen n buf es rule: rio_readlineb_loop.induct)
  case (1 rp maxlen n buf es)
  have cnt: "line_count buf = n"
    using "1.prems"(3,4) by (cases buf rule: rev_cases) (auto simp: line_count_def)
  show ?case
  proof (cases "n < maxlen")
    case False
    then show ?thesis
      using "1.prems" cnt by (subst rio_readlineb_loop.simps) (simp add: Let_def)
  next
    case True
    then obtain k where k: "maxlen - n = Suc k" "maxlen - Suc n = k"
      by (metis Suc_diff_Suc)
    consider (e) rp' es' where "pending rp es = []" "rio_read rp 1 es = (Got [], rp', es')"
        "rio_wf rp'" "clean es'" "pending rp' es' = []"
      | (c) c rp' es' where "rio_read rp 1 es = (Got [c], rp', es')" "rio_wf rp'" "clean es'"
        "pending rp es = c # pending rp' es'"
      using rio_read1_clean [OF "1.prems"(1,2)] by blast
    then show ?thesis
    proof cases
      case e
      then show ?thesis
        using True cnt k "1.prems"(3) by (subst rio_readlineb_loop.simps) (auto simp: Let_def)
    next
      case c
      show ?thesis
      proof (cases "c = LF")
        case lf: True
        then show ?thesis
          using True c k "1.prems"(3)
          by (subst rio_readlineb_loop.simps) (auto simp: Let_def line_count_def)
      next
        case nlf: False
        have eq: "rio_readlineb_loop rp maxlen n buf es =
            rio_readlineb_loop rp' maxlen (Suc n) (buf @ [c]) es'"
          using True c nlf by (subst rio_readlineb_loop.simps) simp
        show ?thesis
          unfolding eq
          using "1.IH" [OF True c(1) [symmetric] refl refl refl nlf c(3,2)] "1.prems"(3,4) True nlf c(4) k
          by (simp add: Let_def)
      qed
    qed
  qed
qed

lemma rio_writen_loop_prefix:
  "rio_writen_loop out buf ws = (out', r) \<Longrightarrow>
     prefix out out' \<and> prefix out' (out @ buf) \<and> (r = Some True \<longrightarrow> out' = out @ buf)"
proof (induction out buf ws rule: rio_writen_loop.induct)
  case (5 out c cs k ws)
  define m where "m = min (Suc k) (length (c # cs))"
  have "rio_writen_loop (out @ take m (c # cs)) (drop m (c # cs)) ws = (out', r)"
    using "5.prems" by (simp add: m_def Let_def)
  from "5.IH" [OF m_def this] show ?case
    by (auto dest: append_prefixD)
qed auto

lemma rio_writen_loop_complete:
  "WFail \<notin> set ws \<Longrightarrow> length buf \<le> length (filter (\<lambda>w. w \<noteq> WIntr) ws) \<Longrightarrow>
     rio_writen_loop out buf ws = (out @ buf, Some True)"
proof (induction out buf ws rule: rio_writen_loop.induct)
  case (5 out c cs k ws)
  define m where "m = min (Suc k) (length (c # cs))"
  have "length (drop m (c # cs)) \<le> length (filter (\<lambda>w. w \<noteq> WIntr) ws)"
    using "5.prems"(2) by (auto simp: m_def)
  then have "rio_writen_loop (out @ take m (c # cs)) (drop m (c # cs)) ws =
      ((out @ take m (c # cs)) @ drop m (c # cs), Some True)"
    using "5.IH" [OF m_def] "5.prems"(1) by simp
  then show ?case by (simp add: m_def Let_def)
qed auto

subsection \<open>Properties\<close>

text \<open>
  Robust unbuffered reading: as long as no call fails for good, \<open>rio_readn\<close> returns exactly the
  next \<open>n\<close> bytes of the input (fewer only at the end of the file), whatever short counts and
  interruptions the kernel delivers, and leaves the rest unread.
\<close>

theorem rio_readn_robust:
  assumes "clean es"
  shows "\<exists>es'. rio_readn n es = (Got (take n (avail es)), es') \<and> clean es' \<and>
    avail es' = drop n (avail es)"
  using rio_readn_loop_clean [OF assms, of n "[]"] by (simp add: rio_readn_def)

theorem rio_readn_robust_witness:
  "clean [RIntr, RData ''ab'', RIntr, RData ''cde''] \<and>
   (\<exists>es'. rio_readn 4 [RIntr, RData ''ab'', RIntr, RData ''cde''] = (Got ''abcd'', es') \<and>
     avail es' = ''e'')"
  using rio_readn_robust [of "[RIntr, RData ''ab'', RIntr, RData ''cde'']" 4] by auto

text \<open>
  Robust buffered reading: \<open>rio_readnb\<close> first uses what its buffer holds, then refills it, and
  delivers exactly the next \<open>n\<close> bytes (fewer only at the end of the file).
\<close>

theorem rio_readnb_robust:
  assumes "clean es" "rio_wf rp"
  shows "\<exists>rp' es'. rio_readnb rp n es = (Got (take n (pending rp es)), rp', es') \<and>
    clean es' \<and> rio_wf rp' \<and> pending rp' es' = drop n (pending rp es)"
  using rio_readnb_loop_clean [OF assms, of n "[]"] by (simp add: rio_readnb_def)

theorem rio_readnb_robust_witness:
  "\<exists>rp' es'. rio_readnb \<lparr>rio_cnt = 2, rio_bufptr = 1, rio_buf = ''xyz''\<rparr> 3 [RIntr, RData ''ab''] =
     (Got ''yza'', rp', es') \<and> pending rp' es' = ''b''"
  using rio_readnb_robust [of "[RIntr, RData ''ab'']" "\<lparr>rio_cnt = 2, rio_bufptr = 1, rio_buf = ''xyz''\<rparr>" 3]
  by (auto simp: rio_wf_def pending_def)

text \<open>
  C25. Line reading: \<open>rio_readlineb\<close> stores the next line, newline included, cut at
  \<open>maxlen - 1\<close> bytes, and leaves the rest of the input; it reports the end of the file exactly when
  nothing is left. The count it returns is the number of bytes stored only if a newline ended the
  line, and one more otherwise.
\<close>

theorem rio_readlineb_line:
  assumes "clean es" "rio_wf rp" "1 < maxlen"
  shows "\<exists>rp' es'. rio_readlineb rp maxlen es =
       (let l = line_of (maxlen - 1) (pending rp es)
        in (if l = [] then LineEof else Line (line_count l) l), rp', es') \<and>
     clean es' \<and> rio_wf rp' \<and>
     pending rp' es' = drop (length (line_of (maxlen - 1) (pending rp es))) (pending rp es)"
  using rio_readlineb_loop_clean [OF assms(1,2), of 1 "[]" maxlen] assms(3)
  by (simp add: rio_readlineb_def)

theorem rio_readlineb_line_witness:
  "\<exists>rp' es'. rio_readlineb \<lparr>rio_cnt = 0, rio_bufptr = 0, rio_buf = []\<rparr> 4 [RData ''abcdef''] =
     (Line 4 ''abc'', rp', es') \<and> pending rp' es' = ''def''"
  using rio_readlineb_line [of "[RData ''abcdef'']" "\<lparr>rio_cnt = 0, rio_bufptr = 0, rio_buf = []\<rparr>" 4]
  by (auto simp: rio_wf_def pending_def line_count_def numeral_eq_Suc Let_def)

text \<open>
  C26. Robust writing: the kernel receives a prefix of the buffer and all of it when
  \<open>rio_writen\<close> reports success; and if no \<open>write\<close> fails for good and the kernel keeps accepting
  bytes, \<open>rio_writen\<close> does report success.
\<close>

theorem rio_writen_complete:
  "prefix (fst (rio_writen buf ws)) buf \<and>
   (snd (rio_writen buf ws) = Some True \<longrightarrow> fst (rio_writen buf ws) = buf) \<and>
   (WFail \<notin> set ws \<and> length buf \<le> length (filter (\<lambda>w. w \<noteq> WIntr) ws) \<longrightarrow>
      rio_writen buf ws = (buf, Some True))"
  using rio_writen_loop_prefix [of "[]" buf ws "fst (rio_writen buf ws)" "snd (rio_writen buf ws)"]
    rio_writen_loop_complete [of ws buf "[]"]
  by (simp add: rio_writen_def)

theorem rio_writen_complete_witness:
  "rio_writen ''abc'' [WSome 0, WIntr, WSome 5, WSome 0] = (''abc'', Some True)"
  using rio_writen_complete [of "''abc''" "[WSome 0, WIntr, WSome 5, WSome 0]"] by simp

end
