(* ===== verification/Dll.thy ===== *)
theory Dll
  imports Prelude
begin

text \<open>
  Doubly linked lists in a heap. A list is described by its two link functions (the \<open>next\<close> and
  \<open>prev\<close> fields, read through the heap): \<open>dll nx pv a xs b\<close> says that \<open>xs\<close> are the nodes of a
  segment whose first node points back to \<open>a\<close> and whose last node points on to \<open>b\<close>. The request
  queue of the server (two dummy nodes), the free list of \<open>malloc_2.cpp\<close>, and the address list
  and the histogram bins of \<open>malloc_3.cpp\<close> and \<open>malloc_4.cpp\<close> are all segments of this kind, so
  insertion and removal are proved here once, for any link functions that differ at the
  neighbours only.
\<close>

fun dll :: "(addr \<Rightarrow> addr) \<Rightarrow> (addr \<Rightarrow> addr) \<Rightarrow> addr \<Rightarrow> addr list \<Rightarrow> addr \<Rightarrow> bool" where
  "dll nx pv a [] b \<longleftrightarrow> True"
| "dll nx pv a (x # xs) b \<longleftrightarrow> pv x = a \<and> nx x = hd (xs @ [b]) \<and> dll nx pv x xs b"

lemma dll_append:
  "dll nx pv a (xs @ ys) b \<longleftrightarrow>
     dll nx pv a xs (hd (ys @ [b])) \<and> dll nx pv (last (a # xs)) ys b"
proof (induction xs arbitrary: a)
  case Nil
  show ?case by simp
next
  case (Cons x xs)
  show ?case
    using Cons.IH [of x] by (cases xs; cases ys) auto
qed

lemma dll_cong:
  assumes "\<And>x. x \<in> set xs \<Longrightarrow> nx x = nx' x" "\<And>x. x \<in> set xs \<Longrightarrow> pv x = pv' x"
  shows "dll nx pv a xs b = dll nx' pv' a xs b"
  using assms by (induction xs arbitrary: a) auto

lemma dll_Cons_snoc:
  "dll nx pv a (xs @ [y]) b \<longleftrightarrow> dll nx pv a xs y \<and> pv y = last (a # xs) \<and> nx y = b"
  by (simp add: dll_append)

lemma dll_mid:
  "dll nx pv a (xs @ n # ys) b \<longleftrightarrow>
     dll nx pv a xs n \<and> pv n = last (a # xs) \<and> nx n = hd (ys @ [b]) \<and> dll nx pv n ys b"
  by (simp add: dll_append)

text \<open>Changing where the last node points to, and what the first node points back to.\<close>

lemma dll_redirect_end:
  assumes "dll nx pv a xs b" "distinct xs"
    and "\<And>x. x \<in> set xs \<Longrightarrow> nx' x = (if x = last xs then c else nx x)"
    and "\<And>x. x \<in> set xs \<Longrightarrow> pv' x = pv x"
  shows "dll nx' pv' a xs c"
proof (cases xs rule: rev_cases)
  case (snoc ys y)
  have "dll nx pv a ys y" "pv y = last (a # ys)"
    using assms(1) snoc by (auto simp: dll_Cons_snoc)
  moreover have "dll nx pv a ys y = dll nx' pv' a ys y"
    by (rule dll_cong) (use assms(2-4) snoc in auto)
  ultimately show ?thesis
    using assms(3,4) snoc by (auto simp: dll_Cons_snoc)
qed simp

lemma dll_redirect_start:
  assumes "dll nx pv a xs b" "distinct xs"
    and "\<And>x. x \<in> set xs \<Longrightarrow> nx' x = nx x"
    and "\<And>x. x \<in> set xs \<Longrightarrow> pv' x = (if x = hd xs then c else pv x)"
  shows "dll nx' pv' c xs b"
proof (cases xs)
  case (Cons y ys)
  have "dll nx pv y ys b = dll nx' pv' y ys b"
    by (rule dll_cong) (use assms(2-4) Cons in auto)
  then show ?thesis
    using assms Cons by auto
qed simp

text \<open>Linking a fresh node between two segments.\<close>

lemma dll_insert:
  assumes "dll nx pv a (xs @ ys) b" "distinct (xs @ ys)"
    and "\<And>x. x \<in> set xs \<union> set ys \<Longrightarrow> nx' x = (if xs \<noteq> [] \<and> x = last xs then n else nx x)"
    and "\<And>x. x \<in> set xs \<union> set ys \<Longrightarrow> pv' x = (if ys \<noteq> [] \<and> x = hd ys then n else pv x)"
    and "nx' n = hd (ys @ [b])" "pv' n = last (a # xs)"
  shows "dll nx' pv' a (xs @ n # ys) b"
proof -
  have "dll nx' pv' a xs n"
    by (rule dll_redirect_end [of nx pv a xs "hd (ys @ [b])"])
      (use assms in \<open>auto simp: dll_append\<close>)
  moreover have "dll nx' pv' n ys b"
    by (rule dll_redirect_start [of nx pv "last (a # xs)"])
      (use assms in \<open>auto simp: dll_append dest: last_notin_disjoint\<close>)
  ultimately show ?thesis
    using assms(5,6) by (simp add: dll_mid)
qed

text \<open>Unlinking a node.\<close>

lemma dll_remove:
  assumes "dll nx pv a (xs @ n # ys) b" "distinct (xs @ n # ys)"
    and "\<And>x. x \<in> set xs \<union> set ys \<Longrightarrow>
           nx' x = (if xs \<noteq> [] \<and> x = last xs then hd (ys @ [b]) else nx x)"
    and "\<And>x. x \<in> set xs \<union> set ys \<Longrightarrow>
           pv' x = (if ys \<noteq> [] \<and> x = hd ys then last (a # xs) else pv x)"
  shows "dll nx' pv' a (xs @ ys) b"
proof -
  have "dll nx' pv' a xs (hd (ys @ [b]))"
    by (rule dll_redirect_end [of nx pv a xs n])
      (use assms in \<open>auto simp: dll_mid\<close>)
  moreover have "dll nx' pv' (last (a # xs)) ys b"
    by (rule dll_redirect_start [of nx pv n])
      (use assms in \<open>auto simp: dll_mid dest: last_notin_disjoint\<close>)
  ultimately show ?thesis
    by (simp add: dll_append)
qed

text \<open>The list of nodes is determined by the first node and the links.\<close>

lemma dll_unique:
  assumes "dll nx pv a xs b" "dll nx pv a' ys b" "hd (xs @ [b]) = hd (ys @ [b])"
    and "b \<notin> set xs" "b \<notin> set ys"
  shows "xs = ys"
  using assms
proof (induction xs arbitrary: a a' ys)
  case Nil
  then show ?case by (cases ys) auto
next
  case (Cons x xs)
  then show ?case by (cases ys) fastforce+
qed

end
