(* ===== verification/Request_Queue.thy ===== *)
theory Request_Queue
  imports Dll
begin

text \<open>
  The request queue of the web server (\<open>HW3Wet/queue.h\<close>, \<open>HW3Wet/queue.c\<close>): a doubly linked list
  between two dummy nodes. The nodes live in an explicit heap; every access through a pointer
  is checked, so a dereference of \<open>NULL\<close> or of a freed node is the outcome \<open>Undef\<close>. The addresses
  that \<open>malloc\<close> returns are arguments (0 when it fails).

  The representation invariant \<open>queue_inv\<close> ties the pointers to a list of nodes; the locale
  \<open>request_fifo\<close> states the contract the server relies on, and is interpreted on the code's
  operations at the end.
\<close>

subsection \<open>Data\<close>

record timeval =
  tv_sec :: int
  tv_usec :: int

record queue_node =
  node_fd :: int
  arrival_time :: timeval
  dispatch_time :: timeval
  node_prev :: addr
  node_next :: addr

type_synonym qheap = "addr \<rightharpoonup> queue_node"

record queue_t =
  q_head :: addr
  q_end :: addr
  queue_size :: int
  waiting_queue_size :: int

type_synonym rqueue = "queue_t \<times> qheap"

subsection \<open>Memory accesses\<close>

definition deref :: "qheap \<Rightarrow> addr \<Rightarrow> queue_node outcome" where
  "deref h p = (if p = NULL then Undef else case h p of None \<Rightarrow> Undef | Some n \<Rightarrow> Ret n)"

definition assign :: "qheap \<Rightarrow> addr \<Rightarrow> (queue_node \<Rightarrow> queue_node) \<Rightarrow> qheap outcome" where
  "assign h p f = obind (deref h p) (\<lambda>n. Ret (h(p \<mapsto> f n)))"

subsection \<open>Operations\<close>

definition createNode :: "addr \<Rightarrow> int \<Rightarrow> timeval \<Rightarrow> qheap \<Rightarrow> (addr \<times> qheap) outcome" where
  "createNode new_node fd_in arrival_time_in h =
     (if new_node = NULL then Exit 1
      else Ret (new_node, h(new_node \<mapsto>
        \<lparr>node_fd = fd_in, arrival_time = arrival_time_in, dispatch_time = arrival_time_in,
         node_prev = NULL, node_next = NULL\<rparr>)))"

definition createQueue ::
  "addr \<Rightarrow> addr \<Rightarrow> addr \<Rightarrow> timeval \<Rightarrow> int \<Rightarrow> qheap \<Rightarrow> rqueue outcome" where
  "createQueue queue new_head new_end now size_in h =
     (if queue = NULL then Exit 1
      else obind (createNode new_head (- 1) now h) (\<lambda>(hd_ptr, h).
        obind (createNode new_end (- 1) now h) (\<lambda>(end_ptr, h).
        obind (assign h hd_ptr (node_next_update (\<lambda>_. end_ptr))) (\<lambda>h.
        obind (assign h end_ptr (node_prev_update (\<lambda>_. hd_ptr))) (\<lambda>h.
        Ret (\<lparr>q_head = hd_ptr, q_end = end_ptr, queue_size = size_in, waiting_queue_size = 0\<rparr>, h))))))"

definition getCurrentTime :: "timeval \<Rightarrow> timeval \<Rightarrow> int" where
  "getCurrentTime now start =
     to_int32 ((tv_sec now * 1000 + c_div (tv_usec now) 1000)
             - (tv_sec start * 1000 + c_div (tv_usec start) 1000))"

definition enqueue :: "addr \<Rightarrow> int \<Rightarrow> timeval \<Rightarrow> rqueue \<Rightarrow> rqueue outcome" where
  "enqueue new fd_in arrival_time_in = (\<lambda>(queue, h).
     obind (createNode new fd_in arrival_time_in h) (\<lambda>(new_node, h).
     obind (deref h (q_end queue)) (\<lambda>e. let end_prev = node_prev e in
     obind (assign h (q_end queue) (node_prev_update (\<lambda>_. new_node))) (\<lambda>h.
     obind (assign h new_node (node_next_update (\<lambda>_. q_end queue))) (\<lambda>h.
     obind (assign h new_node (node_prev_update (\<lambda>_. end_prev))) (\<lambda>h.
     obind (assign h end_prev (node_next_update (\<lambda>_. new_node))) (\<lambda>h.
     Ret (queue\<lparr>waiting_queue_size := waiting_queue_size queue + 1\<rparr>, h))))))))"

text \<open>
  The two unlinking assignments that \<open>dequeue\<close> and \<open>random_drop\<close> share:
  \<open>node->next->prev = node->prev; node->prev->next = node->next; waiting_queue_size--\<close>.
\<close>

definition unlink_node :: "addr \<Rightarrow> rqueue \<Rightarrow> rqueue outcome" where
  "unlink_node node_to_remove = (\<lambda>(queue, h).
     obind (deref h node_to_remove) (\<lambda>n.
     obind (assign h (node_next n) (node_prev_update (\<lambda>_. node_prev n))) (\<lambda>h.
     obind (deref h node_to_remove) (\<lambda>n.
     obind (assign h (node_prev n) (node_next_update (\<lambda>_. node_next n))) (\<lambda>h.
     Ret (queue\<lparr>waiting_queue_size := waiting_queue_size queue - 1\<rparr>, h))))))"

definition dequeue :: "timeval \<Rightarrow> rqueue \<Rightarrow> (addr \<times> rqueue) outcome" where
  "dequeue now = (\<lambda>(queue, h).
     obind (deref h (q_head queue)) (\<lambda>d. let node_to_remove = node_next d in
     obind (unlink_node node_to_remove (queue, h)) (\<lambda>(queue, h).
     obind (assign h node_to_remove (dispatch_time_update (\<lambda>_. now))) (\<lambda>h.
     Ret (node_to_remove, (queue, h))))))"

fun follow_next :: "nat \<Rightarrow> addr \<Rightarrow> qheap \<Rightarrow> addr outcome" where
  "follow_next 0 p h = Ret p"
| "follow_next (Suc i) p h = obind (deref h p) (\<lambda>n. follow_next i (node_next n) h)"

definition free_node :: "addr \<Rightarrow> qheap \<Rightarrow> qheap" where
  "free_node p h = h(p := None)"

definition random_drop :: "int \<Rightarrow> rqueue \<Rightarrow> (int \<times> rqueue) outcome" where
  "random_drop index_to_remove = (\<lambda>(queue, h).
     obind (deref h (q_head queue)) (\<lambda>d.
     obind (follow_next (nat index_to_remove) (node_next d) h) (\<lambda>node_to_remove.
     obind (unlink_node node_to_remove (queue, h)) (\<lambda>(queue, h).
     obind (deref h node_to_remove) (\<lambda>n. let fd_to_close = node_fd n in
     Ret (fd_to_close, (queue, free_node node_to_remove h)))))))"

subsection \<open>Representation\<close>

definition q_nx :: "qheap \<Rightarrow> addr \<Rightarrow> addr" where
  "q_nx h p = (case h p of None \<Rightarrow> NULL | Some n \<Rightarrow> node_next n)"

definition q_pv :: "qheap \<Rightarrow> addr \<Rightarrow> addr" where
  "q_pv h p = (case h p of None \<Rightarrow> NULL | Some n \<Rightarrow> node_prev n)"

definition queue_inv :: "rqueue \<Rightarrow> addr list \<Rightarrow> bool" where
  "queue_inv Q as = (case Q of (q, h) \<Rightarrow>
     dll (q_nx h) (q_pv h) NULL (q_head q # as @ [q_end q]) NULL \<and>
     distinct (q_head q # as @ [q_end q]) \<and>
     NULL \<notin> set (q_head q # as @ [q_end q]) \<and>
     set (q_head q # as @ [q_end q]) \<subseteq> dom h \<and>
     waiting_queue_size q = int (length as))"

text \<open>The nodes between the dummies, read off the heap, and what they hold.\<close>

fun q_walk :: "nat \<Rightarrow> addr \<Rightarrow> qheap \<Rightarrow> addr list" where
  "q_walk 0 p h = []"
| "q_walk (Suc n) p h = p # q_walk n (q_nx h p) h"

definition q_nodes :: "rqueue \<Rightarrow> addr list" where
  "q_nodes Q = (case Q of (q, h) \<Rightarrow> q_walk (nat (waiting_queue_size q)) (q_nx h (q_head q)) h)"

definition queue_ok :: "rqueue \<Rightarrow> bool" where
  "queue_ok Q \<longleftrightarrow> queue_inv Q (q_nodes Q)"

type_synonym request = "int \<times> timeval"

definition item_at :: "qheap \<Rightarrow> addr \<rightharpoonup> request" where
  "item_at h p = map_option (\<lambda>n. (node_fd n, arrival_time n)) (h p)"

definition q_items :: "rqueue \<Rightarrow> request list" where
  "q_items Q = map (\<lambda>p. the (item_at (snd Q) p)) (q_nodes Q)"

lemma walk_dll:
  "dll (q_nx h) (q_pv h) a xs b \<Longrightarrow> q_walk (length xs) (hd (xs @ [b])) h = xs"
  by (induction xs arbitrary: a) auto

text \<open>The invariant with the dummies' own links spelled out.\<close>

lemma queue_inv_iff:
  "queue_inv (q, h) as \<longleftrightarrow>
     dll (q_nx h) (q_pv h) (q_head q) as (q_end q) \<and>
     q_pv h (q_head q) = NULL \<and> q_nx h (q_head q) = hd (as @ [q_end q]) \<and>
     q_pv h (q_end q) = last (q_head q # as) \<and> q_nx h (q_end q) = NULL \<and>
     distinct as \<and> q_head q \<notin> set as \<and> q_end q \<notin> set as \<and> q_head q \<noteq> q_end q \<and>
     NULL \<notin> set as \<and> q_head q \<noteq> NULL \<and> q_end q \<noteq> NULL \<and>
     set as \<subseteq> dom h \<and> q_head q \<in> dom h \<and> q_end q \<in> dom h \<and>
     waiting_queue_size q = int (length as)"
  by (auto simp: queue_inv_def dll_append)

lemma queue_inv_nodes: "queue_inv Q as \<Longrightarrow> q_nodes Q = as"
proof (cases Q)
  case (Pair q h)
  assume "queue_inv Q as"
  then show ?thesis
    using walk_dll [of h "q_head q" as "q_end q"] by (simp add: Pair queue_inv_iff q_nodes_def)
qed

lemma queue_ok_iff: "queue_ok Q \<longleftrightarrow> (\<exists>as. queue_inv Q as)"
  unfolding queue_ok_def by (metis queue_inv_nodes)

lemma queue_ok_size: "queue_ok Q \<Longrightarrow> waiting_queue_size (fst Q) = int (length (q_items Q))"
  by (cases Q) (simp add: queue_ok_def queue_inv_iff q_items_def)

subsection \<open>What the operations do to the links\<close>

lemma deref_dom: "p \<in> dom h \<Longrightarrow> p \<noteq> NULL \<Longrightarrow> deref h p = Ret (the (h p))"
  by (auto simp: deref_def)

lemma assign_dom: "p \<in> dom h \<Longrightarrow> p \<noteq> NULL \<Longrightarrow> assign h p f = Ret (h(p \<mapsto> f (the (h p))))"
  by (simp add: assign_def deref_dom)

lemma node_next_the: "p \<in> dom h \<Longrightarrow> node_next (the (h p)) = q_nx h p"
  by (auto simp: q_nx_def)

lemma node_prev_the: "p \<in> dom h \<Longrightarrow> node_prev (the (h p)) = q_pv h p"
  by (auto simp: q_pv_def)

lemma q_nx_upd: "q_nx (h(p \<mapsto> n)) = (q_nx h)(p := node_next n)"
  by (auto simp: q_nx_def)

lemma q_pv_upd: "q_pv (h(p \<mapsto> n)) = (q_pv h)(p := node_prev n)"
  by (auto simp: q_pv_def)

lemma item_at_upd: "item_at (h(p \<mapsto> n)) = (item_at h)(p \<mapsto> (node_fd n, arrival_time n))"
  by (auto simp: item_at_def)

lemma item_at_the: "p \<in> dom h \<Longrightarrow> Some (node_fd (the (h p)), arrival_time (the (h p))) = item_at h p"
  by (auto simp: item_at_def)

lemmas link_simps =
  deref_dom assign_dom node_next_the node_prev_the q_nx_upd q_pv_upd item_at_upd item_at_the

lemma unlink_node_links:
  assumes "n \<in> dom h" "n \<noteq> NULL" "q_nx h n \<in> dom h" "q_nx h n \<noteq> NULL"
    and "q_pv h n \<in> dom h" "q_pv h n \<noteq> NULL" "q_nx h n \<noteq> n" "q_pv h n \<noteq> n"
  obtains h' where
    "unlink_node n (q, h) = Ret (q\<lparr>waiting_queue_size := waiting_queue_size q - 1\<rparr>, h')"
    "dom h' = dom h"
    "q_pv h' = (q_pv h)(q_nx h n := q_pv h n)"
    "q_nx h' = (q_nx h)(q_pv h n := q_nx h n)"
    "item_at h' = item_at h" "h' n = h n"
proof -
  let ?a = "q_nx h n" and ?b = "q_pv h n"
  define h1 where "h1 = h(?a \<mapsto> (the (h ?a))\<lparr>node_prev := ?b\<rparr>)"
  define h2 where "h2 = h1(?b \<mapsto> (the (h1 ?b))\<lparr>node_next := ?a\<rparr>)"
  have d: "dom h1 = dom h" "dom h2 = dom h"
    using assms by (auto simp: h1_def h2_def)
  have n1: "h1 n = h n" "h2 n = h n"
    using assms by (auto simp: h1_def h2_def)
  have "unlink_node n (q, h) = Ret (q\<lparr>waiting_queue_size := waiting_queue_size q - 1\<rparr>, h2)"
    using assms d n1 by (simp add: unlink_node_def link_simps h1_def [symmetric] h2_def [symmetric])
  moreover have "q_pv h2 = (q_pv h)(?a := ?b)" "q_nx h2 = (q_nx h)(?b := ?a)"
    using assms d by (auto simp: h2_def h1_def link_simps fun_eq_iff)
  moreover have "item_at h2 = item_at h"
    using assms d by (auto simp: h2_def h1_def link_simps fun_eq_iff)
  ultimately show thesis using that d n1 by blast
qed

lemma enqueue_links:
  assumes "new \<noteq> NULL" "new \<notin> dom h" "q_end q \<in> dom h" "q_end q \<noteq> NULL"
    and "q_pv h (q_end q) \<in> dom h" "q_pv h (q_end q) \<noteq> NULL" "q_pv h (q_end q) \<noteq> q_end q"
  obtains h' where
    "enqueue new fd t (q, h) = Ret (q\<lparr>waiting_queue_size := waiting_queue_size q + 1\<rparr>, h')"
    "dom h' = insert new (dom h)"
    "q_pv h' = (q_pv h)(q_end q := new, new := q_pv h (q_end q))"
    "q_nx h' = (q_nx h)(new := q_end q, q_pv h (q_end q) := new)"
    "item_at h' = (item_at h)(new \<mapsto> (fd, t))"
proof -
  let ?e = "q_end q" and ?b = "q_pv h (q_end q)"
  let ?N = "\<lparr>node_fd = fd, arrival_time = t, dispatch_time = t,
             node_prev = NULL, node_next = NULL\<rparr>"
  define h0 where "h0 = h(new \<mapsto> ?N)"
  define h1 where "h1 = h0(?e \<mapsto> (the (h0 ?e))\<lparr>node_prev := new\<rparr>)"
  define h2 where "h2 = h1(new \<mapsto> ?N\<lparr>node_next := ?e\<rparr>)"
  define h3 where "h3 = h2(new \<mapsto> ?N\<lparr>node_next := ?e, node_prev := ?b\<rparr>)"
  define h4 where "h4 = h3(?b \<mapsto> (the (h3 ?b))\<lparr>node_next := new\<rparr>)"
  have ne: "?e \<noteq> new" "?b \<noteq> new" using assms by auto
  have d: "dom h0 = insert new (dom h)" "dom h1 = insert new (dom h)" "dom h2 = insert new (dom h)"
     "dom h3 = insert new (dom h)" "dom h4 = insert new (dom h)"
    using assms by (auto simp: h0_def h1_def h2_def h3_def h4_def)
  have v: "h0 ?e = h ?e" "h1 new = Some ?N" "h2 new = Some (?N\<lparr>node_next := ?e\<rparr>)"
    using ne by (auto simp: h0_def h1_def h2_def)
  have "createNode new fd t h = Ret (new, h0)"
    using assms by (simp add: createNode_def h0_def)
  moreover have "deref h0 ?e = Ret (the (h ?e))" "node_prev (the (h ?e)) = ?b"
    using assms d v by (simp_all add: deref_dom node_prev_the)
  moreover have "assign h0 ?e (node_prev_update (\<lambda>_. new)) = Ret h1"
    using assms d by (simp add: assign_dom h1_def)
  moreover have "assign h1 new (node_next_update (\<lambda>_. ?e)) = Ret h2"
    "assign h2 new (node_prev_update (\<lambda>_. ?b)) = Ret h3"
    using assms d v by (simp_all add: assign_dom h2_def h3_def)
  moreover have "assign h3 ?b (node_next_update (\<lambda>_. new)) = Ret h4"
    using assms d by (simp add: assign_dom h4_def)
  ultimately have "enqueue new fd t (q, h) =
      Ret (q\<lparr>waiting_queue_size := waiting_queue_size q + 1\<rparr>, h4)"
    by (simp add: enqueue_def)
  moreover have "q_pv h4 = (q_pv h)(?e := new, new := ?b)" "q_nx h4 = (q_nx h)(new := ?e, ?b := new)"
    using assms d ne v
    by (auto simp: h4_def h3_def h2_def h1_def h0_def link_simps fun_eq_iff)
  moreover have "item_at h4 = (item_at h)(new \<mapsto> (fd, t))"
    using assms d ne
    by (auto simp: h4_def h3_def h2_def h1_def h0_def link_simps fun_eq_iff)
  ultimately show thesis using that d by blast
qed

subsection \<open>What the operations do to the queue\<close>

lemma enqueue_inv:
  assumes "queue_inv (q, h) as" "new \<noteq> NULL" "new \<notin> dom h"
  obtains q' h' where "enqueue new fd t (q, h) = Ret (q', h')" "queue_inv (q', h') (as @ [new])"
    "item_at h' = (item_at h)(new \<mapsto> (fd, t))" "q_head q' = q_head q" "q_end q' = q_end q"
proof -
  note inv = assms(1) [unfolded queue_inv_iff]
  have new: "new \<notin> set (q_head q # as @ [q_end q])"
    using inv assms by auto
  have b: "q_pv h (q_end q) = last (q_head q # as)"
    using inv by auto
  have "q_pv h (q_end q) \<in> insert (q_head q) (set as)"
    unfolding b by (rule last_Cons_mem)
  moreover have "insert (q_head q) (set as) \<subseteq> dom h" "NULL \<notin> insert (q_head q) (set as)"
    "q_end q \<notin> insert (q_head q) (set as)"
    using inv by auto
  ultimately have bd: "q_pv h (q_end q) \<in> dom h" "q_pv h (q_end q) \<noteq> NULL" "q_pv h (q_end q) \<noteq> q_end q"
    by (metis subsetD)+
  obtain h' where h':
    "enqueue new fd t (q, h) = Ret (q\<lparr>waiting_queue_size := waiting_queue_size q + 1\<rparr>, h')"
    "dom h' = insert new (dom h)"
    "q_pv h' = (q_pv h)(q_end q := new, new := q_pv h (q_end q))"
    "q_nx h' = (q_nx h)(new := q_end q, q_pv h (q_end q) := new)"
    "item_at h' = (item_at h)(new \<mapsto> (fd, t))"
    using enqueue_links [of new h q] assms(2,3) bd inv by metis
  have "dll (q_nx h') (q_pv h') NULL ((q_head q # as) @ new # [q_end q]) NULL"
    by (rule dll_insert [of "q_nx h" "q_pv h"])
      (use assms(1) new b h' in \<open>auto simp: queue_inv_def\<close>)
  then have "queue_inv (q\<lparr>waiting_queue_size := waiting_queue_size q + 1\<rparr>, h') (as @ [new])"
    using assms new h'(2) by (auto simp: queue_inv_def)
  with h' show thesis using that by simp
qed

lemma unlink_node_inv:
  assumes "queue_inv (q, h) (xs @ n # ys)"
  obtains q' h' where "unlink_node n (q, h) = Ret (q', h')" "queue_inv (q', h') (xs @ ys)"
    "dom h' = dom h" "item_at h' = item_at h" "h' n = h n" "n \<in> dom h" "n \<noteq> NULL"
    "q_head q' = q_head q" "q_end q' = q_end q"
proof -
  note inv = assms [unfolded queue_inv_iff dll_mid]
  have a: "q_nx h n = hd (ys @ [q_end q])" and b: "q_pv h n = last (q_head q # xs)"
    using inv by auto
  have "q_nx h n \<in> insert (q_end q) (set ys)" "q_pv h n \<in> insert (q_head q) (set xs)"
    unfolding a b by (rule hd_snoc_mem, rule last_Cons_mem)
  then have d: "q_nx h n \<in> dom h" "q_nx h n \<noteq> NULL" "q_nx h n \<noteq> n"
    "q_pv h n \<in> dom h" "q_pv h n \<noteq> NULL" "q_pv h n \<noteq> n"
    using inv by auto
  have n: "n \<in> dom h" "n \<noteq> NULL"
    using inv by auto
  obtain h' where h':
    "unlink_node n (q, h) = Ret (q\<lparr>waiting_queue_size := waiting_queue_size q - 1\<rparr>, h')"
    "dom h' = dom h" "q_pv h' = (q_pv h)(q_nx h n := q_pv h n)"
    "q_nx h' = (q_nx h)(q_pv h n := q_nx h n)" "item_at h' = item_at h" "h' n = h n"
    using unlink_node_links [of n h q] n d by metis
  have "dll (q_nx h') (q_pv h') NULL ((q_head q # xs) @ ys @ [q_end q]) NULL"
    by (rule dll_remove [of "q_nx h" "q_pv h" NULL "q_head q # xs" n "ys @ [q_end q]"])
      (use assms h' a b in \<open>auto simp: queue_inv_def\<close>)
  then have "queue_inv (q\<lparr>waiting_queue_size := waiting_queue_size q - 1\<rparr>, h') (xs @ ys)"
    using assms h'(2) by (auto simp: queue_inv_def)
  with h' n show thesis using that by simp
qed

lemma follow_next_dll:
  assumes "dll (q_nx h) (q_pv h) a xs b" "set xs \<subseteq> dom h" "NULL \<notin> set xs" "i < length xs"
  shows "follow_next i (hd (xs @ [b])) h = Ret (xs ! i)"
  using assms
proof (induction xs arbitrary: a i)
  case (Cons x xs)
  have x: "deref h x = Ret (the (h x))" "node_next (the (h x)) = hd (xs @ [b])"
    using Cons.prems by (auto simp: deref_dom node_next_the)
  show ?case
  proof (cases i)
    case (Suc j)
    with Cons x show ?thesis by auto
  qed simp
qed simp

text \<open>Only the links matter to the representation, and only at the nodes of the queue.\<close>

lemma queue_inv_frame:
  assumes "queue_inv (q, h) as"
    and "\<And>x. x \<in> set (q_head q # as @ [q_end q]) \<Longrightarrow>
           q_nx h' x = q_nx h x \<and> q_pv h' x = q_pv h x \<and> x \<in> dom h'"
  shows "queue_inv (q, h') as"
proof -
  have "dll (q_nx h) (q_pv h) (q_head q) as (q_end q) = dll (q_nx h') (q_pv h') (q_head q) as (q_end q)"
    by (rule dll_cong) (use assms in auto)
  then show ?thesis
    using assms by (auto simp: queue_inv_iff)
qed

lemma dequeue_inv:
  assumes "queue_inv (q, h) (n # ys)"
  obtains q' h' where "dequeue now (q, h) = Ret (n, (q', h'))" "queue_inv (q', h') ys"
    "dom h' = dom h" "item_at h' = item_at h" "h' n = Some ((the (h n))\<lparr>dispatch_time := now\<rparr>)"
    "n \<notin> set ys" "n \<in> dom h" "q_head q' = q_head q" "q_end q' = q_end q"
proof -
  have hd: "deref h (q_head q) = Ret (the (h (q_head q)))" "node_next (the (h (q_head q))) = n"
    using assms by (auto simp: queue_inv_iff deref_dom node_next_the)
  obtain q1 h1 where u: "unlink_node n (q, h) = Ret (q1, h1)" "queue_inv (q1, h1) ys"
    "dom h1 = dom h" "item_at h1 = item_at h" "h1 n = h n" "n \<in> dom h" "n \<noteq> NULL"
    "q_head q1 = q_head q" "q_end q1 = q_end q"
    using unlink_node_inv [of q h "[]" n ys] assms by (metis append_Nil)
  let ?h2 = "h1(n \<mapsto> (the (h n))\<lparr>dispatch_time := now\<rparr>)"
  have "dequeue now (q, h) = Ret (n, (q1, ?h2))"
    using hd u by (simp add: dequeue_def assign_dom)
  moreover have "n \<notin> set ys" using assms by (auto simp: queue_inv_iff)
  moreover have "queue_inv (q1, ?h2) ys"
    by (rule queue_inv_frame [OF u(2)])
      (use u in \<open>auto simp: q_nx_upd q_pv_upd queue_inv_iff link_simps simp flip: u(5)\<close>)
  moreover have "item_at ?h2 = item_at h"
    using u by (auto simp: item_at_upd item_at_the)
  ultimately show thesis using that u by auto
qed

lemma random_drop_inv:
  assumes "queue_inv (q, h) as" "0 \<le> i" "nat i < length as"
  obtains q' h' where
    "random_drop i (q, h) = Ret (fst (the (item_at h (as ! nat i))), (q', h'))"
    "queue_inv (q', h') (take (nat i) as @ drop (Suc (nat i)) as)"
    "item_at h' = (item_at h)(as ! nat i := None)" "q_head q' = q_head q" "q_end q' = q_end q"
proof -
  let ?n = "as ! nat i" and ?xs = "take (nat i) as" and ?ys = "drop (Suc (nat i)) as"
  have split: "as = ?xs @ ?n # ?ys"
    using assms(3) by (rule id_take_nth_drop)
  have hd: "deref h (q_head q) = Ret (the (h (q_head q)))"
      "node_next (the (h (q_head q))) = hd (as @ [q_end q])"
    using assms by (auto simp: queue_inv_iff deref_dom node_next_the)
  have f: "follow_next (nat i) (hd (as @ [q_end q])) h = Ret ?n"
    using follow_next_dll [of h "q_head q" as "q_end q" "nat i"] assms by (simp add: queue_inv_iff)
  obtain q1 h1 where u: "unlink_node ?n (q, h) = Ret (q1, h1)" "queue_inv (q1, h1) (?xs @ ?ys)"
    "dom h1 = dom h" "item_at h1 = item_at h" "h1 ?n = h ?n" "?n \<in> dom h" "?n \<noteq> NULL"
    "q_head q1 = q_head q" "q_end q1 = q_end q"
    using unlink_node_inv [of q h ?xs ?n ?ys] assms(1) split by metis
  have fd: "node_fd (the (h ?n)) = fst (the (item_at h ?n))"
    using u(6) by (auto simp: item_at_def)
  have "random_drop i (q, h) = Ret (fst (the (item_at h ?n)), (q1, free_node ?n h1))"
    using hd f u fd by (simp add: random_drop_def deref_dom)
  moreover have "queue_inv (q1, free_node ?n h1) (?xs @ ?ys)"
  proof (rule queue_inv_frame [OF u(2)])
    fix x assume x: "x \<in> set (q_head q1 # (?xs @ ?ys) @ [q_end q1])"
    have "distinct (q_head q # as @ [q_end q])" using assms(1) by (simp add: queue_inv_def)
    then have "distinct (q_head q # (?xs @ ?n # ?ys) @ [q_end q])" using split by simp
    then have "x \<noteq> ?n" using x u(8,9) by auto
    then show "q_nx (free_node ?n h1) x = q_nx h1 x \<and> q_pv (free_node ?n h1) x = q_pv h1 x
      \<and> x \<in> dom (free_node ?n h1)"
      using x u(2) by (auto simp: free_node_def q_nx_def q_pv_def queue_inv_def)
  qed
  moreover have "item_at (free_node ?n h1) = (item_at h)(?n := None)"
    unfolding u(4) [symmetric] by (auto simp: free_node_def item_at_def)
  ultimately show thesis using that u(8,9) by blast
qed

lemma dom_item_at: "dom (item_at h) = dom h"
  by (auto simp: item_at_def)

lemma createQueue_inv:
  assumes "queue \<noteq> NULL" "hp \<noteq> NULL" "ep \<noteq> NULL" "hp \<noteq> ep"
  obtains q' h' where "createQueue queue hp ep now n h = Ret (q', h')" "queue_inv (q', h') []"
    "queue_size q' = n"
proof -
  let ?N = "\<lparr>node_fd = - 1, arrival_time = now, dispatch_time = now,
             node_prev = NULL, node_next = NULL\<rparr>"
  let ?h = "h(hp \<mapsto> ?N\<lparr>node_next := ep\<rparr>, ep \<mapsto> ?N\<lparr>node_prev := hp\<rparr>)"
  let ?q = "\<lparr>q_head = hp, q_end = ep, queue_size = n, waiting_queue_size = 0\<rparr>"
  have "createQueue queue hp ep now n h = Ret (?q, ?h)"
    using assms by (auto simp: createQueue_def createNode_def assign_def deref_def fun_eq_iff)
  moreover have "queue_inv (?q, ?h) []"
    using assms by (auto simp: queue_inv_iff q_nx_upd q_pv_upd)
  ultimately show thesis using that by force
qed

text \<open>The nodes the queue itself is made of, and a change to a node it is not made of.\<close>

definition q_own :: "rqueue \<Rightarrow> addr set" where
  "q_own Q = set (q_head (fst Q) # q_nodes Q @ [q_end (fst Q)])"

definition set_node :: "addr \<Rightarrow> queue_node option \<Rightarrow> rqueue \<Rightarrow> rqueue" where
  "set_node p x Q = (fst Q, (snd Q)(p := x))"

lemma queue_inv_own: "queue_inv (q, h) as \<Longrightarrow> q_own (q, h) = insert (q_head q) (insert (q_end q) (set as))"
  by (auto simp: q_own_def queue_inv_nodes)

lemma set_node_inv: "queue_inv (q, h) as \<Longrightarrow> p \<notin> q_own (q, h) \<Longrightarrow> queue_inv (q, h(p := x)) as"
proof -
  assume i: "queue_inv (q, h) as" and "p \<notin> q_own (q, h)"
  then have "p \<notin> insert (q_head q) (insert (q_end q) (set as))" by (simp add: queue_inv_own)
  then show ?thesis
    by (intro queue_inv_frame [OF i]) (use i in \<open>auto simp: queue_inv_iff q_nx_def q_pv_def\<close>)
qed

subsection \<open>The contract of the queue\<close>

text \<open>
  What a client of the queue relies on. \<open>nds\<close> are the queued nodes in order, \<open>own\<close> these and the
  dummies, \<open>itm\<close> what every live node holds (also those a worker has taken out and not yet
  freed), \<open>upd\<close> a change to such a node or its release.
\<close>

locale request_fifo =
  fixes ok :: "'q \<Rightarrow> bool"
    and nds :: "'q \<Rightarrow> addr list"
    and own :: "'q \<Rightarrow> addr set"
    and itm :: "'q \<Rightarrow> addr \<rightharpoonup> request"
    and cnt :: "'q \<Rightarrow> int"
    and enq :: "addr \<Rightarrow> int \<Rightarrow> timeval \<Rightarrow> 'q \<Rightarrow> 'q outcome"
    and deq :: "timeval \<Rightarrow> 'q \<Rightarrow> (addr \<times> 'q) outcome"
    and drp :: "int \<Rightarrow> 'q \<Rightarrow> (int \<times> 'q) outcome"
    and upd :: "addr \<Rightarrow> queue_node option \<Rightarrow> 'q \<Rightarrow> 'q"
  assumes live: "ok q \<Longrightarrow> distinct (nds q) \<and> set (nds q) \<subseteq> own q \<and> own q \<subseteq> dom (itm q) \<and> NULL \<notin> own q"
    and cnt_nds: "ok q \<Longrightarrow> cnt q = int (length (nds q))"
    and enq_law: "ok q \<Longrightarrow> new \<noteq> NULL \<Longrightarrow> new \<notin> dom (itm q) \<Longrightarrow>
      \<exists>q'. enq new fd t q = Ret q' \<and> ok q' \<and> nds q' = nds q @ [new] \<and>
           own q' = insert new (own q) \<and> itm q' = (itm q)(new \<mapsto> (fd, t))"
    and deq_law: "ok q \<Longrightarrow> nds q = p # ps \<Longrightarrow>
      \<exists>q'. deq now q = Ret (p, q') \<and> ok q' \<and> nds q' = ps \<and> own q' = own q - {p} \<and> itm q' = itm q"
    and drp_law: "ok q \<Longrightarrow> 0 \<le> i \<Longrightarrow> nat i < length (nds q) \<Longrightarrow>
      \<exists>q'. drp i q = Ret (fst (the (itm q (nds q ! nat i))), q') \<and> ok q' \<and>
           nds q' = take (nat i) (nds q) @ drop (Suc (nat i)) (nds q) \<and>
           own q' = own q - {nds q ! nat i} \<and> itm q' = (itm q)(nds q ! nat i := None)"
    and upd_law: "ok q \<Longrightarrow> p \<notin> own q \<Longrightarrow>
      ok (upd p x q) \<and> nds (upd p x q) = nds q \<and> own (upd p x q) = own q \<and>
      itm (upd p x q) = (itm q)(p := map_option (\<lambda>n. (node_fd n, arrival_time n)) x)"
begin

text \<open>Requests leave the queue in the order of their arrival.\<close>

lemma enq_then_deq:
  assumes "ok q" "new \<noteq> NULL" "new \<notin> dom (itm q)"
  shows "\<exists>q1 q2. enq new fd t q = Ret q1 \<and> deq now q1 = Ret (hd (nds q @ [new]), q2) \<and>
     ok q2 \<and> nds q2 = tl (nds q @ [new]) \<and> itm q2 = (itm q)(new \<mapsto> (fd, t))"
proof -
  obtain q1 where q1: "enq new fd t q = Ret q1" "ok q1" "nds q1 = nds q @ [new]"
      "itm q1 = (itm q)(new \<mapsto> (fd, t))"
    using enq_law [OF assms] by blast
  obtain p ps where p: "nds q @ [new] = p # ps" by (cases "nds q") auto
  then obtain q2 where "deq now q1 = Ret (p, q2)" "ok q2" "nds q2 = ps" "itm q2 = itm q1"
    using deq_law [OF q1(2), of p ps now] q1(3) by auto
  with q1 p show ?thesis by auto
qed

text \<open>A drop frees exactly one queued node, and no node that has left the queue.\<close>

lemma drp_frees_queued:
  assumes "ok q" "0 \<le> i" "i < cnt q"
  shows "\<exists>p q'. drp i q = Ret (fst (the (itm q p)), q') \<and> ok q' \<and> p \<in> set (nds q) \<and>
     cnt q' = cnt q - 1 \<and> set (nds q') = set (nds q) - {p} \<and> own q' = own q - {p} \<and>
     itm q' = (itm q)(p := None)"
proof -
  have i: "nat i < length (nds q)" using assms cnt_nds [OF assms(1)] by linarith
  let ?p = "nds q ! nat i"
  obtain q' where q': "drp i q = Ret (fst (the (itm q ?p)), q')" "ok q'"
    "nds q' = take (nat i) (nds q) @ drop (Suc (nat i)) (nds q)"
    "own q' = own q - {?p}" "itm q' = (itm q)(?p := None)"
    using drp_law [OF assms(1,2) i] by blast
  have "set (nds q') = set (nds q) - {?p}"
    using set_remove_nth [of "nds q" "nat i"] i q'(3) live [OF assms(1)] by simp
  moreover have "cnt q' = cnt q - 1"
    using i q'(3) cnt_nds [OF assms(1)] cnt_nds [OF q'(2)] by auto
  moreover have "?p \<in> set (nds q)" using i by simp
  ultimately show ?thesis using q' by metis
qed

end

interpretation rq: request_fifo queue_ok q_nodes q_own "\<lambda>Q. item_at (snd Q)"
  "\<lambda>Q. waiting_queue_size (fst Q)" enqueue dequeue random_drop set_node
proof (unfold_locales, goal_cases)
  case (1 Q)
  then show ?case by (cases Q) (auto simp: queue_ok_def queue_inv_iff dom_item_at q_own_def)
next
  case (2 Q)
  then show ?case by (cases Q) (auto simp: queue_ok_def queue_inv_iff)
next
  case (3 Q new fd t)
  then obtain q h where Q: "Q = (q, h)" "queue_inv (q, h) (q_nodes Q)"
    by (cases Q) (auto simp: queue_ok_def)
  obtain q' h' where e: "enqueue new fd t (q, h) = Ret (q', h')"
    and i: "queue_inv (q', h') (q_nodes Q @ [new])" and it: "item_at h' = (item_at h)(new \<mapsto> (fd, t))"
    and "q_head q' = q_head q" "q_end q' = q_end q"
    using enqueue_inv [OF Q(2) 3(2)] 3(3) Q(1) by (metis dom_item_at snd_conv)
  then have "q_own (q', h') = insert new (q_own Q)"
    using queue_inv_own [OF i] queue_inv_own [OF Q(2)] Q(1) by auto
  with e i it Q(1) queue_inv_nodes [OF i] show ?case
    by (auto simp: queue_ok_def)
next
  case (4 Q p ps now)
  then obtain q h where Q: "Q = (q, h)" "queue_inv (q, h) (p # ps)"
    by (cases Q) (auto simp: queue_ok_def)
  obtain q' h' where e: "dequeue now (q, h) = Ret (p, (q', h'))" and i: "queue_inv (q', h') ps"
    and it: "item_at h' = item_at h" and "q_head q' = q_head q" "q_end q' = q_end q"
    using dequeue_inv [OF Q(2)] by metis
  then have "q_own (q', h') = q_own Q - {p}"
    using queue_inv_own [OF i] queue_inv_own [OF Q(2)] Q by (auto simp: queue_inv_iff)
  with e i it Q(1) queue_inv_nodes [OF i] show ?case
    by (auto simp: queue_ok_def)
next
  case (5 Q i)
  then obtain q h where Q: "Q = (q, h)" "queue_inv (q, h) (q_nodes Q)"
    by (cases Q) (auto simp: queue_ok_def)
  let ?as = "q_nodes Q" and ?n = "q_nodes Q ! nat i"
  obtain q' h' where e: "random_drop i (q, h) = Ret (fst (the (item_at h ?n)), (q', h'))"
    and i: "queue_inv (q', h') (take (nat i) ?as @ drop (Suc (nat i)) ?as)"
    and it: "item_at h' = (item_at h)(?n := None)" and hq: "q_head q' = q_head q" "q_end q' = q_end q"
    using random_drop_inv [OF Q(2) 5(2,3)] by metis
  have d: "distinct (q_head q # ?as @ [q_end q])"
    using Q(2) by (simp add: queue_inv_def)
  then have "set (take (nat i) ?as @ drop (Suc (nat i)) ?as) = set ?as - {?n}"
    using set_remove_nth [of ?as "nat i"] 5(3) by simp
  moreover have "?n \<noteq> q_head q" "?n \<noteq> q_end q" using d 5(3) by (auto dest: nth_mem)
  ultimately have "q_own (q', h') = q_own Q - {?n}"
    using queue_inv_own [OF i] queue_inv_own [OF Q(2)] Q(1) hq by auto
  with e i it Q(1) queue_inv_nodes [OF i] show ?case
    by (auto simp: queue_ok_def)
next
  case (6 Q p x)
  then obtain q h where Q: "Q = (q, h)" "queue_inv (q, h) (q_nodes Q)"
    by (cases Q) (auto simp: queue_ok_def)
  have i: "queue_inv (q, h(p := x)) (q_nodes Q)"
    using set_node_inv [OF Q(2)] 6(2) Q(1) by simp
  then show ?case
    using Q(1) queue_inv_nodes [OF i] by (auto simp: queue_ok_def set_node_def q_own_def item_at_def)
qed

lemma dequeue_empty_undef:
  assumes "queue_inv (q, h) []"
  shows "dequeue now (q, h) = Undef"
proof -
  have "deref h (q_head q) = Ret (the (h (q_head q)))" "node_next (the (h (q_head q))) = q_end q"
    "deref h (q_end q) = Ret (the (h (q_end q)))" "node_next (the (h (q_end q))) = NULL"
    using assms by (auto simp: queue_inv_iff deref_dom node_next_the)
  then show ?thesis
    by (simp add: dequeue_def unlink_node_def assign_def deref_def [of _ NULL])
qed

lemma q_items_cong:
  "q_nodes Q' = ps \<Longrightarrow> (\<And>p. p \<in> set ps \<Longrightarrow> item_at (snd Q') p = item_at (snd Q) p) \<Longrightarrow>
     q_items Q' = map (\<lambda>p. the (item_at (snd Q) p)) ps"
  by (simp add: q_items_def)

subsection \<open>Properties\<close>

definition sample_queue :: rqueue where
  "sample_queue =
     (\<lparr>q_head = 10, q_end = 20, queue_size = 8, waiting_queue_size = 1\<rparr>,
      [10 \<mapsto> \<lparr>node_fd = - 1, arrival_time = \<lparr>tv_sec = 0, tv_usec = 0\<rparr>,
              dispatch_time = \<lparr>tv_sec = 0, tv_usec = 0\<rparr>, node_prev = 0, node_next = 30\<rparr>,
       20 \<mapsto> \<lparr>node_fd = - 1, arrival_time = \<lparr>tv_sec = 0, tv_usec = 0\<rparr>,
              dispatch_time = \<lparr>tv_sec = 0, tv_usec = 0\<rparr>, node_prev = 30, node_next = 0\<rparr>,
       30 \<mapsto> \<lparr>node_fd = 4, arrival_time = \<lparr>tv_sec = 7, tv_usec = 0\<rparr>,
              dispatch_time = \<lparr>tv_sec = 7, tv_usec = 0\<rparr>, node_prev = 10, node_next = 20\<rparr>])"

lemma sample_queue_facts:
  "queue_ok sample_queue" "q_items sample_queue = [(4, \<lparr>tv_sec = 7, tv_usec = 0\<rparr>)]"
  "dom (snd sample_queue) = {10, 20, 30}" "waiting_queue_size (fst sample_queue) = 1"
proof -
  have i: "queue_inv sample_queue [30]"
    by (auto simp: sample_queue_def queue_inv_iff q_nx_def q_pv_def)
  then show "queue_ok sample_queue" by (auto simp: queue_ok_iff)
  show "q_items sample_queue = [(4, \<lparr>tv_sec = 7, tv_usec = 0\<rparr>)]"
    unfolding q_items_def queue_inv_nodes [OF i] by (simp add: sample_queue_def item_at_def)
qed (auto simp: sample_queue_def)

text \<open>
  Enqueue: on a well-formed queue, with a fresh node from \<open>malloc\<close>, \<open>enqueue\<close> meets no invalid
  pointer, keeps the queue well formed and appends the request at its end.
\<close>

theorem enqueue_appends:
  assumes "queue_ok Q" "new \<noteq> NULL" "new \<notin> dom (snd Q)"
  shows "\<exists>Q'. enqueue new fd t Q = Ret Q' \<and> queue_ok Q' \<and> q_items Q' = q_items Q @ [(fd, t)] \<and>
    waiting_queue_size (fst Q') = waiting_queue_size (fst Q) + 1"
proof -
  have n: "new \<notin> dom (item_at (snd Q))" using assms(3) by (simp add: dom_item_at)
  obtain Q' where Q': "enqueue new fd t Q = Ret Q'" "queue_ok Q'" "q_nodes Q' = q_nodes Q @ [new]"
      "item_at (snd Q') = (item_at (snd Q))(new \<mapsto> (fd, t))"
    using rq.enq_law [OF assms(1,2) n] by blast
  have "new \<notin> set (q_nodes Q)" using rq.live [OF assms(1)] n by auto
  then have "q_items Q' = q_items Q @ [(fd, t)]" using Q'(3,4) by (auto simp: q_items_def)
  with Q' show ?thesis using queue_ok_size [OF assms(1)] queue_ok_size [OF Q'(2)] by simp
qed

theorem enqueue_appends_witness:
  "\<exists>Q'. enqueue 40 5 \<lparr>tv_sec = 9, tv_usec = 0\<rparr> sample_queue = Ret Q' \<and>
     q_items Q' = [(4, \<lparr>tv_sec = 7, tv_usec = 0\<rparr>), (5, \<lparr>tv_sec = 9, tv_usec = 0\<rparr>)]"
proof -
  have "(40 :: addr) \<notin> dom (snd sample_queue)" unfolding sample_queue_facts(3) by simp
  from enqueue_appends [OF sample_queue_facts(1) _ this, of 5 "\<lparr>tv_sec = 9, tv_usec = 0\<rparr>"]
  show ?thesis unfolding sample_queue_facts(2) by (metis append_Cons append_Nil zero_neq_numeral)
qed

text \<open>
  Dequeue: on a well-formed queue that is not empty, \<open>dequeue\<close> meets no invalid pointer, returns
  the node of the oldest request, which stays allocated, and leaves the other requests in order.
\<close>

theorem dequeue_takes_first:
  assumes "queue_ok Q" "q_items Q = r # rs"
  shows "\<exists>p Q'. dequeue now Q = Ret (p, Q') \<and> queue_ok Q' \<and> q_items Q' = rs \<and>
    item_at (snd Q') p = Some r \<and> p \<notin> q_own Q'"
proof -
  obtain p ps where n: "q_nodes Q = p # ps" using assms(2) by (cases "q_nodes Q") (auto simp: q_items_def)
  obtain Q' where Q': "dequeue now Q = Ret (p, Q')" "queue_ok Q'" "q_nodes Q' = ps"
      "q_own Q' = q_own Q - {p}" "item_at (snd Q') = item_at (snd Q)"
    using rq.deq_law [OF assms(1) n] by blast
  have "p \<in> dom (item_at (snd Q))" using rq.live [OF assms(1)] n by auto
  then obtain x where "item_at (snd Q) p = Some x" by blast
  moreover have "the (item_at (snd Q) p) = r" "q_items Q' = rs"
    using assms(2) by (simp_all add: q_items_def n Q'(3,5))
  ultimately have "item_at (snd Q') p = Some r" by (simp add: Q'(5))
  with Q'(1,2,4) \<open>q_items Q' = rs\<close> show ?thesis by blast
qed

theorem dequeue_takes_first_witness:
  "\<exists>p Q'. dequeue \<lparr>tv_sec = 9, tv_usec = 0\<rparr> sample_queue = Ret (p, Q') \<and> q_items Q' = [] \<and>
     item_at (snd Q') p = Some (4, \<lparr>tv_sec = 7, tv_usec = 0\<rparr>)"
  by (metis dequeue_takes_first [OF sample_queue_facts(1,2)])

text \<open>
  Random drop: for an index inside the queue, \<open>random_drop\<close> meets no invalid pointer, removes
  exactly the request at that index, frees its node and returns its descriptor.
\<close>

theorem random_drop_removes:
  assumes "queue_ok Q" "0 \<le> i" "i < waiting_queue_size (fst Q)"
  shows "\<exists>Q'. random_drop i Q = Ret (fst (q_items Q ! nat i), Q') \<and> queue_ok Q' \<and>
    q_items Q' = take (nat i) (q_items Q) @ drop (Suc (nat i)) (q_items Q) \<and>
    snd Q' (q_nodes Q ! nat i) = None"
proof -
  let ?ps = "q_nodes Q"
  have l: "nat i < length ?ps" using assms(2,3) rq.cnt_nds [OF assms(1)] by linarith
  obtain Q' where Q': "random_drop i Q = Ret (fst (the (item_at (snd Q) (?ps ! nat i))), Q')" "queue_ok Q'"
      "q_nodes Q' = take (nat i) ?ps @ drop (Suc (nat i)) ?ps"
      "item_at (snd Q') = (item_at (snd Q))(?ps ! nat i := None)"
    using rq.drp_law [OF assms(1,2) l] by blast
  have "set (q_nodes Q') = set ?ps - {?ps ! nat i}"
    using set_remove_nth [OF _ l] rq.live [OF assms(1)] Q'(3) by simp
  then have "q_items Q' = map (\<lambda>p. the (item_at (snd Q) p)) (q_nodes Q')"
    using Q'(4) by (intro q_items_cong) auto
  moreover have "snd Q' (?ps ! nat i) = None"
    using Q'(4) by (metis domIff dom_item_at fun_upd_same)
  ultimately show ?thesis
    using Q' l by (simp add: q_items_def take_map drop_map)
qed

theorem random_drop_removes_witness:
  "\<exists>Q'. random_drop 0 sample_queue = Ret (4, Q') \<and> q_items Q' = []"
proof -
  have "0 < waiting_queue_size (fst sample_queue)" unfolding sample_queue_facts(4) by simp
  from random_drop_removes [OF sample_queue_facts(1) order_refl this]
  obtain Q' where "random_drop 0 sample_queue = Ret (fst (q_items sample_queue ! nat 0), Q')"
    "q_items Q' = take (nat 0) (q_items sample_queue) @ drop (Suc (nat 0)) (q_items sample_queue)"
    by blast
  then show ?thesis unfolding sample_queue_facts(2) by (intro exI [of _ Q']) simp
qed

text \<open>
  Dequeue needs its guard: on an empty queue \<open>dequeue\<close> follows the null pointer behind the end
  dummy.
\<close>

theorem dequeue_empty:
  assumes "queue_ok Q" "q_items Q = []"
  shows "dequeue now Q = Undef"
  using assms dequeue_empty_undef by (cases Q) (simp add: queue_ok_def q_items_def)

theorem dequeue_empty_witness:
  "\<exists>Q. createQueue 1 10 20 \<lparr>tv_sec = 7, tv_usec = 0\<rparr> 8 Map.empty = Ret Q \<and>
     dequeue \<lparr>tv_sec = 8, tv_usec = 0\<rparr> Q = Undef"
proof -
  obtain q h where c: "createQueue 1 10 20 \<lparr>tv_sec = 7, tv_usec = 0\<rparr> 8 Map.empty = Ret (q, h)"
      and i: "queue_inv (q, h) []"
    by (rule createQueue_inv [of 1 10 20 "\<lparr>tv_sec = 7, tv_usec = 0\<rparr>" 8 Map.empty]) auto
  have "queue_ok (q, h)" "q_items (q, h) = []"
    using i queue_inv_nodes [OF i] by (simp_all add: queue_ok_def q_items_def)
  with c show ?thesis using dequeue_empty by blast
qed

end
