(* ===== verification/Request.thy ===== *)
theory Request
  imports Segel Request_Queue
begin

text \<open>
  Handling one HTTP request (\<open>HW3Wet/request.c\<close>): parsing the request line and the URI, skipping
  the headers, the statistics headers, the error, static and dynamic responses, and the counters
  a worker thread keeps.

  Text built by successive \<open>sprintf(buf, "%s...", buf, ...)\<close> calls is the concatenation of its
  parts, as the C library writes it, although the language does not allow source and target to overlap; text that does not
  fit its array with the terminator is undefined behaviour. The file system is an argument: \<open>stat\<close> by name gives the
  attributes and the content of a file. A handler sends on the connection what \<open>Rio_writen\<close> writes, whose
  successive calls have scripts of kernel answers; a wrapper whose system call fails ends the whole process. What the server prints on
  its own standard output is left out, and the counters are in the range of \<open>int\<close>.
\<close>

definition MAXLINE :: nat where
  "MAXLINE = 8192"

definition MAXBUF :: nat where
  "MAXBUF = 8192"

subsection \<open>Statistics of a thread\<close>

record Stats =
  thread_id :: int
  thread_count :: int
  thread_static :: int
  thread_dynamic :: int

definition init_stats :: "int \<Rightarrow> Stats" where
  "init_stats thread_id_in =
     \<lparr>thread_id = thread_id_in, thread_count = 0, thread_static = 0, thread_dynamic = 0\<rparr>"

subsection \<open>Times\<close>

text \<open>The carry of surplus microseconds, applied to the dispatch and to the arrival time.\<close>

definition norm_time :: "timeval \<Rightarrow> timeval" where
  "norm_time t =
     (if tv_usec t > 999999
      then \<lparr>tv_sec = tv_sec t + c_div (tv_usec t) 1000000, tv_usec = c_mod (tv_usec t) 1000000\<rparr>
      else t)"

definition norm_node :: "queue_node \<Rightarrow> queue_node" where
  "norm_node req = req\<lparr>dispatch_time := norm_time (dispatch_time req),
                       arrival_time := norm_time (arrival_time req)\<rparr>"

definition dispatch_interval :: "queue_node \<Rightarrow> timeval" where
  "dispatch_interval req =
     (let d = dispatch_time req; a = arrival_time req in
      if tv_usec d - tv_usec a < 0
      then \<lparr>tv_sec = tv_sec d - tv_sec a - 1, tv_usec = 1000000 + tv_usec d - tv_usec a\<rparr>
      else \<lparr>tv_sec = tv_sec d - tv_sec a, tv_usec = tv_usec d - tv_usec a\<rparr>)"

definition show_time :: "timeval \<Rightarrow> string" where
  "show_time t = show_lu (tv_sec t) @ ''.'' @ show_06lu (tv_usec t)"

text \<open>
  The statistics lines every response carries. The arrival time is printed as it came, the
  interval is computed after the carry.
\<close>

definition stat_lines :: "queue_node \<Rightarrow> Stats \<Rightarrow> string" where
  "stat_lines req stats =
     ''Stat-Req-Arrival:: '' @ show_time (arrival_time req) @ CRLF @
     ''Stat-Req-Dispatch:: '' @ show_time (dispatch_interval (norm_node req)) @ CRLF @
     ''Stat-Thread-Id:: '' @ show_int (thread_id stats) @ CRLF @
     ''Stat-Thread-Count:: '' @ show_int (thread_count stats) @ CRLF @
     ''Stat-Thread-Static:: '' @ show_int (thread_static stats) @ CRLF @
     ''Stat-Thread-Dynamic:: '' @ show_int (thread_dynamic stats) @ CRLF"

subsection \<open>How a handler ends\<close>

text \<open>
  A handler returns, ends the process (\<open>Died\<close>), has undefined behaviour (\<open>Undef\<close>) or does not return (\<open>None\<close>). The second of
  two pieces of code runs when the first returns.
\<close>

definition hbind :: "'a proc outcome option \<Rightarrow> ('a \<Rightarrow> 'b proc outcome option) \<Rightarrow> 'b proc outcome option" where
  "hbind m f =
     (case m of
        None \<Rightarrow> None
      | Some Undef \<Rightarrow> Some Undef
      | Some (Exit c) \<Rightarrow> Some (Exit c)
      | Some (Ret (Died msg c)) \<Rightarrow> Some (Ret (Died msg c))
      | Some (Ret (Done x)) \<Rightarrow> f x)"

lemma hbind_simps [simp]:
  "hbind None f = None" "hbind (Some Undef) f = Some Undef" "hbind (Some (Exit c)) f = Some (Exit c)"
  "hbind (Some (Ret (Died msg c))) f = Some (Ret (Died msg c))" "hbind (Some (Ret (Done x))) f = f x"
  by (simp_all add: hbind_def)

lemma hbind_Done: "hbind m f = Some (Ret (Done y)) \<longleftrightarrow> (\<exists>x. m = Some (Ret (Done x)) \<and> f x = Some (Ret (Done y)))"
  by (auto simp: hbind_def split: option.splits outcome.splits proc.splits)

text \<open>
  What the kernel answers to a handler: the results of \<open>open\<close>, \<open>mmap\<close> by its length, \<open>close\<close> and \<open>munmap\<close> while a static
  file is served; of \<open>fork\<close>, and whether the program that the child runs ever ends; the script of the \<open>write\<close> calls in each call of \<open>Rio_writen\<close>,
  by its position in the function; the text of the error.
\<close>

record kernel =
  k_open :: "string \<Rightarrow> int"
  k_mmap :: "nat \<Rightarrow> addr"
  k_close :: int
  k_munmap :: int
  k_fork :: int
  k_ends :: bool
  k_write :: "nat \<Rightarrow> wr list"
  k_err :: string

text \<open>A write into an array of \<open>n\<close> characters, with the terminator; a call of \<open>Rio_writen\<close>, with the bytes it sends.\<close>

definition fits :: "nat \<Rightarrow> string \<Rightarrow> unit proc outcome option" where
  "fits n s = Some (if length s < n then Ret (Done ()) else Undef)"

definition send :: "kernel \<Rightarrow> nat \<Rightarrow> string \<Rightarrow> string proc outcome option" where
  "send k i buf =
     (case Rio_writen buf (k_write k i) (k_err k) of
        (out, None) \<Rightarrow> None
      | (out, Some (Died msg c)) \<Rightarrow> Some (Ret (Died msg c))
      | (out, Some (Done _)) \<Rightarrow> Some (Ret (Done out)))"

text \<open>The kernel takes \<open>n\<close> bytes in every call of \<open>Rio_writen\<close>.\<close>

definition accepts :: "kernel \<Rightarrow> nat \<Rightarrow> bool" where
  "accepts k n \<longleftrightarrow> (\<forall>i < 4. WFail \<notin> set (k_write k i) \<and> n \<le> length (filter (\<lambda>w. w \<noteq> WIntr) (k_write k i)))"

lemma send_ok: "accepts k n \<Longrightarrow> i < 4 \<Longrightarrow> length buf \<le> n \<Longrightarrow> send k i buf = Some (Ret (Done buf))"
  using rio_writen_loop_complete [of "k_write k i" buf "[]"]
  by (auto simp: accepts_def send_def Rio_writen_def rio_writen_def)

lemma fits_ok: "length s < n \<Longrightarrow> fits n s = Some (Ret (Done ()))"
  by (simp add: fits_def)

subsection \<open>Error responses\<close>

definition error_body :: "string \<Rightarrow> string \<Rightarrow> string \<Rightarrow> string \<Rightarrow> string" where
  "error_body cause errnum shortmsg longmsg =
     ''<html><title>OS-HW3 Error</title>'' @
     ''<body bgcolor=fffff>'' @ CRLF @
     errnum @ '': '' @ shortmsg @ CRLF @
     ''<p>'' @ longmsg @ '': '' @ cause @ CRLF @
     ''<hr>OS-HW3 Web Server'' @ CRLF"

definition requestError ::
  "kernel \<Rightarrow> queue_node \<Rightarrow> string \<Rightarrow> string \<Rightarrow> string \<Rightarrow> string \<Rightarrow> Stats \<Rightarrow> (string \<times> queue_node) proc outcome option" where
  "requestError k req cause errnum shortmsg longmsg stats =
     (let body = error_body cause errnum shortmsg longmsg;
          status = ''HTTP/1.0 '' @ errnum @ '' '' @ shortmsg @ CRLF;
          ctype = ''Content-Type: text/html'' @ CRLF;
          buf = ''Content-Length: '' @ show_lu (int (length body)) @ CRLF @ stat_lines req stats @ CRLF in
      hbind (fits MAXBUF body) (\<lambda>_.
      hbind (fits MAXLINE status) (\<lambda>_.
      hbind (send k 0 status) (\<lambda>o1.
      hbind (send k 1 ctype) (\<lambda>o2.
      hbind (fits MAXLINE buf) (\<lambda>_.
      hbind (send k 2 buf) (\<lambda>o3.
      hbind (send k 3 body) (\<lambda>o4.
        Some (Ret (Done (o1 @ o2 @ o3 @ o4, norm_node req)))))))))))"

subsection \<open>Request headers\<close>

text \<open>
  The loop reads lines until one is empty. At the end of the file \<open>Rio_readlineb\<close> leaves the
  buffer as it was, so the loop has no other exit: \<open>None\<close> is a loop that never ends.
\<close>

partial_function (option) skip_headers ::
  "rio_t \<Rightarrow> string \<Rightarrow> rd list \<Rightarrow> string \<Rightarrow> (rio_t \<times> rd list) proc option" where
  "skip_headers rp buf es err =
     (if buf = CRLF then Some (Done (rp, es))
      else case Rio_readlineb rp buf MAXLINE es err of
          Died m c \<Rightarrow> Some (Died m c)
        | Done (n, buf', rp', es') \<Rightarrow> skip_headers rp' buf' es' err)"

declare skip_headers.simps [code]

definition requestReadhdrs ::
  "rio_t \<Rightarrow> string \<Rightarrow> rd list \<Rightarrow> string \<Rightarrow> (rio_t \<times> rd list) proc option" where
  "requestReadhdrs rp buf es err =
     (case Rio_readlineb rp buf MAXLINE es err of
        Died m c \<Rightarrow> Some (Died m c)
      | Done (n, buf', rp', es') \<Rightarrow> skip_headers rp' buf' es' err)"

subsection \<open>The URI\<close>

text \<open>
  The result is the static flag, the file name, the CGI arguments and the URI (cut at the
  question mark). In the first branch the arguments keep whatever the caller's buffer held. An
  empty URI makes the code read the character before the buffer, and a file name that does not fit its
  array of \<open>MAXLINE\<close> characters overflows it.
\<close>

definition requestParseURI ::
  "string \<Rightarrow> string \<Rightarrow> (bool \<times> string \<times> string \<times> string) outcome" where
  "requestParseURI uri cgiargs =
     (let named = (\<lambda>filename r. if length filename < MAXLINE then r else Undef) in
      if strstr uri ''..'' \<noteq> None then Ret (True, ''./public/home.html'', cgiargs, uri)
      else if strstr uri ''cgi'' = None then
        named (''./public/'' @ uri)
         (if uri = [] then Undef
          else if last uri = CHR ''/'' then
            named (''./public/'' @ uri @ ''home.html'') (Ret (True, ''./public/'' @ uri @ ''home.html'', [], uri))
          else Ret (True, ''./public/'' @ uri, [], uri))
      else case strchr uri (CHR ''?'') of
          Some i \<Rightarrow> named (''./public/'' @ take i uri) (Ret (False, ''./public/'' @ take i uri, drop (Suc i) uri, take i uri))
        | None \<Rightarrow> named (''./public/'' @ uri) (Ret (False, ''./public/'' @ uri, [], uri)))"

definition requestGetFiletype :: "string \<Rightarrow> string" where
  "requestGetFiletype filename =
     (if strstr filename ''.html'' \<noteq> None then ''text/html''
      else if strstr filename ''.gif'' \<noteq> None then ''image/gif''
      else if strstr filename ''.jpg'' \<noteq> None then ''image/jpeg''
      else ''text/plain'')"

subsection \<open>Files\<close>

record stat_t =
  is_reg :: bool
  irusr :: bool
  ixusr :: bool
  content :: string

type_synonym fs = "string \<rightharpoonup> stat_t"

subsection \<open>Dynamic and static responses\<close>

text \<open>
  A dynamic response: the server writes the head of the header; the child runs \<open>filename\<close> with
  \<open>QUERY_STRING\<close> set to \<open>cgiargs\<close> and its output on the connection.
\<close>

definition requestServeDynamic ::
  "kernel \<Rightarrow> queue_node \<Rightarrow> string \<Rightarrow> string \<Rightarrow> Stats \<Rightarrow> (string \<times> (string \<times> string) \<times> queue_node) proc outcome option"
where
  "requestServeDynamic k req filename cgiargs stats =
     (let buf = ''HTTP/1.0 200 OK'' @ CRLF @ ''Server: OS-HW3 Web Server'' @ CRLF @ stat_lines req stats in
      hbind (fits MAXLINE buf) (\<lambda>_.
      hbind (send k 0 buf) (\<lambda>out.
      hbind (Some (Ret (Fork (k_fork k) (k_err k)))) (\<lambda>pid.
        if k_ends k then Some (Ret (Done (out, (filename, cgiargs), norm_node req))) else None))))"

text \<open>
  A static response. \<open>filesize\<close> is an \<open>int\<close>; where it becomes a \<open>size_t\<close>, in \<open>mmap\<close>, \<open>Rio_writen\<close> and \<open>munmap\<close>, a negative one is
  huge, and reading that many bytes leaves the mapping. \<open>srcp\<close> is the content of the file.
\<close>

definition requestServeStatic ::
  "kernel \<Rightarrow> queue_node \<Rightarrow> string \<Rightarrow> string \<Rightarrow> int \<Rightarrow> Stats \<Rightarrow> (string \<times> queue_node) proc outcome option" where
  "requestServeStatic k req filename srcp filesize stats =
     (let filetype = requestGetFiletype filename;
          buf = ''HTTP/1.0 200 OK'' @ CRLF @
                ''Server: OS-HW3 Web Server'' @ CRLF @
                ''Content-Length: '' @ show_int filesize @ CRLF @
                ''Content-Type: '' @ filetype @ CRLF @
                stat_lines req stats @ CRLF in
      hbind (Some (Ret (Open (k_open k filename) (k_err k)))) (\<lambda>srcfd.
      hbind (Some (Ret (Mmap (k_mmap k (nat (filesize mod 2 ^ 64))) (k_err k)))) (\<lambda>ptr.
      hbind (Some (Ret (Close (k_close k) (k_err k)))) (\<lambda>_.
      hbind (fits MAXBUF buf) (\<lambda>_.
      hbind (send k 0 buf) (\<lambda>o1.
        if filesize < 0 \<or> int (length srcp) < filesize then Some Undef
        else
          hbind (send k 1 (take (nat filesize) srcp)) (\<lambda>o2.
          hbind (Some (Ret (Munmap (k_munmap k) (k_err k)))) (\<lambda>_.
            Some (Ret (Done (o1 @ o2, norm_node req)))))))))))"

subsection \<open>One request\<close>

record handled =
  sent :: string
  cgi :: "(string \<times> string) option"
  h_stats :: Stats
  h_req :: queue_node

text \<open>
  \<open>sscanf(buf, "%s %s %s", ...)\<close>: a variable keeps its old content where the line has no word. The line ends at its first NUL character.
\<close>

definition scan3 :: "string \<Rightarrow> string \<times> string \<times> string \<Rightarrow> string \<times> string \<times> string" where
  "scan3 buf old = (case old of (m, u, v) \<Rightarrow>
     (case words (takeWhile (\<lambda>c. c \<noteq> CHR 0x00) buf) of
        [] \<Rightarrow> (m, u, v)
      | [m'] \<Rightarrow> (m', u, v)
      | [m', u'] \<Rightarrow> (m', u', v)
      | m' # u' # v' # _ \<Rightarrow> (m', u', v')))"

definition reply_error ::
  "kernel \<Rightarrow> queue_node \<Rightarrow> string \<Rightarrow> string \<Rightarrow> string \<Rightarrow> string \<Rightarrow> Stats \<Rightarrow> handled proc outcome option" where
  "reply_error k req cause errnum shortmsg longmsg stats =
     hbind (requestError k req cause errnum shortmsg longmsg stats) (\<lambda>(out, req').
       Some (Ret (Done \<lparr>sent = out, cgi = None, h_stats = stats, h_req = req'\<rparr>)))"

text \<open>
  From the check of the file on; \<open>stats\<close> already counts the request. The size of the file, an \<open>off_t\<close>, is converted to the
  \<open>int\<close> that \<open>requestServeStatic\<close> takes.
\<close>

definition serve_file ::
  "kernel \<Rightarrow> fs \<Rightarrow> queue_node \<Rightarrow> bool \<Rightarrow> string \<Rightarrow> string \<Rightarrow> Stats \<Rightarrow> handled proc outcome option" where
  "serve_file k files req is_static filename cgiargs stats =
     (case files filename of
        None \<Rightarrow> reply_error k req filename ''404'' ''Not found''
                  ''OS-HW3 Server could not find this file'' stats
      | Some sbuf \<Rightarrow>
          if is_static then
            if \<not> is_reg sbuf \<or> \<not> irusr sbuf
            then reply_error k req filename ''403'' ''Forbidden''
                   ''OS-HW3 Server could not read this file'' stats
            else (let stats' = stats\<lparr>thread_static := thread_static stats + 1\<rparr> in
              hbind (requestServeStatic k req filename (content sbuf) (to_int32 (int (length (content sbuf)))) stats') (\<lambda>(out, req').
                Some (Ret (Done \<lparr>sent = out, cgi = None, h_stats = stats', h_req = req'\<rparr>))))
          else
            if \<not> is_reg sbuf \<or> \<not> ixusr sbuf
            then reply_error k req filename ''403'' ''Forbidden''
                   ''OS-HW3 Server could not run this CGI program'' stats
            else (let stats' = stats\<lparr>thread_dynamic := thread_dynamic stats + 1\<rparr> in
              hbind (requestServeDynamic k req filename cgiargs stats') (\<lambda>(out, prog, req').
                Some (Ret (Done \<lparr>sent = out, cgi = Some prog, h_stats = stats', h_req = req'\<rparr>)))))"

text \<open>
  The whole handler. \<open>old\<close> are the uninitialised buffers \<open>method\<close>, \<open>uri\<close>, \<open>version\<close>, \<open>buf\<close>,
  \<open>cgiargs\<close> and the header buffer.
\<close>

record scratch =
  s_buf :: string
  s_words :: "string \<times> string \<times> string"
  s_hdr :: string
  s_args :: string

definition requestHandle ::
  "kernel \<Rightarrow> fs \<Rightarrow> scratch \<Rightarrow> rd list \<Rightarrow> queue_node \<Rightarrow> Stats \<Rightarrow> handled proc outcome option" where
  "requestHandle k files old es req stats0 =
     (let stats = stats0\<lparr>thread_count := thread_count stats0 + 1\<rparr>;
          rio = Rio_readinitb \<lparr>rio_cnt = 0, rio_bufptr = 0, rio_buf = []\<rparr> in
      hbind (Some (Ret (Rio_readlineb rio (s_buf old) MAXLINE es (k_err k)))) (\<lambda>(n, buf, rio, es).
        case scan3 buf (s_words old) of (method, uri, version) \<Rightarrow>
          if \<not> strcasecmp_eq method ''GET''
          then reply_error k req method ''501'' ''Not Implemented''
                 ''OS-HW3 Server does not implement this method'' stats
          else
            hbind (map_option Ret (requestReadhdrs rio (s_hdr old) es (k_err k))) (\<lambda>(rio, es).
            hbind (Some (obind (requestParseURI uri (s_args old)) (\<lambda>x. Ret (Done x)))) (\<lambda>(is_static, filename, cgiargs, uri).
              serve_file k files req is_static filename cgiargs stats))))"

subsection \<open>Times\<close>

definition usecs :: "timeval \<Rightarrow> int" where
  "usecs t = tv_sec t * 1000000 + tv_usec t"

lemma norm_time_usecs:
  assumes "0 \<le> tv_usec t"
  shows "usecs (norm_time t) = usecs t \<and> 0 \<le> tv_usec (norm_time t) \<and> tv_usec (norm_time t) < 1000000"
  using assms by (auto simp: norm_time_def usecs_def c_div_nonneg c_mod_nonneg algebra_simps)

lemma dispatch_interval_usecs:
  "usecs (dispatch_interval req) = usecs (dispatch_time req) - usecs (arrival_time req)"
  by (simp add: dispatch_interval_def usecs_def Let_def)

subsection \<open>File names\<close>

text \<open>Two equal characters in a row come from one side of an append or from its seam.\<close>

lemma sublist_pair_append:
  "sublist [a, a] (u @ v) \<longleftrightarrow>
     sublist [a, a] u \<or> sublist [a, a] v \<or> (u \<noteq> [] \<and> v \<noteq> [] \<and> last u = a \<and> hd v = a)"
proof (induction u)
  case (Cons x u)
  have "prefix [a, a] (x # w) \<longleftrightarrow> x = a \<and> w \<noteq> [] \<and> hd w = a" for w
    by (cases w) auto
  with Cons show ?case
    by (cases u) (auto simp: sublist_Cons_right)
qed simp

definition public_dir :: string where
  "public_dir = ''./public/''"

lemma public_dir_no_dots: "\<not> sublist ''..'' public_dir" "last public_dir = CHR ''/''" "public_dir \<noteq> []"
  by (simp_all add: public_dir_def sublist_Cons_right)

lemma home_no_dots: "\<not> sublist ''..'' ''home.html''" "hd ''home.html'' = CHR ''h''"
  by (simp_all add: sublist_Cons_right)

lemma sublist_of_take: "sublist p (take i s) \<Longrightarrow> sublist p s"
  using sublist_order.order_trans sublist_take by blast

subsection \<open>Reading the headers\<close>

text \<open>A complete line that fits the buffer and is not the empty line that ends the headers.\<close>

definition line_ok :: "string \<Rightarrow> bool" where
  "line_ok l \<longleftrightarrow> (\<exists>b. l = b @ [LF] \<and> LF \<notin> set b) \<and> length l < MAXLINE"

definition header_line :: "string \<Rightarrow> bool" where
  "header_line l \<longleftrightarrow> line_ok l \<and> l \<noteq> CRLF"

lemma line_of_line: "LF \<notin> set b \<Longrightarrow> length b < k \<Longrightarrow> line_of k (b @ LF # s) = b @ [LF]"
proof (induction b arbitrary: k)
  case Nil
  then show ?case by (cases k) auto
next
  case (Cons c b)
  then show ?case by (cases k) auto
qed

lemma Rio_readlineb_line:
  assumes "clean es" "rio_wf rp" "pending rp es = l @ s" "line_ok l"
  shows "\<exists>n rp' es'. Rio_readlineb rp buf MAXLINE es err = Done (n, l, rp', es') \<and>
     clean es' \<and> rio_wf rp' \<and> pending rp' es' = s"
proof -
  obtain b where b: "l = b @ [LF]" "LF \<notin> set b" "length l < MAXLINE"
    using assms(4) by (auto simp: line_ok_def)
  have "line_of (MAXLINE - 1) (pending rp es) = l"
    using line_of_line [OF b(2), of "MAXLINE - 1" s] b assms(3) by simp
  then show ?thesis
    using rio_readlineb_loop_clean [OF assms(1,2), of 1 "[]" MAXLINE] b assms(3)
    by (auto simp: Rio_readlineb_def rio_readlineb_def MAXLINE_def Let_def)
qed

lemma Rio_readlineb_eof:
  assumes "clean es" "rio_wf rp" "pending rp es = []"
  shows "\<exists>rp' es'. Rio_readlineb rp buf MAXLINE es err = Done (0, buf, rp', es') \<and>
     clean es' \<and> rio_wf rp' \<and> pending rp' es' = []"
proof -
  have "line_of k [] = []" for k by (cases k) auto
  then show ?thesis
    using rio_readlineb_loop_clean [OF assms(1,2), of 1 "[]" MAXLINE] assms(3)
    by (auto simp: Rio_readlineb_def rio_readlineb_def MAXLINE_def Let_def)
qed

lemma skip_headers_unfold:
  "skip_headers rp buf es err =
     (if buf = CRLF then Some (Done (rp, es)) else requestReadhdrs rp buf es err)"
  by (subst skip_headers.simps) (simp add: requestReadhdrs_def)

lemma line_ok_CRLF: "line_ok CRLF"
  by (simp add: line_ok_def CRLF_def MAXLINE_def)

lemma requestReadhdrs_done:
  assumes "clean es" "rio_wf rp" "pending rp es = concat ls @ CRLF @ rest" "\<forall>l \<in> set ls. header_line l"
  shows "\<exists>rp' es'. requestReadhdrs rp buf es err = Some (Done (rp', es')) \<and>
     clean es' \<and> rio_wf rp' \<and> pending rp' es' = rest"
  using assms
proof (induction ls arbitrary: rp es buf)
  case Nil
  then show ?case
    using Rio_readlineb_line [of es rp CRLF rest buf err] line_ok_CRLF
    by (auto simp: requestReadhdrs_def skip_headers_unfold)
next
  case (Cons l ls)
  obtain n rp' es' where r: "Rio_readlineb rp buf MAXLINE es err = Done (n, l, rp', es')"
      "clean es'" "rio_wf rp'" "pending rp' es' = concat ls @ CRLF @ rest"
    using Rio_readlineb_line [of es rp l "concat ls @ CRLF @ rest" buf err] Cons.prems
    by (auto simp: header_line_def)
  have "l \<noteq> CRLF" using Cons.prems(4) by (simp add: header_line_def)
  with r have "requestReadhdrs rp buf es err = requestReadhdrs rp' l es' err"
    by (simp add: requestReadhdrs_def [of rp] skip_headers_unfold)
  with Cons.IH [OF r(2-4)] Cons.prems(4) show ?case by simp
qed

lemma skip_headers_eof:
  assumes "skip_headers rp buf es err = Some r"
  shows "clean es \<Longrightarrow> rio_wf rp \<Longrightarrow> pending rp es = [] \<Longrightarrow> buf = CRLF"
proof (rule skip_headers.raw_induct
    [where P = "\<lambda>rp buf es err r. clean es \<longrightarrow> rio_wf rp \<longrightarrow> pending rp es = [] \<longrightarrow> buf = CRLF",
      OF _ assms, rule_format], goal_cases)
  case (1 f rp buf es err r)
  show ?case
  proof (rule ccontr)
    assume "buf \<noteq> CRLF"
    moreover obtain rp' es' where "Rio_readlineb rp buf MAXLINE es err = Done (0, buf, rp', es')"
        "clean es'" "rio_wf rp'" "pending rp' es' = []"
      using Rio_readlineb_eof [OF 1(6-8), of buf err] by blast
    ultimately show False using 1(4) [of rp' buf es' err r] 1(5) by simp
  qed
qed

lemma requestReadhdrs_hangs:
  assumes "clean es" "rio_wf rp" "pending rp es = concat ls" "\<forall>l \<in> set ls. header_line l"
    and "buf \<noteq> CRLF"
  shows "requestReadhdrs rp buf es err = None"
  using assms
proof (induction ls arbitrary: rp es buf)
  case Nil
  then have "requestReadhdrs rp buf es err = skip_headers rp buf es err"
    by (simp add: skip_headers_unfold)
  with Nil show ?case
    using skip_headers_eof [of rp buf es err] by (cases "skip_headers rp buf es err") auto
next
  case (Cons l ls)
  obtain n rp' es' where r: "Rio_readlineb rp buf MAXLINE es err = Done (n, l, rp', es')"
      "clean es'" "rio_wf rp'" "pending rp' es' = concat ls"
    using Rio_readlineb_line [of es rp l "concat ls" buf err] Cons.prems
    by (auto simp: header_line_def)
  have l: "l \<noteq> CRLF" using Cons.prems(4) by (simp add: header_line_def)
  with r have "requestReadhdrs rp buf es err = requestReadhdrs rp' l es' err"
    by (simp add: requestReadhdrs_def [of rp] skip_headers_unfold)
  with Cons.IH [OF r(2-4) _ l] Cons.prems(4) show ?case by simp
qed

lemma requestHandle_get:
  assumes "clean es" "avail es = rl @ concat ls @ CRLF @ rest" "line_ok rl"
    and "CHR 0x00 \<notin> set rl" "words rl = [m, uri, v]" "strcasecmp_eq m ''GET''" "\<forall>l \<in> set ls. header_line l"
  shows "requestHandle k files old es req stats =
    hbind (Some (obind (requestParseURI uri (s_args old)) (\<lambda>x. Ret (Done x)))) (\<lambda>(is_static, filename, cgiargs, uri).
      serve_file k files req is_static filename cgiargs (stats\<lparr>thread_count := thread_count stats + 1\<rparr>))"
proof -
  let ?rp = "\<lparr>rio_cnt = 0, rio_bufptr = 0, rio_buf = []\<rparr>"
  have wf: "rio_wf ?rp" and p: "pending ?rp es = rl @ concat ls @ CRLF @ rest"
    using assms(2) by (simp_all add: rio_wf_def pending_def)
  obtain n rp' es' where r: "Rio_readlineb ?rp (s_buf old) MAXLINE es (k_err k) = Done (n, rl, rp', es')"
      "clean es'" "rio_wf rp'" "pending rp' es' = concat ls @ CRLF @ rest"
    using Rio_readlineb_line [OF assms(1) wf p assms(3)] by blast
  obtain rp2 es2 where "requestReadhdrs rp' (s_hdr old) es' (k_err k) = Some (Done (rp2, es2))"
    using requestReadhdrs_done [OF r(2-4) assms(7)] by blast
  moreover have "takeWhile (\<lambda>c. c \<noteq> CHR 0x00) rl = rl" unfolding takeWhile_eq_all_conv using assms(4) by blast
  then have "scan3 rl (s_words old) = (m, uri, v)" using assms(5) unfolding scan3_def by (cases "s_words old") (simp only: prod.case list.case)
  ultimately show ?thesis
    using r(1) assms(6) by (simp add: requestHandle_def Rio_readinitb_def rio_readinitb_def Let_def)
qed

text \<open>A handler that returns has sent an error for a method other than \<open>GET\<close>, or come to the file.\<close>

lemma requestHandle_Done:
  assumes "requestHandle k files old es req stats = Some (Ret (Done r))"
  shows "(\<exists>m. reply_error k req m ''501'' ''Not Implemented'' ''OS-HW3 Server does not implement this method''
      (stats\<lparr>thread_count := thread_count stats + 1\<rparr>) = Some (Ret (Done r))) \<or>
    (\<exists>st fn args. serve_file k files req st fn args (stats\<lparr>thread_count := thread_count stats + 1\<rparr>) = Some (Ret (Done r)))"
proof -
  obtain n buf rio es' where b: "(case scan3 buf (s_words old) of (method, uri, version) \<Rightarrow>
      if \<not> strcasecmp_eq method ''GET''
      then reply_error k req method ''501'' ''Not Implemented'' ''OS-HW3 Server does not implement this method''
        (stats\<lparr>thread_count := thread_count stats + 1\<rparr>)
      else hbind (map_option Ret (requestReadhdrs rio (s_hdr old) es' (k_err k))) (\<lambda>(rio, es).
        hbind (Some (obind (requestParseURI uri (s_args old)) (\<lambda>x. Ret (Done x)))) (\<lambda>(is_static, filename, cgiargs, uri).
          serve_file k files req is_static filename cgiargs (stats\<lparr>thread_count := thread_count stats + 1\<rparr>)))) = Some (Ret (Done r))"
    using assms unfolding requestHandle_def Let_def hbind_Done by fast
  obtain m u v where "scan3 buf (s_words old) = (m, u, v)" by (cases "scan3 buf (s_words old)")
  then show ?thesis using b by (cases "strcasecmp_eq m ''GET''") (auto simp: hbind_Done)
qed

lemma requestHandle_req:
  assumes "requestHandle k files old es req stats = Some (Ret (Done r))"
  shows "h_req r = norm_node req"
proof -
  have e: "reply_error k req c n sm lm s = Some (Ret (Done r)) \<Longrightarrow> h_req r = norm_node req" for c n sm lm s
    by (auto simp: reply_error_def requestError_def Let_def hbind_Done)
  have "serve_file k files req st fn args s = Some (Ret (Done r)) \<Longrightarrow> h_req r = norm_node req" for st fn args s
    by (auto simp: serve_file_def requestServeStatic_def requestServeDynamic_def Let_def hbind_Done
        split: option.splits if_splits dest: e)
  then show ?thesis using requestHandle_Done [OF assms] e by blast
qed

text \<open>The headers of a response fit their arrays.\<close>

definition counters_ok :: "Stats \<Rightarrow> bool" where
  "counters_ok s \<longleftrightarrow> \<bar>thread_id s\<bar> < 2 ^ 31 \<and> \<bar>thread_count s\<bar> < 2 ^ 31 \<and> \<bar>thread_static s\<bar> < 2 ^ 31 \<and> \<bar>thread_dynamic s\<bar> < 2 ^ 31"

lemma length_show_time: "length (show_time x) \<le> 41"
  using length_show_lu [of "tv_sec x"] length_show_06lu [of "tv_usec x"] by (simp add: show_time_def)

lemma length_stat_lines: "counters_ok s \<Longrightarrow> length (stat_lines req s) \<le> 300"
  using length_show_time [of "arrival_time req"] length_show_time [of "dispatch_interval (norm_node req)"]
    length_show_int [of "thread_id s"] length_show_int [of "thread_count s"] length_show_int [of "thread_static s"]
    length_show_int [of "thread_dynamic s"]
  by (simp add: stat_lines_def CRLF_def counters_ok_def)

lemma requestError_sends:
  assumes "accepts k MAXBUF" "counters_ok stats" "length (cause @ errnum @ shortmsg @ longmsg) < 7000"
  shows "requestError k req cause errnum shortmsg longmsg stats =
    Some (Ret (Done (''HTTP/1.0 '' @ errnum @ '' '' @ shortmsg @ CRLF @ ''Content-Type: text/html'' @ CRLF @
      ''Content-Length: '' @ show_lu (int (length (error_body cause errnum shortmsg longmsg))) @ CRLF @
      stat_lines req stats @ CRLF @ error_body cause errnum shortmsg longmsg, norm_node req)))"
proof -
  let ?body = "error_body cause errnum shortmsg longmsg" and ?status = "''HTTP/1.0 '' @ errnum @ '' '' @ shortmsg @ CRLF"
    and ?ctype = "''Content-Type: text/html'' @ CRLF"
  let ?buf = "''Content-Length: '' @ show_lu (int (length ?body)) @ CRLF @ stat_lines req stats @ CRLF"
  have "length ?body < MAXBUF" "length ?status < MAXBUF" "length ?ctype < MAXBUF"
    using assms(3) by (simp_all add: error_body_def CRLF_def MAXBUF_def)
  moreover have "length ?buf < MAXBUF" using length_show_lu [of "int (length ?body)"] length_stat_lines [OF assms(2), of req]
    by (simp add: CRLF_def MAXBUF_def)
  moreover have "MAXLINE = MAXBUF" by (simp add: MAXLINE_def MAXBUF_def)
  ultimately have "fits MAXBUF ?body = Some (Ret (Done ()))" "fits MAXLINE ?status = Some (Ret (Done ()))" "fits MAXLINE ?buf = Some (Ret (Done ()))"
      "send k 0 ?status = Some (Ret (Done ?status))" "send k 1 ?ctype = Some (Ret (Done ?ctype))" "send k 2 ?buf = Some (Ret (Done ?buf))"
      "send k 3 ?body = Some (Ret (Done ?body))"
    using fits_ok send_ok [OF assms(1)] by auto
  then show ?thesis by (simp add: requestError_def Let_def)
qed

lemma length_filetype: "length (requestGetFiletype f) \<le> 10"
  by (simp add: requestGetFiletype_def)

subsection \<open>Properties\<close>

text \<open>
  Request times: the interval printed in the \<open>Stat-Req-Dispatch\<close> header is exactly the dispatch
  time minus the arrival time, with its microseconds carried into the range below one second.
\<close>

theorem dispatch_interval_exact:
  assumes "0 \<le> tv_usec (dispatch_time req)" "0 \<le> tv_usec (arrival_time req)"
  shows "usecs (dispatch_interval (norm_node req)) =
       usecs (dispatch_time req) - usecs (arrival_time req) \<and>
     0 \<le> tv_usec (dispatch_interval (norm_node req)) \<and>
     tv_usec (dispatch_interval (norm_node req)) < 1000000"
proof -
  note n = norm_time_usecs [OF assms(1)] norm_time_usecs [OF assms(2)]
  have "0 \<le> tv_usec (dispatch_interval (norm_node req)) \<and>
     tv_usec (dispatch_interval (norm_node req)) < 1000000"
    using n by (auto simp: dispatch_interval_def norm_node_def Let_def)
  then show ?thesis
    using n by (simp add: dispatch_interval_usecs norm_node_def)
qed

definition sample_node :: queue_node where
  "sample_node = \<lparr>node_fd = 4, arrival_time = \<lparr>tv_sec = 10, tv_usec = 900000\<rparr>,
     dispatch_time = \<lparr>tv_sec = 12, tv_usec = 100000\<rparr>, node_prev = 0, node_next = 0\<rparr>"

theorem dispatch_interval_exact_witness:
  "dispatch_interval (norm_node sample_node) = \<lparr>tv_sec = 1, tv_usec = 200000\<rparr> \<and>
   usecs (dispatch_interval (norm_node sample_node)) = 1200000"
  using dispatch_interval_exact [of sample_node]
  by (simp add: sample_node_def dispatch_interval_def norm_node_def norm_time_def usecs_def)

text \<open>
  C28. Confinement: whatever the client asks for, the file name the server uses starts with the
  public directory and has no \<open>..\<close> anywhere, so a request cannot climb out of that directory.
\<close>

theorem requestParseURI_confined:
  assumes "requestParseURI uri cgi0 = Ret (is_static, filename, cgiargs, uri')"
  shows "prefix ''./public/'' filename \<and> \<not> sublist ''..'' filename"
proof -
  have d: "\<not> sublist ''..'' u \<Longrightarrow> \<not> sublist ''..'' (public_dir @ u)" for u
    using public_dir_no_dots by (simp add: sublist_pair_append)
  have h: "\<not> sublist ''..'' u \<Longrightarrow> \<not> sublist ''..'' (u @ ''home.html'')" for u
    using home_no_dots by (simp add: sublist_pair_append)
  have home: "\<not> sublist ''..'' (''./public/home.html'')"
    using d [of "''home.html''"] home_no_dots by (simp add: public_dir_def)
  show ?thesis
  proof (cases "sublist ''..'' uri")
    case True
    then have "strstr uri ''..'' \<noteq> None" by (simp add: strstr_None_iff)
    then show ?thesis using assms home by (auto simp: requestParseURI_def)
  next
    case False
    then have "strstr uri ''..'' = None" by (simp add: strstr_None_iff)
    moreover have "\<not> sublist ''..'' (take i uri)" for i using False sublist_of_take by blast
    ultimately show ?thesis
      using assms False d [of uri] d [of "uri @ ''home.html''"] h [of uri] d [of "take _ uri"]
      by (auto simp: requestParseURI_def public_dir_def split: if_splits option.splits)
  qed
qed

theorem requestParseURI_confined_witness:
  "requestParseURI ''/a/'' [] = Ret (True, ''./public//a/home.html'', [], ''/a/'') \<and>
   \<not> sublist ''..'' ''./public//a/home.html''"
proof -
  have e: "requestParseURI ''/a/'' [] = Ret (True, ''./public//a/home.html'', [], ''/a/'')"
    by code_simp
  then show ?thesis using requestParseURI_confined [OF e] by simp
qed

text \<open>
  CGI arguments: for a request that is not static the URI is cut at its first question mark;
  the file name is made from the part before it and the arguments are the part after it.
\<close>

theorem requestParseURI_dynamic:
  assumes "requestParseURI uri cgi0 = Ret (False, filename, cgiargs, uri')"
  shows "filename = ''./public/'' @ uri' \<and> CHR ''?'' \<notin> set uri' \<and>
    (uri = uri' \<and> cgiargs = [] \<or> uri = uri' @ ''?'' @ cgiargs)"
proof (cases "strchr uri (CHR ''?'')")
  case None
  then have "CHR ''?'' \<notin> set uri" by (auto simp: strchr_def index_if_None_iff)
  with None assms show ?thesis by (auto simp: requestParseURI_def split: if_splits)
next
  case (Some i)
  then obtain u v where "uri = u @ CHR ''?'' # v" "length u = i" "CHR ''?'' \<notin> set u"
    by (auto simp: strchr_def dest!: index_if_Some_split)
  with Some assms show ?thesis by (auto simp: requestParseURI_def split: if_splits)
qed

theorem requestParseURI_dynamic_witness:
  "requestParseURI ''output.cgi?3'' [] = Ret (False, ''./public/output.cgi'', ''3'', ''output.cgi'') \<and>
   CHR ''?'' \<notin> set ''output.cgi''"
proof -
  have e: "requestParseURI ''output.cgi?3'' [] = Ret (False, ''./public/output.cgi'', ''3'', ''output.cgi'')"
    by code_simp
  show ?thesis using e requestParseURI_dynamic [OF e] by blast
qed


lemma sample_header: "header_line (''a:b'' @ CRLF)"
  by (simp add: header_line_def line_ok_def CRLF_def MAXLINE_def)

definition rio0 :: rio_t where
  "rio0 = \<lparr>rio_cnt = 0, rio_bufptr = 0, rio_buf = []\<rparr>"

lemma rio0_wf: "rio_wf rio0"
  by (simp add: rio0_def rio_wf_def)


text \<open>
  A client that closes its connection before the empty line keeps its worker forever: at the
  end of the file \<open>Rio_readlineb\<close> leaves the buffer unchanged, so the loop of
  \<open>requestReadhdrs\<close> never sees an empty line and never returns.
\<close>

theorem requestReadhdrs_no_return:
  assumes "clean es" "rio_wf rp" "pending rp es = concat ls" "\<forall>l \<in> set ls. header_line l" "buf \<noteq> CRLF"
  shows "requestReadhdrs rp buf es err = None"
  using assms by (rule requestReadhdrs_hangs)

theorem requestReadhdrs_no_return_witness:
  "requestReadhdrs rio0 [] [RData (''a:b'' @ CRLF)] [] = None"
  using requestReadhdrs_no_return [of "[RData (''a:b'' @ CRLF)]" rio0 "[''a:b'' @ CRLF]" "[]"]
    sample_header rio0_wf
  by (simp add: pending_def rio0_def CRLF_def)


definition kernel0 :: kernel where
  "kernel0 = \<lparr>k_open = (\<lambda>_. 5), k_mmap = (\<lambda>n. if n = 0 then SIZE_MOD - 1 else 4096),
             k_close = 0, k_munmap = 0, k_fork = 7, k_ends = True, k_write = (\<lambda>_. replicate 9000 (WSome 5)), k_err = ''Invalid argument''\<rparr>"

definition page :: stat_t where
  "page = \<lparr>is_reg = True, irusr = True, ixusr = False, content = ''hi''\<rparr>"

definition rl0 :: string where
  "rl0 = ''GET a HTTP/1.0'' @ CRLF"

lemma kernel0_accepts: "n \<le> 9000 \<Longrightarrow> accepts kernel0 n"
  by (simp add: accepts_def kernel0_def)

lemma rl0_ok: "line_ok rl0" "CHR 0x00 \<notin> set rl0" "words rl0 = [''GET'', ''a'', ''HTTP/1.0'']" "strcasecmp_eq ''GET'' ''GET''"
  "\<not> sublist ''..'' ''a''" "\<not> sublist ''cgi'' ''a''"
proof -
  show "CHR 0x00 \<notin> set rl0" by (simp add: rl0_def CRLF_def)
  show "line_ok rl0" by (auto simp: line_ok_def rl0_def CRLF_def MAXLINE_def)
  show "words rl0 = [''GET'', ''a'', ''HTTP/1.0'']"
    by (simp add: rl0_def CRLF_def isspace_def)
qed (simp_all add: strcasecmp_eq_def sublist_Cons_right)


text \<open>
  Counters: every request that is handled to the end is counted once; it is counted as static
  or as dynamic at most once, and as dynamic exactly when a program was run.
\<close>

theorem requestHandle_stats:
  assumes "requestHandle k files old es req stats = Some (Ret (Done r))"
  shows "thread_id (h_stats r) = thread_id stats \<and>
    thread_count (h_stats r) = thread_count stats + 1 \<and>
    thread_dynamic (h_stats r) = thread_dynamic stats + (if cgi r = None then 0 else 1) \<and>
    thread_static (h_stats r) - thread_static stats \<in> {0, 1} \<and>
    (cgi r \<noteq> None \<longrightarrow> thread_static (h_stats r) = thread_static stats)"
proof -
  have e: "reply_error k req c n sm lm s = Some (Ret (Done r)) \<Longrightarrow> h_stats r = s \<and> cgi r = None" for c n sm lm s
    by (auto simp: reply_error_def hbind_Done)
  have s: "serve_file k files req st fn args s = Some (Ret (Done r)) \<Longrightarrow>
     thread_id (h_stats r) = thread_id s \<and> thread_count (h_stats r) = thread_count s \<and>
     thread_dynamic (h_stats r) = thread_dynamic s + (if cgi r = None then 0 else 1) \<and>
     thread_static (h_stats r) - thread_static s \<in> {0, 1} \<and>
     (cgi r \<noteq> None \<longrightarrow> thread_static (h_stats r) = thread_static s)" for st fn args s
    by (auto simp: serve_file_def Let_def hbind_Done split: option.splits if_splits prod.splits dest!: e)
  show ?thesis using requestHandle_Done [OF assms] by (auto dest!: s e)
qed

theorem requestHandle_stats_witness:
  "\<exists>r. requestHandle kernel0 Map.empty
       \<lparr>s_buf = [], s_words = ([], [], []), s_hdr = [], s_args = []\<rparr> [] sample_node (init_stats 3) =
       Some (Ret (Done r)) \<and> thread_count (h_stats r) = 1 \<and> thread_id (h_stats r) = 3"
proof -
  let ?old = "\<lparr>s_buf = [], s_words = ([], [], []), s_hdr = [], s_args = []\<rparr>"
  let ?st = "init_stats 3\<lparr>thread_count := 1\<rparr>"
  obtain rp es where "Rio_readlineb rio0 [] MAXLINE [] (k_err kernel0) = Done (0, [], rp, es)"
    using Rio_readlineb_eof [of "[]" rio0 "[]" "k_err kernel0"] rio0_wf
    by (auto simp: pending_def rio0_def)
  then have h: "requestHandle kernel0 Map.empty ?old [] sample_node (init_stats 3) =
      reply_error kernel0 sample_node [] ''501'' ''Not Implemented'' ''OS-HW3 Server does not implement this method'' ?st"
    by (simp add: requestHandle_def Rio_readinitb_def rio_readinitb_def scan3_def
        strcasecmp_eq_def rio0_def init_stats_def)
  have "counters_ok ?st" by (simp add: counters_ok_def init_stats_def)
  with kernel0_accepts [of MAXBUF]
  have "\<exists>x. requestError kernel0 sample_node [] ''501'' ''Not Implemented'' ''OS-HW3 Server does not implement this method'' ?st = Some (Ret (Done x))"
    by (subst requestError_sends) (simp_all add: MAXBUF_def)
  then obtain r where r: "requestHandle kernel0 Map.empty ?old [] sample_node (init_stats 3) = Some (Ret (Done r))"
    unfolding h by (auto simp: reply_error_def split: prod.splits)
  then show ?thesis using requestHandle_stats [OF r] by (auto simp: init_stats_def)
qed

text \<open>
  An empty file stops the server: \<open>mmap\<close> rejects a mapping of length 0, and the wrapper ends
  the process; so a request for a readable regular file without content takes the server down,
  with exit status 0.
\<close>

theorem requestHandle_empty_file:
  assumes "clean es" "avail es = rl @ concat ls @ CRLF @ rest" "line_ok rl"
    and "CHR 0x00 \<notin> set rl" "words rl = [m, uri, v]" "strcasecmp_eq m ''GET''" "\<forall>l \<in> set ls. header_line l"
    and "\<not> sublist ''..'' uri" "\<not> sublist ''cgi'' uri" "last uri \<noteq> CHR ''/''" "length (''./public/'' @ uri) < MAXLINE"
    and "files (''./public/'' @ uri) = Some f" "is_reg f" "irusr f" "content f = []"
    and "0 \<le> k_open k (''./public/'' @ uri)" "k_mmap k 0 = SIZE_MOD - 1"
  shows "requestHandle k files old es req stats =
    Some (Ret (Died (''mmap error: '' @ k_err k @ [LF]) 0))"
proof -
  have "uri \<in> set (words rl)" using assms(5) by simp
  then have "uri \<noteq> []" using words_ok by blast
  then have "requestParseURI uri (s_args old) = Ret (True, ''./public/'' @ uri, [], uri)"
    using assms(8-11) by (simp add: requestParseURI_def strstr_None_iff)
  then show ?thesis
    using requestHandle_get [OF assms(1-7)] assms(12-17)
    by (simp add: serve_file_def requestServeStatic_def Open_def checked_def Mmap_def unix_error_def to_int32_def Let_def)
qed

theorem requestHandle_empty_file_witness:
  "requestHandle kernel0 [''./public/a'' \<mapsto> page\<lparr>content := []\<rparr>]
     \<lparr>s_buf = [], s_words = ([], [], []), s_hdr = [], s_args = []\<rparr>
     [RData rl0, RIntr, RData CRLF] sample_node (init_stats 0) =
     Some (Ret (Died (''mmap error: Invalid argument'' @ [LF]) 0))"
proof -
  have a: "avail [RData rl0, RIntr, RData CRLF] = rl0 @ concat [] @ CRLF @ []"
    by simp
  have c: "clean [RData rl0, RIntr, RData CRLF]"
    by (simp add: rl0_def CRLF_def)
  show ?thesis
    using requestHandle_empty_file [OF c a rl0_ok(1-4) _ rl0_ok(5,6),
        of "[''./public/a'' \<mapsto> page\<lparr>content := []\<rparr>]" "page\<lparr>content := []\<rparr>" kernel0 _ sample_node "init_stats 0"]
    by (simp add: page_def kernel0_def MAXLINE_def)
qed

text \<open>
  The file name can outgrow its array: there is a URI that fits the line buffer of \<open>MAXLINE\<close> bytes together with its \<open>GET\<close>, and
  whose file name with its terminator does not fit the equally large array that \<open>requestParseURI\<close> writes with \<open>sprintf\<close>.
\<close>

theorem requestParseURI_overflow:
  "\<exists>uri. length (''GET '' @ uri @ CRLF) < MAXLINE \<and> uri \<noteq> [] \<and> CHR 0x00 \<notin> set uri \<and> requestParseURI uri cgi0 = Undef"
proof -
  let ?u = "replicate 8184 (CHR ''a'')"
  have "set p \<subseteq> set ?u" if "sublist p ?u" for p
    using that by (metis set_mono_sublist)
  from this [of "''..''"] this [of "''cgi''"]
  have "\<not> sublist ''..'' ?u" "\<not> sublist ''cgi'' ?u" by auto
  then have "requestParseURI ?u cgi0 = Undef"
    by (simp add: requestParseURI_def strstr_None_iff MAXLINE_def)
  then show ?thesis
    by (intro exI [of _ ?u]) (simp add: MAXLINE_def CRLF_def)
qed

end
