(* ===== verification/Server.thy ===== *)
theory Server
  imports Request Complex_Main
begin

text \<open>
  The web server (\<open>HW3Wet/server.c\<close>): the main thread accepts connections and puts them in the
  request queue, a fixed pool of workers takes them out. All threads share the queue and the
  counter \<open>running_threads\<close> under the mutex \<open>m1\<close>, and sleep on two condition variables. The
  interleavings are a step relation: every thread has a program counter, one step is a
  lock, an unlock, a wait, a wake-up, or the code between them. A condition variable may wake a
  sleeper without a signal. What the kernel and the libraries choose (descriptors, times, the
  values of \<open>rand\<close>, the addresses of \<open>malloc\<close>, the sleeper that a signal wakes) is chosen by the
  step.
\<close>

subsection \<open>Arguments\<close>

definition BLOCK :: int where "BLOCK = 0"
definition DROP_TAIL :: int where "DROP_TAIL = 1"
definition DROP_HEAD :: int where "DROP_HEAD = 2"
definition RANDOM :: int where "RANDOM = 3"

text \<open>\<open>argv\<close> with the program name first; the result is the port, the pool size, the queue size and the policy.\<close>

definition getargs :: "string list \<Rightarrow> (int \<times> int \<times> int \<times> int) outcome" where
  "getargs argv =
     (if length argv < 5 then Exit 1
      else Ret (atoi (argv ! 1), atoi (argv ! 2), atoi (argv ! 3),
        if argv ! 4 = ''block'' then BLOCK
        else if argv ! 4 = ''dt'' then DROP_TAIL
        else if argv ! 4 = ''dh'' then DROP_HEAD
        else if argv ! 4 = ''random'' then RANDOM
        else - 1))"

subsection \<open>Dropping at random\<close>

text \<open>The conversion to \<open>int\<close> drops the fraction.\<close>

definition our_ceil :: "real \<Rightarrow> int" where
  "our_ceil num =
     (let inum = (if 0 \<le> num then \<lfloor>num\<rfloor> else \<lceil>num\<rceil>)
      in if num = of_int inum then inum else inum + 1)"

text \<open>
  The loop over \<open>random_drop\<close>, for any queue with a drop operation and a length: one value of
  \<open>rand\<close> per round, reduced by the current length. It returns the descriptors to close.
\<close>

fun drop_loop ::
  "(int \<Rightarrow> 'q \<Rightarrow> (int \<times> 'q) outcome) \<Rightarrow> ('q \<Rightarrow> int) \<Rightarrow> int list \<Rightarrow> 'q \<Rightarrow> (int list \<times> 'q) outcome"
where
  "drop_loop drp cnt [] q = Ret ([], q)"
| "drop_loop drp cnt (r # rs) q =
     (if cnt q = 0 then Undef
      else obind (drp (c_mod r (cnt q)) q) (\<lambda>(fd, q).
           obind (drop_loop drp cnt rs q) (\<lambda>(fds, q). Ret (fd # fds, q))))"

definition random_drops :: "int list \<Rightarrow> rqueue \<Rightarrow> (int list \<times> rqueue) outcome" where
  "random_drops = drop_loop random_drop (\<lambda>Q. waiting_queue_size (fst Q))"

subsection \<open>Threads\<close>

datatype thread = Main | Worker nat

datatype mpc =
    M_accept
  | M_lock int timeval
  | M_check int timeval
  | M_sleep int timeval
  | M_woken int timeval
  | M_enq int timeval
  | M_unlock
  | M_close int

datatype wpc =
    W_start
  | W_lock
  | W_check
  | W_sleep
  | W_woken
  | W_taken addr
  | W_handle addr
  | W_close addr
  | W_free addr
  | W_lock2
  | W_dec
  | W_unlock2

record config =
  thread_num :: nat
  buffer_size :: int
  sched_alg :: int

record server =
  queue :: rqueue
  running_threads :: int
  m1 :: "thread option"
  mpc :: mpc
  wpc :: "nat \<Rightarrow> wpc"
  count_id :: int
  thread_stats :: "nat \<Rightarrow> Stats"
  open_fds :: "int set"

definition waiting :: "server \<Rightarrow> int" where
  "waiting s = waiting_queue_size (fst (queue s))"

definition load :: "server \<Rightarrow> int" where
  "load s = waiting s + running_threads s"

definition at_capacity :: "config \<Rightarrow> server \<Rightarrow> bool" where
  "at_capacity cfg s \<longleftrightarrow> load s \<ge> buffer_size cfg"

text \<open>\<open>pthread_cond_signal(&buffer_full)\<close>: only the main thread waits for it.\<close>

fun wake_main :: "mpc \<Rightarrow> mpc" where
  "wake_main (M_sleep fd t) = M_woken fd t"
| "wake_main pc = pc"

definition signal_full :: "config \<Rightarrow> server \<Rightarrow> server" where
  "signal_full cfg s =
     (if load s < buffer_size cfg then s\<lparr>mpc := wake_main (mpc s)\<rparr> else s)"

text \<open>\<open>pthread_cond_signal(&buffer_empty)\<close>: wakes one of the sleeping workers, if there is one.\<close>

definition signal_empty :: "config \<Rightarrow> (nat \<Rightarrow> wpc) \<Rightarrow> (nat \<Rightarrow> wpc) \<Rightarrow> bool" where
  "signal_empty cfg w w' \<longleftrightarrow>
     (\<exists>i < thread_num cfg. w i = W_sleep \<and> w' = w(i := W_woken)) \<or>
     ((\<forall>i < thread_num cfg. w i \<noteq> W_sleep) \<and> w' = w)"

subsection \<open>Steps\<close>

inductive main_step :: "config \<Rightarrow> server \<Rightarrow> server \<Rightarrow> bool" for cfg where
  m_accept: "mpc s = M_accept \<Longrightarrow> fd \<notin> open_fds s \<Longrightarrow>
     main_step cfg s (s\<lparr>mpc := M_lock fd t, open_fds := insert fd (open_fds s)\<rparr>)"
| m_lock: "mpc s = M_lock fd t \<Longrightarrow> m1 s = None \<Longrightarrow>
     main_step cfg s (s\<lparr>mpc := M_check fd t, m1 := Some Main\<rparr>)"
| m_room: "mpc s = M_check fd t \<Longrightarrow> \<not> at_capacity cfg s \<Longrightarrow>
     main_step cfg s (s\<lparr>mpc := M_enq fd t\<rparr>)"
| m_block: "mpc s = M_check fd t \<Longrightarrow> at_capacity cfg s \<Longrightarrow> sched_alg cfg = BLOCK \<Longrightarrow>
     main_step cfg s (s\<lparr>mpc := M_sleep fd t, m1 := None\<rparr>)"
| m_spurious: "mpc s = M_sleep fd t \<Longrightarrow>
     main_step cfg s (s\<lparr>mpc := M_woken fd t\<rparr>)"
| m_relock: "mpc s = M_woken fd t \<Longrightarrow> m1 s = None \<Longrightarrow>
     main_step cfg s (s\<lparr>mpc := M_check fd t, m1 := Some Main\<rparr>)"
| m_drop_tail: "mpc s = M_check fd t \<Longrightarrow> at_capacity cfg s \<Longrightarrow> sched_alg cfg = DROP_TAIL \<Longrightarrow>
     main_step cfg s (s\<lparr>mpc := M_close fd, m1 := None\<rparr>)"
| m_drop_head: "mpc s = M_check fd t \<Longrightarrow> at_capacity cfg s \<Longrightarrow> sched_alg cfg = DROP_HEAD \<Longrightarrow>
     waiting s > 0 \<Longrightarrow> dequeue now (queue s) = Ret (p, (q, h)) \<Longrightarrow>
     main_step cfg s (s\<lparr>mpc := M_enq fd t, queue := (q, free_node p h)\<rparr>)"
| m_drop_head_none: "mpc s = M_check fd t \<Longrightarrow> at_capacity cfg s \<Longrightarrow> sched_alg cfg = DROP_HEAD \<Longrightarrow>
     waiting s \<le> 0 \<Longrightarrow>
     main_step cfg s (s\<lparr>mpc := M_close fd, m1 := None\<rparr>)"
| m_random: "mpc s = M_check fd t \<Longrightarrow> at_capacity cfg s \<Longrightarrow> sched_alg cfg = RANDOM \<Longrightarrow>
     waiting s > 0 \<Longrightarrow> length rs = nat (our_ceil (of_int (waiting s) / 4)) \<Longrightarrow> \<forall>r \<in> set rs. 0 \<le> r \<Longrightarrow>
     random_drops rs (queue s) = Ret (fds, q) \<Longrightarrow>
     main_step cfg s (s\<lparr>mpc := M_enq fd t, queue := q, open_fds := open_fds s - set fds\<rparr>)"
| m_random_none: "mpc s = M_check fd t \<Longrightarrow> at_capacity cfg s \<Longrightarrow> sched_alg cfg = RANDOM \<Longrightarrow>
     waiting s \<le> 0 \<Longrightarrow>
     main_step cfg s (s\<lparr>mpc := M_close fd, m1 := None\<rparr>)"
| m_other: "mpc s = M_check fd t \<Longrightarrow> at_capacity cfg s \<Longrightarrow>
     sched_alg cfg \<notin> {BLOCK, DROP_TAIL, DROP_HEAD, RANDOM} \<Longrightarrow>
     main_step cfg s (s\<lparr>mpc := M_enq fd t\<rparr>)"
| m_enq: "mpc s = M_enq fd t \<Longrightarrow> new \<noteq> NULL \<Longrightarrow> new \<notin> dom (snd (queue s)) \<Longrightarrow>
     enqueue new fd t (queue s) = Ret q \<Longrightarrow> signal_empty cfg (wpc s) w \<Longrightarrow>
     main_step cfg s (s\<lparr>mpc := M_unlock, queue := q, wpc := w\<rparr>)"
| m_unlock: "mpc s = M_unlock \<Longrightarrow>
     main_step cfg s (s\<lparr>mpc := M_accept, m1 := None\<rparr>)"
| m_close: "mpc s = M_close fd \<Longrightarrow>
     main_step cfg s (s\<lparr>mpc := M_accept, open_fds := open_fds s - {fd}\<rparr>)"

inductive worker_step :: "config \<Rightarrow> nat \<Rightarrow> server \<Rightarrow> server \<Rightarrow> bool" for cfg i where
  w_start: "wpc s i = W_start \<Longrightarrow>
     worker_step cfg i s (s\<lparr>wpc := (wpc s)(i := W_lock), count_id := count_id s + 1,
       thread_stats := (thread_stats s)(i := init_stats (count_id s))\<rparr>)"
| w_lock: "wpc s i = W_lock \<Longrightarrow> m1 s = None \<Longrightarrow>
     worker_step cfg i s (s\<lparr>wpc := (wpc s)(i := W_check), m1 := Some (Worker i)\<rparr>)"
| w_wait: "wpc s i = W_check \<Longrightarrow> waiting s \<le> 0 \<Longrightarrow>
     worker_step cfg i s (s\<lparr>wpc := (wpc s)(i := W_sleep), m1 := None\<rparr>)"
| w_spurious: "wpc s i = W_sleep \<Longrightarrow>
     worker_step cfg i s (s\<lparr>wpc := (wpc s)(i := W_woken)\<rparr>)"
| w_relock: "wpc s i = W_woken \<Longrightarrow> m1 s = None \<Longrightarrow>
     worker_step cfg i s (s\<lparr>wpc := (wpc s)(i := W_check), m1 := Some (Worker i)\<rparr>)"
| w_take: "wpc s i = W_check \<Longrightarrow> waiting s > 0 \<Longrightarrow> dequeue now (queue s) = Ret (p, q) \<Longrightarrow>
     worker_step cfg i s (signal_full cfg (s\<lparr>wpc := (wpc s)(i := W_taken p), queue := q,
       running_threads := running_threads s + 1\<rparr>))"
| w_unlock: "wpc s i = W_taken p \<Longrightarrow>
     worker_step cfg i s (s\<lparr>wpc := (wpc s)(i := W_handle p), m1 := None\<rparr>)"
| w_handle: "wpc s i = W_handle p \<Longrightarrow> queue s = (q, h) \<Longrightarrow> h p = Some req \<Longrightarrow>
     requestHandle k files old es req (thread_stats s i) = Some (Ret (Done r)) \<Longrightarrow>
     worker_step cfg i s (s\<lparr>wpc := (wpc s)(i := W_close p), queue := (q, h(p \<mapsto> h_req r)),
       thread_stats := (thread_stats s)(i := h_stats r)\<rparr>)"
| w_close: "wpc s i = W_close p \<Longrightarrow> queue s = (q, h) \<Longrightarrow> h p = Some req \<Longrightarrow>
     worker_step cfg i s (s\<lparr>wpc := (wpc s)(i := W_free p),
       open_fds := open_fds s - {node_fd req}\<rparr>)"
| w_free: "wpc s i = W_free p \<Longrightarrow> queue s = (q, h) \<Longrightarrow>
     worker_step cfg i s (s\<lparr>wpc := (wpc s)(i := W_lock2), queue := (q, free_node p h)\<rparr>)"
| w_lock2: "wpc s i = W_lock2 \<Longrightarrow> m1 s = None \<Longrightarrow>
     worker_step cfg i s (s\<lparr>wpc := (wpc s)(i := W_dec), m1 := Some (Worker i)\<rparr>)"
| w_dec: "wpc s i = W_dec \<Longrightarrow>
     worker_step cfg i s (signal_full cfg (s\<lparr>wpc := (wpc s)(i := W_unlock2),
       running_threads := running_threads s - 1\<rparr>))"
| w_unlock2: "wpc s i = W_unlock2 \<Longrightarrow>
     worker_step cfg i s (s\<lparr>wpc := (wpc s)(i := W_lock), m1 := None\<rparr>)"

inductive step :: "config \<Rightarrow> server \<Rightarrow> server \<Rightarrow> bool" for cfg where
  step_main: "main_step cfg s s' \<Longrightarrow> step cfg s s'"
| step_worker: "i < thread_num cfg \<Longrightarrow> worker_step cfg i s s' \<Longrightarrow> step cfg s s'"

text \<open>
  A handler that does not return keeps its worker in \<open>W_handle\<close> for ever: there is no step. A call that fails for good ends the
  whole process, with this exit status: \<open>accept\<close>, \<open>close\<close>, a call inside a handler, \<open>malloc\<close> for a new node. From undefined
  behaviour in a handler there is no step either.
\<close>

inductive ends :: "config \<Rightarrow> server \<Rightarrow> int \<Rightarrow> bool" for cfg s where
  e_accept: "mpc s = M_accept \<Longrightarrow> Accept rc err = Died msg c \<Longrightarrow> ends cfg s c"
| e_drop: "mpc s = M_check fd t \<Longrightarrow> at_capacity cfg s \<Longrightarrow> sched_alg cfg = RANDOM \<Longrightarrow> waiting s > 0 \<Longrightarrow>
     Close rc err = Died msg c \<Longrightarrow> ends cfg s c"
| e_enq: "mpc s = M_enq fd t \<Longrightarrow> enqueue NULL fd t (queue s) = Exit c \<Longrightarrow> ends cfg s c"
| e_main_close: "mpc s = M_close fd \<Longrightarrow> Close rc err = Died msg c \<Longrightarrow> ends cfg s c"
| e_handle: "i < thread_num cfg \<Longrightarrow> wpc s i = W_handle p \<Longrightarrow> queue s = (q, h) \<Longrightarrow> h p = Some req \<Longrightarrow>
     requestHandle k files old es req (thread_stats s i) = Some (Ret (Died msg c)) \<Longrightarrow> ends cfg s c"
| e_close: "i < thread_num cfg \<Longrightarrow> wpc s i = W_close p \<Longrightarrow> Close rc err = Died msg c \<Longrightarrow> ends cfg s c"

text \<open>The state in which \<open>main\<close> reaches its loop; the workers may not have run yet.\<close>

definition start :: "config \<Rightarrow> addr \<Rightarrow> addr \<Rightarrow> addr \<Rightarrow> timeval \<Rightarrow> server outcome" where
  "start cfg queue_ptr hp ep now =
     obind (createQueue queue_ptr hp ep now (buffer_size cfg) Map.empty) (\<lambda>Q.
       Ret \<lparr>queue = Q, running_threads = 0, m1 = None, mpc = M_accept, wpc = (\<lambda>_. W_start),
            count_id = 0, thread_stats = (\<lambda>_. init_stats 0), open_fds = {}\<rparr>)"

inductive reachable :: "config \<Rightarrow> server \<Rightarrow> bool" for cfg where
  reach_start: "hp \<noteq> ep \<Longrightarrow> start cfg queue_ptr hp ep now = Ret s \<Longrightarrow> reachable cfg s"
| reach_step: "reachable cfg s \<Longrightarrow> step cfg s s' \<Longrightarrow> reachable cfg s'"

subsection \<open>The drop loop\<close>

lemma our_ceil_ceiling: "0 \<le> x \<Longrightarrow> our_ceil x = \<lceil>x\<rceil>"
  unfolding our_ceil_def Let_def by (auto simp: ceiling_altdef)

lemma quarter_bounds:
  assumes "0 < (w :: int)"
  shows "1 \<le> our_ceil (of_int w / 4)" "our_ceil (of_int w / 4) \<le> w"
proof -
  have e: "our_ceil (of_int w / 4) = \<lceil>of_int w / (4 :: real)\<rceil>"
    using assms by (intro our_ceil_ceiling) simp
  have "(0 :: real) < of_int w / 4" using assms by simp
  then show "1 \<le> our_ceil (of_int w / 4)" unfolding e by linarith
  have "of_int w / (4 :: real) \<le> of_int w" using assms by simp
  then show "our_ceil (of_int w / 4) \<le> w" unfolding e by (rule ceiling_le)
qed

context request_fifo
begin

lemma drop_loop_ok:
  assumes "ok q" "int (length rs) \<le> cnt q" "\<forall>r \<in> set rs. 0 \<le> r"
  shows "\<exists>fds q' D. drop_loop drp cnt rs q = Ret (fds, q') \<and> ok q' \<and>
     cnt q' = cnt q - int (length rs) \<and> D \<subseteq> set (nds q) \<and> set (nds q') = set (nds q) - D \<and>
     own q' = own q - D \<and> itm q' = itm q |` (- D) \<and> set fds = (\<lambda>p. fst (the (itm q p))) ` D"
  using assms
proof (induction rs arbitrary: q)
  case Nil
  then show ?case by (intro exI [of _ "[]"] exI [of _ q] exI [of _ "{}"]) auto
next
  case (Cons r rs)
  have pos: "0 < cnt q" using Cons.prems(2) by simp
  then have r: "0 \<le> c_mod r (cnt q)" "c_mod r (cnt q) < cnt q"
    using Cons.prems(3) by (auto simp: c_mod_nonneg)
  obtain p q1 where q1: "drp (c_mod r (cnt q)) q = Ret (fst (the (itm q p)), q1)" "ok q1"
      "p \<in> set (nds q)" "cnt q1 = cnt q - 1" "set (nds q1) = set (nds q) - {p}"
      "own q1 = own q - {p}" "itm q1 = (itm q)(p := None)"
    using drp_frees_queued [OF Cons.prems(1) r] by blast
  have "int (length rs) \<le> cnt q1" "\<forall>r \<in> set rs. 0 \<le> r" using Cons.prems(2,3) q1(4) by auto
  then obtain fds q' D where l: "drop_loop drp cnt rs q1 = Ret (fds, q')" "ok q'"
      "cnt q' = cnt q1 - int (length rs)" "D \<subseteq> set (nds q1)" "set (nds q') = set (nds q1) - D"
      "own q' = own q1 - D" "itm q' = itm q1 |` (- D)"
      "set fds = (\<lambda>p. fst (the (itm q1 p))) ` D"
    using Cons.IH [OF q1(2)] by blast
  have D: "insert p D \<subseteq> set (nds q)" "p \<notin> D" using l(4) q1(3,5) by auto
  have img: "(\<lambda>p. fst (the (itm q1 p))) ` D = (\<lambda>p. fst (the (itm q p))) ` D"
    using D(2) q1(7) by (intro image_cong) auto
  have itm: "itm q' = itm q |` (- insert p D)"
    using l(7) q1(7) by (auto simp: restrict_map_def)
  have "drop_loop drp cnt (r # rs) q = Ret (fst (the (itm q p)) # fds, q')"
    using pos q1(1) l(1) by simp
  moreover have "set (fst (the (itm q p)) # fds) = (\<lambda>p. fst (the (itm q p))) ` insert p D"
    using l(8) img by simp
  moreover have "cnt q' = cnt q - int (length (r # rs))" using l(3) q1(4) by simp
  moreover have "set (nds q') = set (nds q) - insert p D" "own q' = own q - insert p D"
    using l(5,6) q1(5,6) by auto
  ultimately show ?case using l(2) D(1) itm by blast
qed

end

subsection \<open>What the invariants say\<close>

text \<open>The node a worker holds, and whether its descriptor is still open.\<close>

fun held :: "wpc \<Rightarrow> addr option" where
  "held (W_taken p) = Some p"
| "held (W_handle p) = Some p"
| "held (W_close p) = Some p"
| "held (W_free p) = Some p"
| "held pc = None"

fun held_open :: "wpc \<Rightarrow> addr option" where
  "held_open (W_free p) = None"
| "held_open pc = held pc"

fun busy :: "wpc \<Rightarrow> bool" where
  "busy W_lock2 = True"
| "busy W_dec = True"
| "busy pc = (held pc \<noteq> None)"

fun w_crit :: "wpc \<Rightarrow> bool" where
  "w_crit W_check = True"
| "w_crit (W_taken p) = True"
| "w_crit W_dec = True"
| "w_crit W_unlock2 = True"
| "w_crit pc = False"

fun m_crit :: "mpc \<Rightarrow> bool" where
  "m_crit (M_check fd t) = True"
| "m_crit (M_enq fd t) = True"
| "m_crit M_unlock = True"
| "m_crit pc = False"

fun main_fd :: "mpc \<Rightarrow> int set" where
  "main_fd M_accept = {}"
| "main_fd M_unlock = {}"
| "main_fd (M_lock fd t) = {fd}"
| "main_fd (M_check fd t) = {fd}"
| "main_fd (M_sleep fd t) = {fd}"
| "main_fd (M_woken fd t) = {fd}"
| "main_fd (M_enq fd t) = {fd}"
| "main_fd (M_close fd) = {fd}"

text \<open>The mutex belongs to the thread that is in a critical section.\<close>

definition inv_lock :: "server \<Rightarrow> bool" where
  "inv_lock s \<longleftrightarrow> (\<forall>i. w_crit (wpc s i) \<longleftrightarrow> m1 s = Some (Worker i)) \<and>
                 (m_crit (mpc s) \<longleftrightarrow> m1 s = Some Main)"

text \<open>
  The queue is well formed; a held node is live, is not part of the queue, and has one holder.
  Workers that do not exist never leave their start.
\<close>

definition inv_queue :: "config \<Rightarrow> server \<Rightarrow> bool" where
  "inv_queue cfg s \<longleftrightarrow> queue_ok (queue s) \<and>
     (\<forall>i p. held (wpc s i) = Some p \<longrightarrow> p \<in> dom (snd (queue s)) \<and> p \<notin> q_own (queue s)) \<and>
     (\<forall>i j p. held (wpc s i) = Some p \<and> held (wpc s j) = Some p \<longrightarrow> i = j) \<and>
     (\<forall>i. thread_num cfg \<le> i \<longrightarrow> wpc s i = W_start)"

text \<open>\<open>running_threads\<close> counts the workers between taking a request and giving their slot back.\<close>

definition inv_run :: "config \<Rightarrow> server \<Rightarrow> bool" where
  "inv_run cfg s \<longleftrightarrow> running_threads s = int (card {i. i < thread_num cfg \<and> busy (wpc s i)})"

text \<open>The number of requests in the server never exceeds the buffer size.\<close>

definition inv_cap :: "config \<Rightarrow> server \<Rightarrow> bool" where
  "inv_cap cfg s \<longleftrightarrow> load s \<le> buffer_size cfg \<and>
     (\<forall>fd t. mpc s = M_enq fd t \<longrightarrow> load s < buffer_size cfg)"

text \<open>
  No lost wake-up. While a worker sleeps, there are at least as many workers awake and free as
  there are waiting requests; and the main thread sleeps only while the buffer is full.
\<close>

definition awake :: "wpc \<Rightarrow> bool" where
  "awake pc \<longleftrightarrow> \<not> busy pc \<and> pc \<noteq> W_sleep"

definition inv_wake :: "config \<Rightarrow> server \<Rightarrow> bool" where
  "inv_wake cfg s \<longleftrightarrow>
     ((\<exists>i < thread_num cfg. wpc s i = W_sleep) \<longrightarrow>
        waiting s \<le> int (card {i. i < thread_num cfg \<and> awake (wpc s i)})) \<and>
     (\<forall>fd t. mpc s = M_sleep fd t \<longrightarrow> load s \<ge> buffer_size cfg)"

text \<open>The descriptors the server knows of: those of queued requests, of held requests, of the main thread.\<close>

definition fd_of :: "server \<Rightarrow> addr \<Rightarrow> int" where
  "fd_of s p = fst (the (item_at (snd (queue s)) p))"

definition carriers :: "server \<Rightarrow> addr set" where
  "carriers s = set (q_nodes (queue s)) \<union> {p. \<exists>i. held_open (wpc s i) = Some p}"

definition inv_fd :: "config \<Rightarrow> server \<Rightarrow> bool" where
  "inv_fd cfg s \<longleftrightarrow> inj_on (fd_of s) (carriers s) \<and> main_fd (mpc s) \<inter> fd_of s ` carriers s = {} \<and>
     main_fd (mpc s) \<union> fd_of s ` carriers s \<subseteq> open_fds s \<and>
     (sched_alg cfg \<noteq> DROP_HEAD \<longrightarrow> open_fds s = main_fd (mpc s) \<union> fd_of s ` carriers s)"

subsection \<open>Every step keeps the invariants\<close>

lemma wake_main_class [simp]:
  "m_crit (wake_main pc) = m_crit pc" "main_fd (wake_main pc) = main_fd pc"
  "wake_main pc = M_enq fd t \<longleftrightarrow> pc = M_enq fd t" "wake_main pc \<noteq> M_sleep fd t"
  by (cases pc; simp)+

lemma signal_full_frame [simp]:
  "queue (signal_full cfg s) = queue s" "running_threads (signal_full cfg s) = running_threads s"
  "m1 (signal_full cfg s) = m1 s" "wpc (signal_full cfg s) = wpc s"
  "open_fds (signal_full cfg s) = open_fds s" "thread_stats (signal_full cfg s) = thread_stats s"
  "count_id (signal_full cfg s) = count_id s"
  "m_crit (mpc (signal_full cfg s)) = m_crit (mpc s)"
  "main_fd (mpc (signal_full cfg s)) = main_fd (mpc s)"
  "mpc (signal_full cfg s) = M_enq fd t \<longleftrightarrow> mpc s = M_enq fd t"
  by (simp_all add: signal_full_def)

lemma signal_empty_cases:
  assumes "signal_empty cfg w w'"
  obtains "w' = w" "\<forall>i < thread_num cfg. w i \<noteq> W_sleep"
    | i where "i < thread_num cfg" "w i = W_sleep" "w' = w(i := W_woken)"
  using assms by (auto simp: signal_empty_def)

lemma signal_empty_class:
  assumes "signal_empty cfg w w'"
  shows "w_crit (w' i) = w_crit (w i)" "held (w' i) = held (w i)" "held_open (w' i) = held_open (w i)"
    "busy (w' i) = busy (w i)" "w' i = W_start \<longleftrightarrow> w i = W_start"
  using assms by (auto simp: signal_empty_def split: if_splits)

lemma inv_lock_worker:
  assumes "inv_lock s" "\<And>j. j \<noteq> i \<Longrightarrow> wpc s' j = wpc s j" "m_crit (mpc s') = m_crit (mpc s)"
    and "m1 s = None \<and> w_crit (wpc s' i) \<and> m1 s' = Some (Worker i) \<or>
      w_crit (wpc s i) \<and> \<not> w_crit (wpc s' i) \<and> m1 s' = None \<or>
      w_crit (wpc s i) = w_crit (wpc s' i) \<and> m1 s' = m1 s"
  shows "inv_lock s'"
proof -
  have w: "w_crit (wpc s j) \<longleftrightarrow> m1 s = Some (Worker j)" "m_crit (mpc s) \<longleftrightarrow> m1 s = Some Main" for j
    using assms(1) by (auto simp: inv_lock_def)
  have "w_crit (wpc s' j) \<longleftrightarrow> m1 s' = Some (Worker j)" for j
  proof (cases "j = i")
    case True
    with assms(4) w(1) [of i] show ?thesis by auto
  next
    case False
    then have "w_crit (wpc s' j) \<longleftrightarrow> m1 s = Some (Worker j)" using assms(2) w(1) by simp
    with False assms(4) w(1) [of i] show ?thesis by auto
  qed
  moreover have "m_crit (mpc s') \<longleftrightarrow> m1 s' = Some Main"
    using assms(3,4) w(1) [of i] w(2) by auto
  ultimately show ?thesis by (simp add: inv_lock_def)
qed

lemma main_step_lock: "main_step cfg s s' \<Longrightarrow> inv_lock s \<Longrightarrow> inv_lock s'"
  by (induction rule: main_step.induct)
    (auto simp: inv_lock_def signal_empty_class)

lemma worker_step_lock: "worker_step cfg i s s' \<Longrightarrow> inv_lock s \<Longrightarrow> inv_lock s'"
  by (induction rule: worker_step.induct)
    (erule inv_lock_worker [where i = i]; simp)+

lemma dequeue_Ret:
  assumes "queue_ok Q" "0 < waiting_queue_size (fst Q)" "dequeue now Q = Ret (p, Q')"
  shows "queue_ok Q'" "q_nodes Q = p # q_nodes Q'" "q_own Q' = q_own Q - {p}"
    "item_at (snd Q') = item_at (snd Q)" "p \<in> q_own Q" "p \<notin> q_own Q'" "dom (snd Q') = dom (snd Q)"
    "waiting_queue_size (fst Q') = waiting_queue_size (fst Q) - 1"
proof -
  obtain p0 ps where n: "q_nodes Q = p0 # ps"
    using assms(1,2) rq.cnt_nds [of Q] by (cases "q_nodes Q") auto
  from rq.deq_law [OF assms(1) n, of now] assms(3)
  show r: "queue_ok Q'" "q_nodes Q = p # q_nodes Q'" "q_own Q' = q_own Q - {p}"
    "item_at (snd Q') = item_at (snd Q)" using n by auto
  show "p \<in> q_own Q" using rq.live [OF assms(1)] r(2) by auto
  show "p \<notin> q_own Q'" using r(3) by simp
  show "dom (snd Q') = dom (snd Q)" using r(4) by (metis dom_item_at)
  show "waiting_queue_size (fst Q') = waiting_queue_size (fst Q) - 1"
    using rq.cnt_nds [OF assms(1)] rq.cnt_nds [OF r(1)] r(2) by simp
qed

lemma free_node_set_node: "(q, free_node p h) = set_node p None (q, h)"
  by (simp add: set_node_def free_node_def)

lemma random_drops_Ret:
  assumes "queue_ok Q" "0 < waiting_queue_size (fst Q)" "\<forall>r \<in> set rs. 0 \<le> r"
    and "length rs = nat (our_ceil (of_int (waiting_queue_size (fst Q)) / 4))"
  shows "\<exists>fds Q' D. random_drops rs Q = Ret (fds, Q') \<and> queue_ok Q' \<and>
     waiting_queue_size (fst Q') < waiting_queue_size (fst Q) \<and>
     D \<subseteq> set (q_nodes Q) \<and> set (q_nodes Q') = set (q_nodes Q) - D \<and> q_own Q' = q_own Q - D \<and>
     item_at (snd Q') = item_at (snd Q) |` (- D) \<and> set fds = (\<lambda>p. fst (the (item_at (snd Q) p))) ` D"
proof -
  have l: "1 \<le> int (length rs)" "int (length rs) \<le> waiting_queue_size (fst Q)"
    using quarter_bounds [OF assms(2)] assms(4) by auto
  obtain fds Q' D where "random_drops rs Q = Ret (fds, Q') \<and> queue_ok Q' \<and>
     waiting_queue_size (fst Q') = waiting_queue_size (fst Q) - int (length rs) \<and>
     D \<subseteq> set (q_nodes Q) \<and> set (q_nodes Q') = set (q_nodes Q) - D \<and> q_own Q' = q_own Q - D \<and>
     item_at (snd Q') = item_at (snd Q) |` (- D) \<and> set fds = (\<lambda>p. fst (the (item_at (snd Q) p))) ` D"
    using rq.drop_loop_ok [OF assms(1) l(2) assms(3)] unfolding random_drops_def by blast
  then show ?thesis using l(1) by (intro exI [of _ fds] exI [of _ Q'] exI [of _ D]) auto
qed

lemma enqueue_Ret:
  assumes "queue_ok Q" "new \<noteq> NULL" "new \<notin> dom (snd Q)" "enqueue new fd t Q = Ret Q'"
  shows "queue_ok Q'" "q_nodes Q' = q_nodes Q @ [new]" "q_own Q' = insert new (q_own Q)"
    "item_at (snd Q') = (item_at (snd Q))(new \<mapsto> (fd, t))" "dom (snd Q') = insert new (dom (snd Q))"
    "waiting_queue_size (fst Q') = waiting_queue_size (fst Q) + 1"
proof -
  have "new \<notin> dom (item_at (snd Q))" using assms(3) by (simp add: dom_item_at)
  from rq.enq_law [OF assms(1,2) this, of fd t] assms(4)
  show r: "queue_ok Q'" "q_nodes Q' = q_nodes Q @ [new]" "q_own Q' = insert new (q_own Q)"
    "item_at (snd Q') = (item_at (snd Q))(new \<mapsto> (fd, t))" by auto
  show "dom (snd Q') = insert new (dom (snd Q))"
    using r(4) by (metis dom_item_at dom_fun_upd option.distinct(1))
  show "waiting_queue_size (fst Q') = waiting_queue_size (fst Q) + 1"
    using rq.cnt_nds [OF assms(1)] rq.cnt_nds [OF r(1)] r(2) by simp
qed

lemma set_node_facts:
  assumes "queue_ok Q" "p \<notin> q_own Q"
  shows "queue_ok (set_node p x Q)" "q_nodes (set_node p x Q) = q_nodes Q"
    "q_own (set_node p x Q) = q_own Q" "waiting_queue_size (fst (set_node p x Q)) = waiting_queue_size (fst Q)"
    "item_at (snd (set_node p x Q)) = (item_at (snd Q))(p := map_option (\<lambda>n. (node_fd n, arrival_time n)) x)"
    "dom (snd (set_node p x Q)) = (if x = None then dom (snd Q) - {p} else insert p (dom (snd Q)))"
  using rq.upd_law [OF assms, of x] by (auto simp: set_node_def split: if_splits)

lemma main_step_queue: "main_step cfg s s' \<Longrightarrow> inv_queue cfg s \<Longrightarrow> inv_queue cfg s'"
proof (induction rule: main_step.induct)
  case (m_drop_head s fd t now p q h)
  then have ok: "queue_ok (queue s)" "0 < waiting_queue_size (fst (queue s))"
    by (auto simp: inv_queue_def waiting_def)
  note d = dequeue_Ret [OF ok m_drop_head(5)]
  note f = set_node_facts [OF d(1,6), where x = None]
  show ?case
    using m_drop_head.prems d f unfolding inv_queue_def
    by (auto simp: free_node_set_node)
next
  case (m_random s fd t rs fds q)
  then have ok: "queue_ok (queue s)" "0 < waiting_queue_size (fst (queue s))"
    by (auto simp: inv_queue_def waiting_def)
  then obtain D where "queue_ok q" "D \<subseteq> set (q_nodes (queue s))" "q_own q = q_own (queue s) - D"
      "item_at (snd q) = item_at (snd (queue s)) |` (- D)"
    using random_drops_Ret [OF ok m_random(6)] m_random(5,7) by (auto simp: waiting_def)
  moreover from this have "dom (snd q) = dom (snd (queue s)) - D"
    by (metis dom_item_at dom_restrict Diff_eq)
  ultimately show ?case
    using m_random.prems rq.live [OF ok(1)] unfolding inv_queue_def by auto
next
  case (m_enq s fd t new q w)
  note e = enqueue_Ret [OF _ m_enq(2,3,4)]
  note c = signal_empty_class [OF m_enq(5)]
  show ?case
    using m_enq.prems e c m_enq(3) unfolding inv_queue_def by auto
qed (auto simp: inv_queue_def)


lemma inv_queue_held:
  assumes "inv_queue cfg s" "held (wpc s i) = Some p"
  shows "queue_ok (queue s)" "p \<in> dom (snd (queue s))" "p \<notin> q_own (queue s)"
    "p \<notin> set (q_nodes (queue s))"
  using assms rq.live [of "queue s"] unfolding inv_queue_def by blast+

lemma inv_queue_frame:
  assumes "inv_queue cfg s" "queue s' = queue s"
    and "\<And>j. held (wpc s' j) = None \<or> held (wpc s' j) = held (wpc s j)"
    and "\<And>j. thread_num cfg \<le> j \<Longrightarrow> wpc s' j = wpc s j"
  shows "inv_queue cfg s'"
  using assms(1,2,4) assms(3) unfolding inv_queue_def by (metis option.distinct(1))

lemma worker_step_queue:
  assumes "worker_step cfg i s s'" "i < thread_num cfg" "inv_queue cfg s"
  shows "inv_queue cfg s'"
  using assms
proof (induction rule: worker_step.induct)
  case (w_take s now p q)
  then have ok: "queue_ok (queue s)" "0 < waiting_queue_size (fst (queue s))"
    by (auto simp: inv_queue_def waiting_def)
  note d = dequeue_Ret [OF ok w_take(3)]
  have "p \<in> dom (snd (queue s))" using rq.live [OF ok(1)] d(5) by (auto simp: dom_item_at)
  then show ?case
    using w_take.prems d unfolding inv_queue_def by (auto split: if_splits)
next
  case (w_handle s p q h req k files old es r)
  then have p: "queue_ok (q, h)" "p \<notin> q_own (q, h)"
    using inv_queue_held [OF w_handle.prems(2), of i p] by auto
  note f = set_node_facts [OF p, where x = "Some (h_req r)"]
  have "(q, h(p \<mapsto> h_req r)) = set_node p (Some (h_req r)) (q, h)" by (simp add: set_node_def)
  then show ?case
    using w_handle f p unfolding inv_queue_def by (auto split: if_splits)
next
  case (w_free s p q h)
  then have p: "queue_ok (q, h)" "p \<notin> q_own (q, h)"
    using inv_queue_held [OF w_free.prems(2), of i p] by auto
  note f = set_node_facts [OF p, where x = None]
  show ?case
    using w_free f unfolding inv_queue_def free_node_set_node
    by (simp split: if_splits) (metis held.simps(4))
qed (rule inv_queue_frame, assumption, simp_all)+

text \<open>Counting workers: changing one program counter.\<close>

lemma card_update:
  assumes "i < (n :: nat)"
  shows "int (card {j. j < n \<and> P ((w(i := x)) j)}) =
    int (card {j. j < n \<and> P (w j)}) + (if P x then 1 else 0) - (if P (w i) then 1 else 0)"
proof -
  let ?A = "{j. j < n \<and> j \<noteq> i \<and> P (w j)}"
  have fin: "finite ?A" by (rule finite_subset [of _ "{..<n}"]) auto
  have "{j. j < n \<and> P ((w(i := x)) j)} = (if P x then insert i ?A else ?A)"
    "{j. j < n \<and> P (w j)} = (if P (w i) then insert i ?A else ?A)"
    using assms by auto
  moreover have "i \<notin> ?A" by simp
  ultimately show ?thesis using fin by auto
qed

lemma main_step_run: "main_step cfg s s' \<Longrightarrow> inv_run cfg s \<Longrightarrow> inv_run cfg s'"
  by (induction rule: main_step.induct) (auto simp: inv_run_def signal_empty_class)

lemma worker_step_run:
  "worker_step cfg i s s' \<Longrightarrow> i < thread_num cfg \<Longrightarrow> inv_run cfg s \<Longrightarrow> inv_run cfg s'"
  by (induction rule: worker_step.induct) (simp_all add: inv_run_def card_update del: fun_upd_apply)


lemma load_signal_full [simp]:
  "load (signal_full cfg s) = load s" "waiting (signal_full cfg s) = waiting s"
  by (simp_all add: load_def waiting_def)

lemma signal_full_sleep: "mpc (signal_full cfg s) = M_sleep fd t \<longleftrightarrow> mpc s = M_sleep fd t \<and> buffer_size cfg \<le> load s"
  by (auto simp: signal_full_def)

lemma main_step_cap:
  assumes "main_step cfg s s'" "inv_queue cfg s" "inv_cap cfg s"
    and "sched_alg cfg \<in> {BLOCK, DROP_TAIL, DROP_HEAD, RANDOM}"
  shows "inv_cap cfg s'"
  using assms
proof (induction rule: main_step.induct)
  case (m_drop_head s fd t now p q h)
  then have ok: "queue_ok (queue s)" "0 < waiting_queue_size (fst (queue s))"
    by (auto simp: inv_queue_def waiting_def)
  note d = dequeue_Ret [OF ok m_drop_head(5)]
  show ?case
    using m_drop_head.prems d by (simp add: inv_cap_def load_def waiting_def)
next
  case (m_random s fd t rs fds q)
  then have ok: "queue_ok (queue s)" "0 < waiting_queue_size (fst (queue s))"
    by (auto simp: inv_queue_def waiting_def)
  then have "waiting_queue_size (fst q) < waiting_queue_size (fst (queue s))"
    using random_drops_Ret [OF ok m_random(6)] m_random(5,7) by (auto simp: waiting_def)
  then show ?case
    using m_random.prems by (simp add: inv_cap_def load_def waiting_def)
next
  case (m_enq s fd t new q w)
  then have "queue_ok (queue s)" by (simp add: inv_queue_def)
  from enqueue_Ret(6) [OF this m_enq(2,3,4)] m_enq.prems m_enq(1) show ?case
    by (simp add: inv_cap_def load_def waiting_def)
qed (auto simp: inv_cap_def load_def waiting_def at_capacity_def)

lemma worker_step_load:
  assumes "worker_step cfg i s s'" "inv_queue cfg s"
  shows "load s' \<le> load s"
  using assms
proof (induction rule: worker_step.induct)
  case (w_take s now p q)
  then have ok: "queue_ok (queue s)" "0 < waiting_queue_size (fst (queue s))"
    by (auto simp: inv_queue_def waiting_def)
  from dequeue_Ret(8) [OF ok w_take(3)] show ?case by (simp add: load_def waiting_def)
qed (simp_all add: load_def waiting_def)

lemma worker_step_mpc:
  "worker_step cfg i s s' \<Longrightarrow> mpc s' = M_enq fd t \<longleftrightarrow> mpc s = M_enq fd t"
  by (induction rule: worker_step.induct) simp_all

lemma worker_step_cap:
  assumes "worker_step cfg i s s'" "inv_queue cfg s" "inv_cap cfg s"
  shows "inv_cap cfg s'"
  using worker_step_load [OF assms(1,2)] worker_step_mpc [OF assms(1)] assms(3)
  unfolding inv_cap_def by force

text \<open>Waking up one sleeper adds one free worker.\<close>

lemma signal_empty_awake:
  assumes "signal_empty cfg w w'" "\<exists>i < thread_num cfg. w' i = W_sleep"
  shows "\<exists>i < thread_num cfg. w i = W_sleep"
    "int (card {i. i < thread_num cfg \<and> awake (w' i)}) = int (card {i. i < thread_num cfg \<and> awake (w i)}) + 1"
  using assms card_update [where P = awake and x = W_woken and w = w and n = "thread_num cfg"]
  by (auto simp: signal_empty_def awake_def simp del: fun_upd_apply)

lemma main_step_wake:
  assumes "main_step cfg s s'" "inv_queue cfg s" "inv_wake cfg s"
  shows "inv_wake cfg s'"
  using assms
proof (induction rule: main_step.induct)
  case (m_drop_head s fd t now p q h)
  then have ok: "queue_ok (queue s)" "0 < waiting_queue_size (fst (queue s))"
    by (auto simp: inv_queue_def waiting_def)
  note d = dequeue_Ret [OF ok m_drop_head(5)]
  show ?case
    using m_drop_head.prems d by (auto simp: inv_wake_def waiting_def)
next
  case (m_random s fd t rs fds q)
  then have ok: "queue_ok (queue s)" "0 < waiting_queue_size (fst (queue s))"
    by (auto simp: inv_queue_def waiting_def)
  then have "waiting_queue_size (fst q) < waiting_queue_size (fst (queue s))"
    using random_drops_Ret [OF ok m_random(6)] m_random(5,7) by (auto simp: waiting_def)
  then show ?case
    using m_random.prems by (auto simp: inv_wake_def waiting_def)
next
  case (m_enq s fd t new q w)
  then have "queue_ok (queue s)" by (simp add: inv_queue_def)
  from enqueue_Ret(6) [OF this m_enq(2,3,4)] m_enq.prems signal_empty_awake [OF m_enq(5)] show ?case
    by (auto simp: inv_wake_def waiting_def)
qed (auto simp: inv_wake_def load_def waiting_def at_capacity_def)

lemma awake_simps [simp]:
  "awake W_start" "awake W_lock" "awake W_check" "awake W_woken" "awake W_unlock2" "\<not> awake W_sleep"
  "\<not> awake (W_taken p)" "\<not> awake (W_handle p)" "\<not> awake (W_close p)" "\<not> awake (W_free p)"
  "\<not> awake W_lock2" "\<not> awake W_dec"
  by (simp_all add: awake_def)

lemma inv_wake_worker:
  assumes "inv_wake cfg s" "i < thread_num cfg" "wpc s' = (wpc s)(i := x)"
    and "x \<noteq> W_sleep \<and> waiting s' + of_bool (awake (wpc s i)) \<le> waiting s + of_bool (awake x) \<or> waiting s' \<le> 0"
    and "\<And>fd t. mpc s' = M_sleep fd t \<Longrightarrow> mpc s = M_sleep fd t \<and> load s \<le> load s' \<or> buffer_size cfg \<le> load s'"
  shows "inv_wake cfg s'"
  unfolding inv_wake_def
proof (intro conjI impI allI)
  fix fd t assume "mpc s' = M_sleep fd t"
  with assms(1) assms(5) show "buffer_size cfg \<le> load s'"
    unfolding inv_wake_def by fastforce
next
  assume ex: "\<exists>j < thread_num cfg. wpc s' j = W_sleep"
  have c: "int (card {j. j < thread_num cfg \<and> awake (wpc s' j)}) =
      int (card {j. j < thread_num cfg \<and> awake (wpc s j)}) + of_bool (awake x) - of_bool (awake (wpc s i))"
    using card_update [OF assms(2), where P = awake and x = x and w = "wpc s"] assms(3) by simp
  show "waiting s' \<le> int (card {j. j < thread_num cfg \<and> awake (wpc s' j)})"
  proof (cases "waiting s' \<le> 0")
    case False
    with assms(4) have x: "x \<noteq> W_sleep"
      "waiting s' + of_bool (awake (wpc s i)) \<le> waiting s + of_bool (awake x)" by auto
    then have "\<exists>j < thread_num cfg. wpc s j = W_sleep"
      using ex assms(3) by (auto split: if_splits)
    with assms(1) have "waiting s \<le> int (card {j. j < thread_num cfg \<and> awake (wpc s j)})"
      by (simp add: inv_wake_def)
    with x(2) c show ?thesis by linarith
  qed linarith
qed

lemma worker_step_wake:
  assumes "worker_step cfg i s s'" "i < thread_num cfg" "inv_queue cfg s" "inv_wake cfg s"
  shows "inv_wake cfg s'"
  using assms
proof (induction rule: worker_step.induct)
  case (w_take s now p q)
  then have ok: "queue_ok (queue s)" "0 < waiting_queue_size (fst (queue s))"
    by (auto simp: inv_queue_def waiting_def)
  from dequeue_Ret(8) [OF ok w_take(3)] w_take(1) show ?case
    by (intro inv_wake_worker [OF w_take(6,4)])
      (auto simp: load_def waiting_def signal_full_sleep)
qed (rule inv_wake_worker, assumption, assumption,
    auto simp: load_def waiting_def signal_full_sleep)+


lemma minus_facts:
  assumes "G \<subseteq> F" "M \<inter> F = {}" "M \<union> F \<subseteq> U"
  shows "M \<inter> (F - G) = {}" "M \<union> (F - G) \<subseteq> U - G" "M \<union> (F - G) \<subseteq> U"
    "U = M \<union> F \<Longrightarrow> U - G = M \<union> (F - G)"
  using assms by blast+

lemma inv_fd_remove:
  assumes "inv_fd cfg s" "D \<subseteq> carriers s" "carriers s' = carriers s - D"
    and "\<And>p. p \<in> carriers s' \<Longrightarrow> fd_of s' p = fd_of s p" "main_fd (mpc s') = main_fd (mpc s)"
    and "open_fds s' = open_fds s - fd_of s ` D \<or> sched_alg cfg = DROP_HEAD \<and> open_fds s' = open_fds s"
  shows "inv_fd cfg s'"
proof -
  have inj: "inj_on (fd_of s) (carriers s)" and dis: "main_fd (mpc s) \<inter> fd_of s ` carriers s = {}"
    and sub: "main_fd (mpc s) \<union> fd_of s ` carriers s \<subseteq> open_fds s"
    and eq: "sched_alg cfg \<noteq> DROP_HEAD \<Longrightarrow> open_fds s = main_fd (mpc s) \<union> fd_of s ` carriers s"
    using assms(1) by (auto simp: inv_fd_def)
  have img: "fd_of s' ` carriers s' = fd_of s ` carriers s - fd_of s ` D"
  proof -
    have "fd_of s' ` carriers s' = fd_of s ` carriers s'"
      by (rule image_cong [OF refl]) (rule assms(4))
    also have "\<dots> = fd_of s ` carriers s - fd_of s ` D"
      unfolding assms(3) by (rule inj_on_image_set_diff [OF inj]) (use assms(2) in auto)
    finally show ?thesis .
  qed
  have "inj_on (fd_of s) (carriers s')" using inj assms(3) by (metis Diff_subset inj_on_subset)
  then have inj': "inj_on (fd_of s') (carriers s')" using assms(4) by (metis inj_on_cong)
  have "fd_of s ` D \<subseteq> fd_of s ` carriers s" using assms(2) by blast
  note m = minus_facts [OF this dis sub]
  show ?thesis
    unfolding inv_fd_def img assms(5) using inj' m eq assms(6) by (metis (no_types, lifting))
qed

lemma carriers_eq: "queue s' = queue s \<Longrightarrow> (\<And>j. held_open (wpc s' j) = held_open (wpc s j)) \<Longrightarrow> carriers s' = carriers s"
  by (simp add: carriers_def)

lemma fd_of_eq: "queue s' = queue s \<Longrightarrow> fd_of s' = fd_of s"
  by (auto simp: fd_of_def)

lemma inv_fd_frame:
  assumes "inv_fd cfg s" "queue s' = queue s" "\<And>j. held_open (wpc s' j) = held_open (wpc s j)"
    and "main_fd (mpc s') = main_fd (mpc s)" "open_fds s' = open_fds s"
  shows "inv_fd cfg s'"
proof -
  have "carriers s' = carriers s" "fd_of s' = fd_of s"
    using carriers_eq [OF assms(2,3)] fd_of_eq [OF assms(2)] by auto
  then show ?thesis
    by (intro inv_fd_remove [OF assms(1), of "{}"]) (simp_all add: assms(4,5))
qed

lemma carriers_split:
  "carriers s = set (q_nodes (queue s)) \<union> {p. \<exists>j. j \<noteq> i \<and> held_open (wpc s j) = Some p} \<union>
     set_option (held_open (wpc s i))"
  by (auto simp: carriers_def)

lemma carriers_upd:
  "wpc s' = (wpc s)(i := pc) \<Longrightarrow>
   carriers s' = set (q_nodes (queue s')) \<union> {p. \<exists>j. j \<noteq> i \<and> held_open (wpc s j) = Some p} \<union>
     set_option (held_open pc)"
  by (subst carriers_split [of _ i]) (auto split: if_splits)

lemma held_open_held: "held_open pc = Some p \<Longrightarrow> held pc = Some p"
  by (cases pc) auto

lemma inv_queue_sole:
  "inv_queue cfg s \<Longrightarrow> held (wpc s i) = Some p \<Longrightarrow> j \<noteq> i \<Longrightarrow> held_open (wpc s j) \<noteq> Some p"
  using held_open_held unfolding inv_queue_def by metis

lemma main_step_fd:
  assumes "main_step cfg s s'" "inv_queue cfg s" "inv_fd cfg s"
  shows "inv_fd cfg s'"
  using assms
proof (induction rule: main_step.induct)
  case (m_accept s fd t)
  let ?s = "s\<lparr>mpc := M_lock fd t, open_fds := insert fd (open_fds s)\<rparr>"
  have "carriers ?s = carriers s" "fd_of ?s = fd_of s" by (simp_all add: carriers_def fd_of_def fun_eq_iff)
  with m_accept show ?case by (auto simp: inv_fd_def)
next
  case (m_close s fd)
  let ?s = "s\<lparr>mpc := M_accept, open_fds := open_fds s - {fd}\<rparr>"
  have "carriers ?s = carriers s" "fd_of ?s = fd_of s" by (simp_all add: carriers_def fd_of_def fun_eq_iff)
  with m_close show ?case by (auto simp: inv_fd_def)
next
  case (m_drop_head s fd t now p q h)
  then have ok: "queue_ok (queue s)" "0 < waiting_queue_size (fst (queue s))"
    by (auto simp: inv_queue_def waiting_def)
  note d = dequeue_Ret [OF ok m_drop_head(5)]
  note f = set_node_facts [OF d(1,6), where x = None]
  have p: "p \<in> set (q_nodes (queue s))" "p \<notin> set (q_nodes (q, h))"
    using d(2) rq.live [OF ok(1)] by auto
  have h: "held_open (wpc s i) \<noteq> Some p" for i
    using p(1) inv_queue_held(4) [OF m_drop_head.prems(1)] held_open_held by blast
  show ?case
    by (rule inv_fd_remove [OF m_drop_head.prems(2), of "{p}"])
      (use p h d f m_drop_head(1,3) in \<open>auto simp: carriers_def fd_of_def free_node_set_node\<close>)
next
  case (m_random s fd t rs fds q)
  then have ok: "queue_ok (queue s)" "0 < waiting_queue_size (fst (queue s))"
    by (auto simp: inv_queue_def waiting_def)
  then obtain D where D: "D \<subseteq> set (q_nodes (queue s))" "set (q_nodes q) = set (q_nodes (queue s)) - D"
      "item_at (snd q) = item_at (snd (queue s)) |` (- D)"
      "set fds = (\<lambda>p. fst (the (item_at (snd (queue s)) p))) ` D"
    using random_drops_Ret [OF ok m_random(6)] m_random(5,7) by (auto simp: waiting_def)
  have h: "held_open (wpc s i) = Some p \<Longrightarrow> p \<notin> D" for i p
    using D(1) inv_queue_held(4) [OF m_random.prems(1)] held_open_held by blast
  show ?case
    by (rule inv_fd_remove [OF m_random.prems(2), of D])
      (use D h m_random(1) in \<open>auto simp: carriers_def fd_of_def restrict_map_def\<close>)
next
  case (m_enq s fd t new q w)
  have ok: "queue_ok (queue s)" using m_enq by (simp add: inv_queue_def)
  note e = enqueue_Ret [OF ok m_enq(2,3,4)]
  note c = signal_empty_class(3) [OF m_enq(5)]
  let ?s = "s\<lparr>mpc := M_unlock, queue := q, wpc := w\<rparr>"
  have n: "new \<notin> carriers s"
    using m_enq(3) rq.live [OF ok] inv_queue_held(2) [OF m_enq.prems(1)] held_open_held
    unfolding carriers_def dom_item_at by blast
  have cs: "carriers ?s = insert new (carriers s)" using e(2) c by (auto simp: carriers_def)
  have fo: "fd_of ?s = (fd_of s)(new := fd)" using e(4) by (auto simp: fd_of_def)
  have "fd_of ?s ` carriers ?s = insert fd (fd_of s ` carriers s)" "inj_on (fd_of ?s) (carriers ?s)"
    using n m_enq(1) m_enq.prems(2) unfolding cs fo inv_fd_def by (auto simp: inj_on_def)
  then show ?case
    using m_enq(1) m_enq.prems(2) by (auto simp: inv_fd_def)
qed (rule inv_fd_frame, assumption, simp_all)+

lemma worker_step_fd:
  assumes "worker_step cfg i s s'" "inv_queue cfg s" "inv_fd cfg s"
  shows "inv_fd cfg s'"
  using assms
proof (induction rule: worker_step.induct)
  case (w_take s now p q)
  then have ok: "queue_ok (queue s)" "0 < waiting_queue_size (fst (queue s))"
    by (auto simp: inv_queue_def waiting_def)
  note d = dequeue_Ret [OF ok w_take(3)]
  let ?s = "signal_full cfg (s\<lparr>wpc := (wpc s)(i := W_taken p), queue := q,
       running_threads := running_threads s + 1\<rparr>)"
  have "carriers ?s = carriers s"
    using d(2) w_take(1) by (simp add: carriers_upd [of ?s s i] carriers_split [of s i])
  moreover have "fd_of ?s = fd_of s" using d(4) by (simp add: fd_of_def fun_eq_iff)
  ultimately show ?case
    by (intro inv_fd_remove [OF w_take.prems(2), of "{}"]) simp_all
next
  case (w_handle s p q h req k files old es r)
  have p: "queue_ok (q, h)" "p \<notin> q_own (q, h)"
    using inv_queue_held [OF w_handle.prems(1), of i p] w_handle(1,2) by auto
  note f = set_node_facts [OF p, where x = "Some (h_req r)"]
  let ?s = "s\<lparr>wpc := (wpc s)(i := W_close p), queue := (q, h(p \<mapsto> h_req r)),
       thread_stats := (thread_stats s)(i := h_stats r)\<rparr>"
  have e: "(q, h(p \<mapsto> h_req r)) = set_node p (Some (h_req r)) (q, h)" by (simp add: set_node_def)
  have fd: "node_fd (h_req r) = node_fd req" "item_at h p = Some (node_fd req, arrival_time req)"
    using requestHandle_req [OF w_handle(4)] w_handle(3) by (auto simp: norm_node_def item_at_def)
  have "q_nodes (q, h(p \<mapsto> h_req r)) = q_nodes (q, h)" using f(2) by (simp add: e)
  then have "carriers ?s = carriers s"
    using w_handle(1,2) by (simp add: carriers_upd [of ?s s i] carriers_split [of s i])
  moreover have "fd_of ?s = fd_of s" using f(5) fd w_handle(2) by (simp add: e fd_of_def fun_eq_iff)
  ultimately show ?case
    by (intro inv_fd_remove [OF w_handle.prems(2), of "{}"]) simp_all
next
  case (w_close s p q h req)
  let ?s = "s\<lparr>wpc := (wpc s)(i := W_free p), open_fds := open_fds s - {node_fd req}\<rparr>"
  have p: "p \<notin> set (q_nodes (queue s))" "j \<noteq> i \<Longrightarrow> held_open (wpc s j) \<noteq> Some p" for j
    using inv_queue_held(4) [OF w_close.prems(1), of i p] inv_queue_sole [OF w_close.prems(1), of i p j]
      w_close(1) by simp_all
  have "carriers ?s = carriers s - {p}" "p \<in> carriers s"
    using p w_close(1) by (auto simp: carriers_upd [of ?s s i] carriers_split [of s i])
  moreover have "fd_of s p = node_fd req" "fd_of ?s = fd_of s"
    using w_close(2,3) by (simp_all add: fd_of_def item_at_def fun_eq_iff)
  ultimately show ?case
    by (intro inv_fd_remove [OF w_close.prems(2), of "{p}"]) simp_all
next
  case (w_free s p q h)
  let ?s = "s\<lparr>wpc := (wpc s)(i := W_lock2), queue := (q, free_node p h)\<rparr>"
  have p: "queue_ok (q, h)" "p \<notin> q_own (q, h)" "p \<notin> set (q_nodes (q, h))"
    using inv_queue_held [OF w_free.prems(1), of i p] w_free(1,2) by auto
  note f = set_node_facts [OF p(1,2), where x = None]
  have "j \<noteq> i \<Longrightarrow> held_open (wpc s j) \<noteq> Some p" for j
    using inv_queue_sole [OF w_free.prems(1), of i p j] w_free(1) by simp
  moreover have "q_nodes (q, free_node p h) = q_nodes (q, h)" using f(2) by (simp add: free_node_set_node)
  ultimately have c: "carriers ?s = carriers s" "p \<notin> carriers s"
    using p(3) w_free(1,2)
    by (auto simp: carriers_upd [of ?s s i] carriers_split [of s i])
  have "x \<in> carriers s \<Longrightarrow> fd_of ?s x = fd_of s x" for x
    using c(2) f(5) w_free(2) by (cases "x = p") (simp_all add: fd_of_def free_node_set_node)
  with c show ?case
    by (intro inv_fd_remove [OF w_free.prems(2), of "{}"]) simp_all
qed (rule inv_fd_frame, assumption, simp_all)+


subsection \<open>Reachable states\<close>

definition invariants :: "config \<Rightarrow> server \<Rightarrow> bool" where
  "invariants cfg s \<longleftrightarrow>
     inv_lock s \<and> inv_queue cfg s \<and> inv_run cfg s \<and> inv_wake cfg s \<and> inv_fd cfg s"

lemma start_cases:
  assumes "start cfg qp hp ep now = Ret s" "hp \<noteq> ep"
  obtains Q where "s = \<lparr>queue = Q, running_threads = 0, m1 = None, mpc = M_accept, wpc = (\<lambda>_. W_start),
      count_id = 0, thread_stats = (\<lambda>_. init_stats 0), open_fds = {}\<rparr>"
    "queue_inv Q []"
proof -
  have n: "qp \<noteq> NULL" "hp \<noteq> NULL" "ep \<noteq> NULL"
    using assms(1) by (auto simp: start_def createQueue_def createNode_def obind_Ret_conv split: if_splits)
  obtain q h where "createQueue qp hp ep now (buffer_size cfg) Map.empty = Ret (q, h)" "queue_inv (q, h) []"
    using createQueue_inv [OF n assms(2)] by metis
  with assms(1) that show thesis by (auto simp: start_def)
qed

lemma start_invariants:
  assumes "start cfg qp hp ep now = Ret s" "hp \<noteq> ep"
  shows "invariants cfg s \<and> load s = 0 \<and> mpc s = M_accept"
proof -
  obtain Q where s: "s = \<lparr>queue = Q, running_threads = 0, m1 = None, mpc = M_accept, wpc = (\<lambda>_. W_start),
      count_id = 0, thread_stats = (\<lambda>_. init_stats 0), open_fds = {}\<rparr>" and i: "queue_inv Q []"
    using start_cases [OF assms] by blast
  have q: "queue_ok Q" "q_nodes Q = []" "waiting_queue_size (fst Q) = 0"
    using i queue_inv_nodes [OF i] queue_ok_iff by (auto simp: queue_inv_def split: prod.splits)
  then show ?thesis
    by (auto simp: s invariants_def inv_lock_def inv_queue_def inv_run_def inv_wake_def inv_fd_def
        carriers_def load_def waiting_def)
qed

lemma step_invariants: "step cfg s s' \<Longrightarrow> invariants cfg s \<Longrightarrow> invariants cfg s'"
  unfolding invariants_def
  by (induction rule: step.induct)
    (blast intro: main_step_lock main_step_queue main_step_run main_step_wake main_step_fd
      worker_step_lock worker_step_queue worker_step_run worker_step_wake worker_step_fd)+

lemma reachable_invariants: "reachable cfg s \<Longrightarrow> invariants cfg s"
  by (induction rule: reachable.induct) (use start_invariants step_invariants in blast)+

lemma step_cap:
  "step cfg s s' \<Longrightarrow> inv_queue cfg s \<Longrightarrow> inv_cap cfg s \<Longrightarrow>
     sched_alg cfg \<in> {BLOCK, DROP_TAIL, DROP_HEAD, RANDOM} \<Longrightarrow> inv_cap cfg s'"
  by (induction rule: step.induct) (blast intro: main_step_cap worker_step_cap)+

lemma reachable_cap:
  assumes "reachable cfg s" "sched_alg cfg \<in> {BLOCK, DROP_TAIL, DROP_HEAD, RANDOM}" "0 \<le> buffer_size cfg"
  shows "inv_cap cfg s"
  using assms
proof (induction rule: reachable.induct)
  case (reach_start hp ep qp now s)
  then show ?case using start_invariants by (auto simp: inv_cap_def)
next
  case (reach_step s s')
  moreover have "inv_queue cfg s" using reachable_invariants reach_step(1) by (auto simp: invariants_def)
  ultimately show ?case by (blast intro: step_cap)
qed

subsection \<open>A sample run\<close>

definition t0 :: timeval where
  "t0 = \<lparr>tv_sec = 0, tv_usec = 0\<rparr>"

text \<open>One request waits, no worker has run yet, and a second connection finds the buffer full.\<close>

lemma sample_run:
  assumes "buffer_size cfg = 1"
  shows "\<exists>s. reachable cfg s \<and> mpc s = M_check 5 t0 \<and> m1 s = Some Main \<and> waiting s = 1 \<and>
    running_threads s = 0 \<and> open_fds s = {4, 5} \<and> wpc s = (\<lambda>_. W_start) \<and>
    dom (snd (queue s)) = {10, 20, 30}"
proof -
  obtain s0 where st: "start cfg 1 10 20 t0 = Ret s0"
    by (auto simp: start_def createQueue_def createNode_def assign_def deref_def)
  then have r0: "reachable cfg s0" by (intro reach_start [of 10 20]) auto
  have i0: "invariants cfg s0" "load s0 = 0" "mpc s0 = M_accept"
    using start_invariants [OF st] by auto
  have f0: "m1 s0 = None" "running_threads s0 = 0" "open_fds s0 = {}" "wpc s0 = (\<lambda>_. W_start)"
    "dom (snd (queue s0)) = {10, 20}"
    using st by (auto simp: start_def createQueue_def createNode_def assign_def deref_def split: if_splits)
  have r1: "reachable cfg (s0\<lparr>mpc := M_lock 4 t0, open_fds := {4}\<rparr>)" (is "reachable cfg ?s1")
    using reach_step [OF r0 step_main [OF m_accept, of s0 4 cfg t0]] i0(3) f0(3) by simp
  have r2: "reachable cfg (?s1\<lparr>mpc := M_check 4 t0, m1 := Some Main\<rparr>)" (is "reachable cfg ?s2")
    by (rule reach_step [OF r1 step_main [OF m_lock]]) (simp_all add: f0(1))
  have ld: "load ?s2 = 0" using i0(2) by (simp add: load_def waiting_def)
  have r3: "reachable cfg (?s2\<lparr>mpc := M_enq 4 t0\<rparr>)" (is "reachable cfg ?s3")
    using reach_step [OF r2 step_main [OF m_room [of ?s2 4 t0]]] ld assms by (simp add: at_capacity_def)
  have q: "queue_ok (queue s0)" using i0(1) by (simp add: invariants_def inv_queue_def)
  obtain Q where Q: "enqueue 30 4 t0 (queue s0) = Ret Q"
    using rq.enq_law [OF q, of 30 4 t0] f0(5) by (auto simp: dom_item_at)
  note e = enqueue_Ret [OF q _ _ Q]
  have se: "signal_empty cfg (\<lambda>_. W_start) (\<lambda>_. W_start)" by (simp add: signal_empty_def)
  have r4: "reachable cfg (?s3\<lparr>mpc := M_unlock, queue := Q, wpc := (\<lambda>_. W_start)\<rparr>)" (is "reachable cfg ?s4")
    using reach_step [OF r3 step_main [OF m_enq [of ?s3 4 t0 30 Q cfg "\<lambda>_. W_start"]]] Q se f0(4,5) by simp
  have r5: "reachable cfg (?s4\<lparr>mpc := M_accept, m1 := None\<rparr>)" (is "reachable cfg ?s5")
    using reach_step [OF r4 step_main [OF m_unlock [of ?s4]]] by simp
  have r6: "reachable cfg (?s5\<lparr>mpc := M_lock 5 t0, open_fds := {4, 5}\<rparr>)" (is "reachable cfg ?s6")
    using reach_step [OF r5 step_main [OF m_accept [of ?s5 5 cfg t0]]] by (simp add: insert_commute)
  have r7: "reachable cfg (?s6\<lparr>mpc := M_check 5 t0, m1 := Some Main\<rparr>)" (is "reachable cfg ?s7")
    using reach_step [OF r6 step_main [OF m_lock [of ?s6 5 t0]]] by simp
  have "waiting ?s7 = 1" "dom (snd (queue ?s7)) = {10, 20, 30}"
    using e(5,6) f0(5) i0(2) f0(2) by (auto simp: waiting_def load_def)
  then show ?thesis using r7 f0(2) by (intro exI [of _ ?s7]) simp
qed

lemma drop_loop_length:
  "drop_loop drp cnt rs q = Ret (fds, q') \<Longrightarrow> length fds = length rs"
  by (induction rs arbitrary: q fds) (auto simp: obind_Ret_conv split: if_splits)

subsection \<open>Properties\<close>

text \<open>
  Mutual exclusion: in every state the server can reach, under any interleaving, at most one
  thread is inside a critical section of \<open>m1\<close>.
\<close>

theorem mutual_exclusion:
  assumes "reachable cfg s"
  shows "(m_crit (mpc s) \<longrightarrow> (\<forall>i. \<not> w_crit (wpc s i))) \<and>
    (\<forall>i j. w_crit (wpc s i) \<and> w_crit (wpc s j) \<longrightarrow> i = j)"
  using reachable_invariants [OF assms] by (auto simp: invariants_def inv_lock_def)

definition sample_cfg :: "int \<Rightarrow> config" where
  "sample_cfg alg = \<lparr>thread_num = 2, buffer_size = 1, sched_alg = alg\<rparr>"

lemma sample_cfg_sel [simp]:
  "thread_num (sample_cfg alg) = 2" "buffer_size (sample_cfg alg) = 1" "sched_alg (sample_cfg alg) = alg"
  by (simp_all add: sample_cfg_def)

theorem mutual_exclusion_witness:
  "\<exists>s. reachable (sample_cfg BLOCK) s \<and> m_crit (mpc s) \<and> (\<forall>i. \<not> w_crit (wpc s i))"
proof -
  obtain s where s: "reachable (sample_cfg BLOCK) s" "mpc s = M_check 5 t0"
    using sample_run [of "sample_cfg BLOCK"] by (metis sample_cfg_sel(2))
  with mutual_exclusion [OF s(1)] show ?thesis by auto
qed

text \<open>
  C1. Capacity: with one of the four policies, the requests that wait and those being handled
  never exceed the buffer size, and \<open>running_threads\<close> is exactly the number of workers between
  taking a request and giving its slot back.
\<close>

theorem capacity:
  assumes "reachable cfg s" "sched_alg cfg \<in> {BLOCK, DROP_TAIL, DROP_HEAD, RANDOM}" "0 \<le> buffer_size cfg"
  shows "waiting s + running_threads s \<le> buffer_size cfg \<and> 0 \<le> waiting s \<and>
    running_threads s = int (card {i. i < thread_num cfg \<and> busy (wpc s i)})"
proof -
  have i: "inv_queue cfg s" "inv_run cfg s" using reachable_invariants [OF assms(1)] by (auto simp: invariants_def)
  then have "0 \<le> waiting s" using rq.cnt_nds [of "queue s"] by (simp add: inv_queue_def waiting_def)
  moreover have "load s \<le> buffer_size cfg" using reachable_cap [OF assms] by (simp add: inv_cap_def)
  ultimately show ?thesis using i(2) by (simp add: inv_run_def load_def)
qed

theorem capacity_witness:
  "\<exists>s. reachable (sample_cfg RANDOM) s \<and> waiting s = 1 \<and> waiting s + running_threads s \<le> 1"
proof -
  obtain s where s: "reachable (sample_cfg RANDOM) s" "waiting s = 1"
    using sample_run [of "sample_cfg RANDOM"] by (metis sample_cfg_sel(2))
  with capacity [OF s(1)] show ?thesis by auto
qed

text \<open>
  C9. No lost wake-up: while some worker sleeps on \<open>buffer_empty\<close>, at least as many workers are awake
  and free as requests are waiting; and the main thread sleeps on \<open>buffer_full\<close> only while the
  buffer is full.
\<close>

theorem no_lost_wakeup:
  assumes "reachable cfg s"
  shows "(\<forall>i < thread_num cfg. wpc s i = W_sleep \<longrightarrow>
      waiting s \<le> int (card {j. j < thread_num cfg \<and> awake (wpc s j)})) \<and>
    (\<forall>fd t. mpc s = M_sleep fd t \<longrightarrow> at_capacity cfg s)"
  using reachable_invariants [OF assms] by (auto simp: invariants_def inv_wake_def at_capacity_def)

theorem no_lost_wakeup_witness:
  "\<exists>s. reachable (sample_cfg BLOCK) s \<and> mpc s = M_sleep 5 t0 \<and> at_capacity (sample_cfg BLOCK) s"
proof -
  obtain s where s: "reachable (sample_cfg BLOCK) s" "mpc s = M_check 5 t0" "waiting s = 1" "running_threads s = 0"
    using sample_run [of "sample_cfg BLOCK"] by (metis sample_cfg_sel(2))
  then have "at_capacity (sample_cfg BLOCK) s" by (simp add: at_capacity_def load_def)
  then have "reachable (sample_cfg BLOCK) (s\<lparr>mpc := M_sleep 5 t0, m1 := None\<rparr>)"
    using s by (intro reach_step [OF s(1) step_main [OF m_block]]) simp_all
  with no_lost_wakeup [OF this] show ?thesis by (intro exI) auto
qed

text \<open>
  C2. Memory safety under concurrency: in every reachable state the queue is well formed, a
  \<open>dequeue\<close> at a non-empty queue succeeds, and the node a worker holds is live, is neither queued nor
  a dummy, and is held by no other worker. So nothing is used after \<open>free\<close> or freed twice.
\<close>

theorem held_nodes_safe:
  assumes "reachable cfg s"
  shows "queue_ok (queue s) \<and> (waiting s > 0 \<longrightarrow> (\<exists>p Q. dequeue now (queue s) = Ret (p, Q))) \<and>
    (\<forall>i p. held (wpc s i) = Some p \<longrightarrow> p \<in> dom (snd (queue s)) \<and> p \<notin> q_own (queue s) \<and>
       (\<forall>j. j \<noteq> i \<longrightarrow> held (wpc s j) \<noteq> Some p))"
proof -
  have i: "inv_queue cfg s" using reachable_invariants [OF assms] by (simp add: invariants_def)
  then have ok: "queue_ok (queue s)" by (simp add: inv_queue_def)
  have "\<exists>p Q. dequeue now (queue s) = Ret (p, Q)" if w: "waiting s > 0"
  proof -
    obtain p ps where "q_nodes (queue s) = p # ps"
      using w rq.cnt_nds [OF ok] by (cases "q_nodes (queue s)") (auto simp: waiting_def)
    then show ?thesis using rq.deq_law [OF ok] by blast
  qed
  with i ok show ?thesis unfolding inv_queue_def by blast
qed

theorem held_nodes_safe_witness:
  "\<exists>s p Q. reachable (sample_cfg BLOCK) s \<and> queue_ok (queue s) \<and> dequeue t0 (queue s) = Ret (p, Q)"
proof -
  obtain s where s: "reachable (sample_cfg BLOCK) s" "waiting s = 1"
    using sample_run [of "sample_cfg BLOCK"] by (metis sample_cfg_sel(2))
  with held_nodes_safe [OF s(1), of t0] show ?thesis by auto
qed

text \<open>
  C18. Descriptors: unless the policy drops the head, the open connections are exactly those of the queued
  requests, of the requests workers hold, and of the connection the main thread is placing; no
  two requests share one. Nothing leaks, and nothing is closed while a request still needs it.
\<close>

theorem descriptors_conserved:
  assumes "reachable cfg s" "sched_alg cfg \<noteq> DROP_HEAD"
  shows "open_fds s = main_fd (mpc s) \<union> fd_of s ` carriers s \<and> inj_on (fd_of s) (carriers s) \<and>
    main_fd (mpc s) \<inter> fd_of s ` carriers s = {}"
  using reachable_invariants [OF assms(1)] assms(2) by (simp add: invariants_def inv_fd_def)

theorem descriptors_conserved_witness:
  "\<exists>s. reachable (sample_cfg BLOCK) s \<and> open_fds s = {4, 5} \<and> {4, 5} = {5} \<union> fd_of s ` carriers s"
proof -
  obtain s where s: "reachable (sample_cfg BLOCK) s" "open_fds s = {4, 5}" "mpc s = M_check 5 t0"
    using sample_run [of "sample_cfg BLOCK"] by (metis sample_cfg_sel(2))
  then show ?thesis using descriptors_conserved [OF s(1)] by (auto simp: BLOCK_def DROP_HEAD_def)
qed

text \<open>
  C40. Dropping the head leaks: \<open>main\<close> frees the node of the dropped request without closing its
  connection, so a descriptor stays open that no thread and no node refers to.
\<close>

theorem drop_head_leaks:
  "\<exists>s fd. reachable (sample_cfg DROP_HEAD) s \<and> fd \<in> open_fds s \<and>
     fd \<notin> main_fd (mpc s) \<union> fd_of s ` carriers s"
proof -
  obtain s where s: "reachable (sample_cfg DROP_HEAD) s" "mpc s = M_check 5 t0" "waiting s = 1"
      "running_threads s = 0" "open_fds s = {4, 5}" "wpc s = (\<lambda>_. W_start)"
    using sample_run [of "sample_cfg DROP_HEAD"] by (metis sample_cfg_sel(2))
  have ok: "queue_ok (queue s)" using reachable_invariants [OF s(1)] by (simp add: invariants_def inv_queue_def)
  have w: "0 < waiting_queue_size (fst (queue s))" using s(3) by (simp add: waiting_def)
  obtain p ps where n: "q_nodes (queue s) = p # ps"
    using w rq.cnt_nds [OF ok] by (cases "q_nodes (queue s)") auto
  then obtain q h where d: "dequeue t0 (queue s) = Ret (p, (q, h))" using rq.deq_law [OF ok] by (metis surj_pair)
  note f = dequeue_Ret [OF ok w d]
  let ?s = "s\<lparr>mpc := M_enq 5 t0, queue := (q, free_node p h)\<rparr>"
  have r: "reachable (sample_cfg DROP_HEAD) ?s"
    by (rule reach_step [OF s(1) step_main [OF m_drop_head [of s 5 t0 _ t0 p q h]]])
      (use s d in \<open>simp_all add: at_capacity_def load_def waiting_def\<close>)
  have "q_nodes (q, free_node p h) = []"
    using s(3) f(8) rq.cnt_nds [OF f(1)] set_node_facts(2) [OF f(1,6), where x = None]
    by (simp add: waiting_def free_node_set_node)
  then have "carriers ?s = {}" using s(6) by (simp add: carriers_def)
  with r s(5) show ?thesis by (intro exI [of _ ?s] exI [of _ 4]) simp
qed

text \<open>
  An unknown policy name is stored as \<open>-1\<close> and lets every connection in: the buffer then holds
  more requests than its size.
\<close>

theorem unknown_policy_overflows:
  "\<exists>s. reachable (sample_cfg (- 1)) s \<and> waiting s + running_threads s > buffer_size (sample_cfg (- 1))"
proof -
  let ?c = "sample_cfg (- 1)"
  obtain s where s: "reachable ?c s" "mpc s = M_check 5 t0" "waiting s = 1"
      "running_threads s = 0" "wpc s = (\<lambda>_. W_start)" "dom (snd (queue s)) = {10, 20, 30}"
    using sample_run [of ?c] by (metis sample_cfg_sel(2))
  have ok: "queue_ok (queue s)" using reachable_invariants [OF s(1)] by (simp add: invariants_def inv_queue_def)
  have r1: "reachable ?c (s\<lparr>mpc := M_enq 5 t0\<rparr>)" (is "reachable ?c ?s1")
    by (rule reach_step [OF s(1) step_main [OF m_other]])
      (use s in \<open>simp_all add: at_capacity_def load_def BLOCK_def DROP_TAIL_def DROP_HEAD_def RANDOM_def\<close>)
  obtain Q where Q: "enqueue 40 5 t0 (queue s) = Ret Q"
    using rq.enq_law [OF ok, of 40 5 t0] s(6) by (auto simp: dom_item_at)
  have n: "(40 :: addr) \<notin> dom (snd (queue s))" unfolding s(6) by simp
  have se: "signal_empty ?c (\<lambda>_. W_start) (\<lambda>_. W_start)" by (simp add: signal_empty_def)
  have r2: "reachable ?c (?s1\<lparr>mpc := M_unlock, queue := Q, wpc := (\<lambda>_. W_start)\<rparr>)" (is "reachable ?c ?s2")
    by (rule reach_step [OF r1 step_main [OF m_enq [of ?s1 5 t0 40 Q ?c]]]) (use Q se n s(5) in simp_all)
  have "waiting ?s2 = 2" using enqueue_Ret(6) [OF ok _ n Q] s(3) by (simp add: waiting_def)
  with r2 s(4) show ?thesis by (intro exI [of _ ?s2]) simp
qed

text \<open>
  C19. Random drop: with a non-empty queue of \<open>w\<close> requests, the loop over \<open>random_drop\<close> never divides by
  zero and never leaves the queue; it removes exactly the quarter of \<open>w\<close>, rounded up, frees the
  removed nodes, returns one descriptor for each and keeps the other requests.
\<close>

theorem random_drops_quarter:
  assumes "queue_ok Q" "0 < waiting_queue_size (fst Q)" "\<forall>r \<in> set rs. 0 \<le> r"
    and "length rs = nat (our_ceil (of_int (waiting_queue_size (fst Q)) / 4))"
  shows "\<exists>fds Q' D. random_drops rs Q = Ret (fds, Q') \<and> queue_ok Q' \<and>
    int (length fds) = \<lceil>of_int (waiting_queue_size (fst Q)) / (4 :: real)\<rceil> \<and>
    waiting_queue_size (fst Q') = waiting_queue_size (fst Q) - int (length fds) \<and>
    D \<subseteq> set (q_nodes Q) \<and> set (q_nodes Q') = set (q_nodes Q) - D \<and> dom (snd Q') = dom (snd Q) - D \<and>
    set fds = (\<lambda>p. fst (the (item_at (snd Q) p))) ` D"
proof -
  let ?w = "waiting_queue_size (fst Q)"
  have c: "int (length rs) = \<lceil>of_int ?w / (4 :: real)\<rceil>"
    using quarter_bounds [OF assms(2)] our_ceil_ceiling [of "of_int ?w / 4"] assms(2,4) by simp
  have l: "int (length rs) \<le> ?w" using quarter_bounds [OF assms(2)] assms(4) by auto
  obtain fds Q' D where Q': "random_drops rs Q = Ret (fds, Q')" "queue_ok Q'" "length fds = length rs"
     "waiting_queue_size (fst Q') = ?w - int (length rs)"
     "D \<subseteq> set (q_nodes Q)" "set (q_nodes Q') = set (q_nodes Q) - D"
     "item_at (snd Q') = item_at (snd Q) |` (- D)" "set fds = (\<lambda>p. fst (the (item_at (snd Q) p))) ` D"
    using rq.drop_loop_ok [OF assms(1) l assms(3)] drop_loop_length unfolding random_drops_def by metis
  have "dom (snd Q') = dom (snd Q) - D"
    using arg_cong [OF Q'(7), of dom] by (auto simp: dom_item_at)
  with Q' c show ?thesis by metis
qed

theorem random_drops_quarter_witness:
  "\<exists>fds Q'. random_drops [7] sample_queue = Ret (fds, Q') \<and> length fds = 1 \<and>
     waiting_queue_size (fst Q') = 0"
proof -
  have w: "waiting_queue_size (fst sample_queue) = 1" by (rule sample_queue_facts(4))
  have "nat (our_ceil (1 / 4)) = 1" by (simp add: our_ceil_def Let_def)
  then obtain fds Q' where "random_drops [7] sample_queue = Ret (fds, Q')"
      "int (length fds) = \<lceil>of_int (waiting_queue_size (fst sample_queue)) / (4 :: real)\<rceil>"
      "waiting_queue_size (fst Q') = waiting_queue_size (fst sample_queue) - int (length fds)"
    using random_drops_quarter [OF sample_queue_facts(1), of "[7]"] w by auto
  moreover have "\<lceil>1 / 4 :: real\<rceil> = 1" by (simp add: ceiling_eq_iff)
  ultimately show ?thesis unfolding w by auto
qed

text \<open>
  Arguments: the numbers on the command line are read back exactly, over the whole range of
  \<open>int\<close>, and each policy name selects its policy.
\<close>

theorem getargs_reads:
  assumes "- (2 ^ 31) \<le> port" "port < 2 ^ 31" "- (2 ^ 31) \<le> n" "n < 2 ^ 31" "- (2 ^ 31) \<le> sz" "sz < 2 ^ 31"
    and "(name, alg) \<in> {(''block'', BLOCK), (''dt'', DROP_TAIL), (''dh'', DROP_HEAD), (''random'', RANDOM)}"
  shows "getargs (prog # show_int port # show_int n # show_int sz # name # rest) = Ret (port, n, sz, alg)"
  using assms(7) atoi_show_int [OF assms(1,2)] atoi_show_int [OF assms(3,4)] atoi_show_int [OF assms(5,6)]
  by (auto simp: getargs_def)

theorem getargs_reads_witness:
  "getargs [''server'', show_int 8080, show_int 4, show_int 16, ''dh''] = Ret (8080, 4, 16, DROP_HEAD)"
  by (rule getargs_reads) auto

end
