(* ===== verification/Server_Progress.thy ===== *)
theory Server_Progress
  imports Server
begin

text \<open>
  Progress of the web server: without new connections, and however the threads are scheduled, they come to rest
  after a bounded number of steps, and when they rest every request has been answered or dropped.
\<close>

subsection \<open>Activity\<close>

text \<open>
  A step of a thread that is neither blocked in \<open>accept\<close> nor asleep on a condition variable: what happens without
  new connections and spurious wake-ups.
\<close>

definition acts :: "config \<Rightarrow> server \<Rightarrow> server \<Rightarrow> bool" where
  "acts cfg s s' \<longleftrightarrow>
     main_step cfg s s' \<and> mpc s \<noteq> M_accept \<and> (\<forall>fd t. mpc s \<noteq> M_sleep fd t) \<or>
     (\<exists>i < thread_num cfg. worker_step cfg i s s' \<and> wpc s i \<noteq> W_sleep)"

text \<open>The server at rest: no request anywhere, all workers wait for one and the main thread for a connection.\<close>

definition at_rest :: "config \<Rightarrow> server \<Rightarrow> bool" where
  "at_rest cfg s \<longleftrightarrow> mpc s = M_accept \<and> m1 s = None \<and> q_nodes (queue s) = [] \<and> running_threads s = 0 \<and>
     (\<forall>i < thread_num cfg. wpc s i = W_sleep)"

text \<open>
  A worker inside \<open>requestHandle\<close> goes on when, and only when, that call returns, which depends on the client and the file. The
  steps that need no handler to return, and the states in which only handlers can go on: every worker sleeps or is in a handler,
  requests wait only while all workers are in handlers, and the main thread waits for a connection or for
  room in a full buffer.
\<close>

fun handling :: "wpc \<Rightarrow> bool" where
  "handling (W_handle p) = True"
| "handling pc = False"

definition goes :: "config \<Rightarrow> server \<Rightarrow> server \<Rightarrow> bool" where
  "goes cfg s s' \<longleftrightarrow>
     main_step cfg s s' \<and> mpc s \<noteq> M_accept \<and> (\<forall>fd t. mpc s \<noteq> M_sleep fd t) \<or>
     (\<exists>i < thread_num cfg. worker_step cfg i s s' \<and> wpc s i \<noteq> W_sleep \<and> \<not> handling (wpc s i))"

definition settled :: "config \<Rightarrow> server \<Rightarrow> bool" where
  "settled cfg s \<longleftrightarrow> m1 s = None \<and> (\<forall>i < thread_num cfg. wpc s i = W_sleep \<or> handling (wpc s i)) \<and>
     (mpc s = M_accept \<or> (\<exists>fd t. mpc s = M_sleep fd t) \<and> at_capacity cfg s) \<and>
     ((\<exists>i < thread_num cfg. wpc s i = W_sleep) \<longrightarrow> q_nodes (queue s) = []) \<and>
     running_threads s = int (card {i. i < thread_num cfg \<and> handling (wpc s i)})"

text \<open>
  A bound on the steps that are left: for every thread those of its own loop, for every waiting request those of the
  worker that takes it, and for every signal those of the thread it may wake up.
\<close>

fun worker_work :: "wpc \<Rightarrow> nat" where
  "worker_work W_sleep = 0"
| "worker_work W_check = 1"
| "worker_work W_lock = 2"
| "worker_work W_woken = 2"
| "worker_work W_start = 3"
| "worker_work W_unlock2 = 3"
| "worker_work W_dec = 6"
| "worker_work W_lock2 = 7"
| "worker_work (W_free p) = 8"
| "worker_work (W_close p) = 9"
| "worker_work (W_handle p) = 10"
| "worker_work (W_taken p) = 11"

fun main_work :: "mpc \<Rightarrow> nat" where
  "main_work M_accept = 0"
| "main_work M_unlock = 1"
| "main_work (M_close fd) = 1"
| "main_work (M_enq fd t) = 17"
| "main_work (M_sleep fd t) = 17"
| "main_work (M_check fd t) = 18"
| "main_work (M_woken fd t) = 19"
| "main_work (M_lock fd t) = 19"

definition work :: "config \<Rightarrow> server \<Rightarrow> nat" where
  "work cfg s = main_work (mpc s) + 13 * nat (waiting s) + (\<Sum>i < thread_num cfg. worker_work (wpc s i))"

subsection \<open>Every step uses up work\<close>

lemma worker_work_upd:
  assumes "i < thread_num cfg"
  shows "(\<Sum>j < thread_num cfg. worker_work ((w(i := x)) j)) + worker_work (w i) =
    (\<Sum>j < thread_num cfg. worker_work (w j)) + worker_work x"
proof -
  let ?N = "{..< thread_num cfg}"
  have i: "i \<in> ?N" using assms by simp
  have "(\<Sum>j \<in> ?N - {i}. worker_work ((w(i := x)) j)) = (\<Sum>j \<in> ?N - {i}. worker_work (w j))"
    by (intro sum.cong) auto
  then show ?thesis
    using sum.remove [OF _ i, of "\<lambda>j. worker_work ((w(i := x)) j)"] sum.remove [OF _ i, of "\<lambda>j. worker_work (w j)"] by simp
qed

lemma worker_work_less:
  "i < thread_num cfg \<Longrightarrow> worker_work x < worker_work (w i) \<Longrightarrow>
     (\<Sum>j < thread_num cfg. worker_work ((w(i := x)) j)) < (\<Sum>j < thread_num cfg. worker_work (w j))"
  using worker_work_upd [of i cfg w x] by linarith

lemma signal_empty_work:
  assumes "signal_empty cfg w w'"
  shows "(\<Sum>j < thread_num cfg. worker_work (w' j)) \<le> (\<Sum>j < thread_num cfg. worker_work (w j)) + 2"
  using assms worker_work_upd [of _ cfg w W_woken] by (fastforce simp: signal_empty_def simp del: fun_upd_apply)

lemma signal_full_work: "main_work (mpc (signal_full cfg s)) \<le> main_work (mpc s) + 2"
  by (cases "mpc s") (simp_all add: signal_full_def)

lemma waiting_nonneg: "inv_queue cfg s \<Longrightarrow> 0 \<le> waiting s"
  using rq.cnt_nds by (simp add: inv_queue_def waiting_def)

lemma main_step_work:
  assumes "main_step cfg s s'" "inv_queue cfg s" "mpc s \<noteq> M_accept" "\<forall>fd t. mpc s \<noteq> M_sleep fd t"
  shows "work cfg s' < work cfg s"
  using assms
proof (induction rule: main_step.induct)
  case (m_drop_head s fd t now p q h)
  then have ok: "queue_ok (queue s)" "0 < waiting_queue_size (fst (queue s))"
    by (auto simp: inv_queue_def waiting_def)
  from dequeue_Ret(8) [OF ok m_drop_head(5)] m_drop_head(1) show ?case by (simp add: work_def waiting_def)
next
  case (m_random s fd t rs fds q)
  then have ok: "queue_ok (queue s)" "0 < waiting_queue_size (fst (queue s))"
    by (auto simp: inv_queue_def waiting_def)
  then have "waiting_queue_size (fst q) < waiting_queue_size (fst (queue s))"
    using random_drops_Ret [OF ok m_random(6)] m_random(5,7) by (auto simp: waiting_def)
  then show ?case using m_random(1) ok(2) by (simp add: work_def waiting_def)
next
  case (m_enq s fd t new q w)
  then have ok: "queue_ok (queue s)" "0 \<le> waiting s" using waiting_nonneg by (auto simp: inv_queue_def)
  from enqueue_Ret(6) [OF ok(1) m_enq(2,3,4)] signal_empty_work [OF m_enq(5)] ok(2) m_enq(1) show ?case
    by (simp add: work_def waiting_def nat_add_distrib)
qed (simp_all add: work_def waiting_def)

lemma worker_step_work:
  assumes "worker_step cfg i s s'" "i < thread_num cfg" "inv_queue cfg s" "wpc s i \<noteq> W_sleep"
  shows "work cfg s' < work cfg s"
proof -
  have u: "(\<Sum>j < thread_num cfg. worker_work ((w(i := x)) j)) + worker_work (w i) =
      (\<Sum>j < thread_num cfg. worker_work (w j)) + worker_work x" for w x
    by (rule worker_work_upd [OF assms(2)])
  from assms show ?thesis
  proof (induction rule: worker_step.induct)
    case (w_take s now p q)
    then have ok: "queue_ok (queue s)" "0 < waiting_queue_size (fst (queue s))"
      by (auto simp: inv_queue_def waiting_def)
    let ?s = "s\<lparr>wpc := (wpc s)(i := W_taken p), queue := q, running_threads := running_threads s + 1\<rparr>"
    have "main_work (mpc (signal_full cfg ?s)) \<le> main_work (mpc s) + 2" using signal_full_work [of cfg ?s] by simp
    then show ?case
      using dequeue_Ret(8) [OF ok w_take(3)] ok(2) w_take(1) u [of "wpc s" "W_taken p"]
      by (simp add: work_def waiting_def nat_diff_distrib del: fun_upd_apply)
  next
    case (w_dec s)
    let ?s = "s\<lparr>wpc := (wpc s)(i := W_unlock2), running_threads := running_threads s - 1\<rparr>"
    have "main_work (mpc (signal_full cfg ?s)) \<le> main_work (mpc s) + 2" using signal_full_work [of cfg ?s] by simp
    then show ?case using w_dec(1) u [of "wpc s" W_unlock2] by (simp add: work_def waiting_def del: fun_upd_apply)
  qed (simp_all add: work_def waiting_def worker_work_less del: fun_upd_apply)
qed

lemma acts_work: "acts cfg s s' \<Longrightarrow> inv_queue cfg s \<Longrightarrow> work cfg s' < work cfg s"
  using main_step_work worker_step_work unfolding acts_def by blast

lemma acts_step: "acts cfg s s' \<Longrightarrow> step cfg s s'"
  unfolding acts_def by (blast intro: step.intros)

subsection \<open>Nothing is stuck before the server is at rest\<close>

text \<open>There is always an address left for a new node.\<close>

lemma step_finite:
  assumes "step cfg s s'" "inv_queue cfg s" "finite (dom (snd (queue s)))"
  shows "finite (dom (snd (queue s')))"
  using assms
proof (induction rule: step.induct)
  case (step_main s s')
  then show ?case
  proof (induction rule: main_step.induct)
    case (m_drop_head s fd t now p q h)
    then have "dom h = dom (snd (queue s))"
      using dequeue_Ret(7) [OF _ _ m_drop_head(5)] by (auto simp: inv_queue_def waiting_def)
    then show ?case using m_drop_head.prems(2) by (simp add: free_node_def del: fun_upd_apply)
  next
    case (m_random s fd t rs fds q)
    then have "\<exists>D. item_at (snd q) = item_at (snd (queue s)) |` (- D)"
      using random_drops_Ret [OF _ _ m_random(6), of "queue s"] by (auto simp: inv_queue_def waiting_def)
    then have "dom (snd q) \<subseteq> dom (snd (queue s))" by (metis dom_item_at dom_restrict inf_le1)
    then show ?case using m_random.prems(2) by (auto intro: finite_subset)
  next
    case (m_enq s fd t new q w)
    then have "dom (snd q) = insert new (dom (snd (queue s)))"
      using enqueue_Ret(5) [OF _ m_enq(2-4)] by (simp add: inv_queue_def)
    then show ?case using m_enq.prems(2) by simp
  qed simp_all
next
  case (step_worker i s s')
  from step_worker(2-4) show ?case
  proof (induction rule: worker_step.induct)
    case (w_take s now p q)
    then have "dom (snd q) = dom (snd (queue s))"
      using dequeue_Ret(7) [OF _ _ w_take(3)] by (auto simp: inv_queue_def waiting_def)
    then show ?case using w_take.prems(2) by simp
  qed (simp_all add: free_node_def del: fun_upd_apply)
qed

lemma reachable_finite: "reachable cfg s \<Longrightarrow> finite (dom (snd (queue s)))"
proof (induction rule: reachable.induct)
  case (reach_start hp ep qp now s)
  then show ?case
    by (auto simp: start_def createQueue_def createNode_def assign_def deref_def obind_Ret_conv simp del: fun_upd_apply split: if_splits)
next
  case (reach_step s s')
  then show ?case using step_finite reachable_invariants by (auto simp: invariants_def)
qed

text \<open>The owner of the mutex.\<close>

lemma main_crit_acts:
  assumes "inv_queue cfg s" "finite (dom (snd (queue s)))" "m_crit (mpc s)"
  shows "\<exists>s'. main_step cfg s s'"
proof (cases "mpc s")
  case (M_check fd t)
  have ok: "queue_ok (queue s)" using assms(1) by (simp add: inv_queue_def)
  show ?thesis
  proof (cases "at_capacity cfg s \<and> waiting s > 0 \<and> sched_alg cfg \<in> {DROP_HEAD, RANDOM}")
    case True
    then have w: "0 < waiting_queue_size (fst (queue s))" by (simp add: waiting_def)
    obtain p ps where "q_nodes (queue s) = p # ps" using w rq.cnt_nds [OF ok] by (cases "q_nodes (queue s)") auto
    then obtain q h where d: "dequeue t (queue s) = Ret (p, (q, h))" using rq.deq_law [OF ok, of p ps t] by force
    let ?rs = "replicate (nat (our_ceil (of_int (waiting s) / 4))) (0 :: int)"
    obtain fds Q where r: "random_drops ?rs (queue s) = Ret (fds, Q)"
      using random_drops_Ret [OF ok w, of ?rs] by (auto simp: waiting_def)
    show ?thesis
    proof (cases "sched_alg cfg = DROP_HEAD")
      case dh: True
      show ?thesis using m_drop_head [OF M_check _ dh _ d] True by blast
    next
      case False
      then have "sched_alg cfg = RANDOM" using True by simp
      from m_random [OF M_check _ this _ _ _ r] True show ?thesis by (auto intro!: exI)
    qed
  next
    case False
    then consider "\<not> at_capacity cfg s" | "at_capacity cfg s" "sched_alg cfg = BLOCK" | "at_capacity cfg s" "sched_alg cfg = DROP_TAIL"
      | "at_capacity cfg s" "sched_alg cfg = DROP_HEAD" "waiting s \<le> 0" | "at_capacity cfg s" "sched_alg cfg = RANDOM" "waiting s \<le> 0"
      | "at_capacity cfg s" "sched_alg cfg \<notin> {BLOCK, DROP_TAIL, DROP_HEAD, RANDOM}" by fastforce
    then show ?thesis
      by cases (use m_room [OF M_check] m_block [OF M_check] m_drop_tail [OF M_check] m_drop_head_none [OF M_check]
        m_random_none [OF M_check] m_other [OF M_check] in blast)+
  qed
next
  case (M_enq fd t)
  have ok: "queue_ok (queue s)" using assms(1) by (simp add: inv_queue_def)
  have "finite (insert NULL (dom (snd (queue s))))" using assms(2) by simp
  then obtain new where new: "new \<noteq> NULL" "new \<notin> dom (snd (queue s))"
    using ex_new_if_finite [OF infinite_UNIV_nat] by (metis insertCI)
  obtain Q where Q: "enqueue new fd t (queue s) = Ret Q"
    using rq.enq_law [OF ok new(1), of fd t] new(2) by (auto simp: dom_item_at)
  obtain w where "signal_empty cfg (wpc s) w" unfolding signal_empty_def by blast
  from m_enq [OF M_enq new Q this] show ?thesis by blast
next
  case M_unlock
  then show ?thesis by (blast intro: m_unlock)
qed (use assms(3) in simp_all)

lemma worker_acts:
  assumes "inv_queue cfg s" "wpc s i \<noteq> W_sleep" "\<not> handling (wpc s i)" "w_crit (wpc s i) \<or> m1 s = None"
  shows "\<exists>s'. worker_step cfg i s s'"
proof (cases "wpc s i")
  case W_check
  show ?thesis
  proof (cases "waiting s \<le> 0")
    case False
    have ok: "queue_ok (queue s)" using assms(1) by (simp add: inv_queue_def)
    obtain p ps where "q_nodes (queue s) = p # ps" using False rq.cnt_nds [OF ok] by (cases "q_nodes (queue s)") (auto simp: waiting_def)
    then obtain Q where "dequeue t0 (queue s) = Ret (p, Q)" using rq.deq_law [OF ok, of p ps t0] by force
    then show ?thesis using w_take [OF W_check] False by (meson not_le)
  qed (use W_check w_wait in blast)
next
  case (W_close p)
  obtain q h where q: "queue s = (q, h)" by (cases "queue s")
  then obtain req where h: "h p = Some req" using inv_queue_held(2) [OF assms(1), of i p] W_close by auto
  show ?thesis using w_close [OF W_close q h] by blast
next
  case (W_free p)
  obtain q h where q: "queue s = (q, h)" by (cases "queue s")
  show ?thesis using w_free [OF W_free q] by blast
qed (use assms(2-4) in \<open>auto intro: worker_step.intros\<close>)

text \<open>When only handlers could go on, no signal has been lost, so no sleeper has anything to do.\<close>

lemma busy_handling: "\<forall>i < n. w i = W_sleep \<or> handling (w i) \<Longrightarrow> {i. i < n \<and> busy (w i)} = {i. i < n \<and> handling (w i)}"
proof -
  have "handling pc \<Longrightarrow> busy pc" for pc by (cases pc) simp_all
  then show "\<forall>i < n. w i = W_sleep \<or> handling (w i) \<Longrightarrow> {i. i < n \<and> busy (w i)} = {i. i < n \<and> handling (w i)}" by fastforce
qed

lemma all_settled:
  assumes "invariants cfg s"
    and "\<forall>i < thread_num cfg. wpc s i = W_sleep \<or> handling (wpc s i)" "mpc s = M_accept \<or> (\<exists>fd t. mpc s = M_sleep fd t)" "m1 s = None"
  shows "settled cfg s"
proof -
  have "\<not> awake pc" if "handling pc" for pc using that by (cases pc) simp_all
  then have none: "card {i. i < thread_num cfg \<and> awake (wpc s i)} = 0" using assms(2) by (fastforce intro: card_eq_0_iff [THEN iffD2])
  have "q_nodes (queue s) = []" if "i < thread_num cfg" "wpc s i = W_sleep" for i
  proof -
    have "waiting s \<le> int (card {i. i < thread_num cfg \<and> awake (wpc s i)})"
      using assms(1) that unfolding invariants_def inv_wake_def by blast
    then have "waiting s \<le> 0" using none by simp
    then show ?thesis using rq.cnt_nds [of "queue s"] assms(1) by (auto simp: invariants_def inv_queue_def waiting_def)
  qed
  moreover have "running_threads s = int (card {i. i < thread_num cfg \<and> handling (wpc s i)})"
    using assms(1) busy_handling [OF assms(2)] by (simp add: invariants_def inv_run_def)
  moreover have "at_capacity cfg s" if "mpc s = M_sleep fd t" for fd t
    using assms(1) that by (simp add: invariants_def inv_wake_def at_capacity_def)
  ultimately show ?thesis using assms(2-4) unfolding settled_def by blast
qed

lemma settled_at_rest:
  assumes "settled cfg s" "queue_ok (queue s)" "0 < thread_num cfg" "0 < buffer_size cfg" "\<forall>i < thread_num cfg. \<not> handling (wpc s i)"
  shows "at_rest cfg s"
proof -
  have w: "\<forall>i < thread_num cfg. wpc s i = W_sleep" and run: "running_threads s = 0"
    using assms(1,5) by (auto simp: settled_def intro: card_eq_0_iff [THEN iffD2])
  then have q: "q_nodes (queue s) = []" using assms(1,3) unfolding settled_def by blast
  then have "load s = 0" using run rq.cnt_nds [OF assms(2)] by (simp add: load_def waiting_def)
  then show ?thesis using assms(1,4) w q run by (auto simp: settled_def at_rest_def at_capacity_def)
qed

lemma progress:
  assumes "reachable cfg s"
  shows "(\<exists>s'. goes cfg s s') \<or> settled cfg s"
proof (cases "m1 s")
  case None
  have i: "invariants cfg s" by (rule reachable_invariants [OF assms(1)])
  then have q: "inv_queue cfg s" "inv_lock s" by (simp_all add: invariants_def)
  show ?thesis
  proof (cases "(\<forall>i < thread_num cfg. wpc s i = W_sleep \<or> handling (wpc s i)) \<and> (mpc s = M_accept \<or> (\<exists>fd t. mpc s = M_sleep fd t))")
    case True
    then show ?thesis using all_settled [OF i] None by blast
  next
    case False
    moreover have "\<exists>s'. main_step cfg s s'" if "mpc s \<noteq> M_accept" "\<forall>fd t. mpc s \<noteq> M_sleep fd t"
      using that None q(2) by (cases "mpc s") (auto simp: inv_lock_def intro: main_step.intros)
    ultimately show ?thesis using worker_acts [OF q(1)] None unfolding goes_def by blast
  qed
next
  case (Some owner)
  have i: "invariants cfg s" by (rule reachable_invariants [OF assms(1)])
  then have q: "inv_queue cfg s" "inv_lock s" by (simp_all add: invariants_def)
  show ?thesis
  proof (cases owner)
    case Main
    then have c: "m_crit (mpc s)" using Some q(2) by (simp add: inv_lock_def)
    then have "mpc s \<noteq> M_accept" "mpc s \<noteq> M_sleep fd t" for fd t by auto
    then show ?thesis using main_crit_acts [OF q(1) reachable_finite [OF assms(1)] c] unfolding goes_def by blast
  next
    case (Worker j)
    then have c: "w_crit (wpc s j)" using Some q(2) by (simp add: inv_lock_def)
    then have "wpc s j \<noteq> W_sleep" "wpc s j \<noteq> W_start" "\<not> handling (wpc s j)" by (cases "wpc s j"; auto)+
    moreover from this have "j < thread_num cfg" using q(1) by (meson inv_queue_def not_le)
    ultimately show ?thesis using worker_acts [OF q(1)] c unfolding goes_def by blast
  qed
qed

lemma run_bounded:
  assumes "(acts cfg ^^ n) s s'" "reachable cfg s"
  shows "reachable cfg s' \<and> n + work cfg s' \<le> work cfg s"
  using assms
proof (induction n arbitrary: s')
  case (Suc n)
  then obtain s1 where s1: "(acts cfg ^^ n) s s1" "acts cfg s1 s'" by auto
  then have r: "reachable cfg s1" "n + work cfg s1 \<le> work cfg s" using Suc.IH Suc.prems(2) by blast+
  have "inv_queue cfg s1" using reachable_invariants [OF r(1)] by (simp add: invariants_def)
  then show ?case using acts_work [OF s1(2)] acts_step [OF s1(2)] r by (auto intro: reach_step)
qed simp

subsection \<open>Abnormal ends\<close>

text \<open>An abnormal end has status 0, except for a lack of memory; so a failed server mostly looks like one that succeeded.\<close>

lemma hbind_Died: "hbind m f = Some (Ret (Died a c)) \<longleftrightarrow>
  m = Some (Ret (Died a c)) \<or> (\<exists>x. m = Some (Ret (Done x)) \<and> f x = Some (Ret (Died a c)))"
  by (auto simp: hbind_def split: option.splits outcome.splits proc.splits)

lemma wrapper_status:
  "Accept rc err = Died a c \<Longrightarrow> c = 0" "Close rc err = Died a c \<Longrightarrow> c = 0" "Munmap rc err = Died a c \<Longrightarrow> c = 0"
  "Open rc err = Died a c \<Longrightarrow> c = 0" "Fork rc err = Died a c \<Longrightarrow> c = 0" "Mmap p err = Died a c \<Longrightarrow> c = 0"
  "send k i buf = Some (Ret (Died a c)) \<Longrightarrow> c = 0" "Rio_readlineb rp buf n es err = Died a c \<Longrightarrow> c = 0"
  by (auto simp: Accept_def Close_def Munmap_def Open_def Fork_def Mmap_def checked_def checked_void_def unix_error_def send_def Rio_writen_def
      Rio_readlineb_def split: if_splits prod.splits option.splits bool.splits line_res.splits)

lemma skip_headers_status:
  assumes "skip_headers rp buf es err = Some r"
  shows "r = Died a c \<Longrightarrow> c = 0"
proof (rule skip_headers.raw_induct [where P = "\<lambda>rp buf es err r. r = Died a c \<longrightarrow> c = 0", OF _ assms, rule_format], goal_cases)
  case (1 f rp buf es err r)
  then show ?case by (auto split: if_splits proc.splits dest: wrapper_status(8))
qed

lemma requestHandle_status:
  assumes "requestHandle k files old es req stats = Some (Ret (Died a c))"
  shows "c = 0"
proof -
  note w = wrapper_status
  have h: "requestReadhdrs rp buf es err = Some (Died a c) \<Longrightarrow> c = 0" for rp buf es err
    by (auto simp: requestReadhdrs_def split: proc.splits dest: w(8) skip_headers_status)
  have f: "fits n s \<noteq> Some (Ret (Died a c))" for n s by (simp add: fits_def)
  have e: "reply_error k req m n sm lm s = Some (Ret (Died a c)) \<Longrightarrow> c = 0" for m n sm lm s
    by (auto simp: reply_error_def requestError_def Let_def hbind_Died f dest: w(7))
  have s: "serve_file k files req st fn args s = Some (Ret (Died a c)) \<Longrightarrow> c = 0" for st fn args s
    by (auto simp: serve_file_def requestServeStatic_def requestServeDynamic_def Let_def hbind_Died f
        split: option.splits if_splits dest: w e)
  have sc: "c = 0" if "(case scan3 buf (s_words old) of (method, uri, version) \<Rightarrow>
      if \<not> strcasecmp_eq method ''GET'' then reply_error k req method n sm lm st
      else hbind (map_option Ret (requestReadhdrs rio hdr es' err)) (\<lambda>(rio, es).
        hbind (Some (obind (requestParseURI uri (s_args old)) (\<lambda>x. Ret (Done x)))) (\<lambda>(is_static, filename, cgiargs, uri).
          serve_file k files req is_static filename cgiargs st))) = Some (Ret (Died a c))" for buf n sm lm st rio hdr es' err
  proof -
    obtain m u v where "scan3 buf (s_words old) = (m, u, v)" by (cases "scan3 buf (s_words old)")
    then show ?thesis using that by (cases "strcasecmp_eq m ''GET''") (auto simp: hbind_Died obind_Ret_conv dest: h e s)
  qed
  have "\<exists>m. Some (Ret m) = Some (Ret (Died a c)) \<and> m = Rio_readlineb (Rio_readinitb \<lparr>rio_cnt = 0, rio_bufptr = 0, rio_buf = []\<rparr>)
      (s_buf old) MAXLINE es (k_err k) \<or> c = 0"
    using assms sc unfolding requestHandle_def Let_def hbind_Died by fast
  then show ?thesis using w(8) by fastforce
qed

lemma ends_status: "ends cfg s c \<Longrightarrow> c = 0 \<or> c = 1"
  by (induction rule: ends.induct) (auto simp: enqueue_def createNode_def dest: wrapper_status requestHandle_status)

subsection \<open>Properties\<close>

text \<open>
  C10. Progress of the server: from any state it can reach, and in any interleaving, the threads make at most \<open>work cfg s\<close> steps
  without a new connection or a spurious wake-up (a handler that returns is one step). And there is no deadlock: as long as the system
  calls outside the handlers succeed, some thread outside \<open>requestHandle\<close> can go on, or only handlers are left: every worker sleeps or is in
  a handler, no request waits while a worker sleeps, and the main thread is in \<open>accept\<close> or the buffer is full.
  If moreover no worker is in a handler, the pool is not empty and the buffer size is positive, all requests are
  answered or dropped and the main thread is in \<open>accept\<close>. A handler that never returns keeps its worker; the others are not affected.
\<close>

theorem server_settles:
  assumes "reachable cfg s" "(acts cfg ^^ n) s s'"
  shows "n \<le> work cfg s \<and> ((\<exists>s''. goes cfg s' s'') \<or> settled cfg s') \<and>
    (settled cfg s' \<and> (\<forall>i < thread_num cfg. \<not> handling (wpc s' i)) \<and> 0 < thread_num cfg \<and> 0 < buffer_size cfg \<longrightarrow> at_rest cfg s')"
proof -
  have r: "reachable cfg s'" "n \<le> work cfg s" using run_bounded [OF assms(2,1)] by auto
  have "queue_ok (queue s')" using reachable_invariants [OF r(1)] by (simp add: invariants_def inv_queue_def)
  then show ?thesis using r(2) progress [OF r(1)] settled_at_rest by blast
qed

theorem server_settles_witness:
  "\<exists>s s'. reachable (sample_cfg BLOCK) s \<and> waiting s = 1 \<and> acts (sample_cfg BLOCK) s s' \<and> 1 \<le> work (sample_cfg BLOCK) s \<and>
     ((\<exists>s''. goes (sample_cfg BLOCK) s' s'') \<or> settled (sample_cfg BLOCK) s')"
proof -
  obtain s where s: "reachable (sample_cfg BLOCK) s" "mpc s = M_check 5 t0" "waiting s = 1" "running_threads s = 0"
    using sample_run [of "sample_cfg BLOCK"] by (metis sample_cfg_sel(2))
  then have "at_capacity (sample_cfg BLOCK) s" by (simp add: at_capacity_def load_def)
  then have a: "acts (sample_cfg BLOCK) s (s\<lparr>mpc := M_sleep 5 t0, m1 := None\<rparr>)"
    using m_block [OF s(2)] s(2) by (simp add: acts_def)
  then have "(acts (sample_cfg BLOCK) ^^ 1) s (s\<lparr>mpc := M_sleep 5 t0, m1 := None\<rparr>)" by (simp add: eq_OO)
  from server_settles [OF s(1) this] a s show ?thesis by blast
qed

end
