(* ===== verification/Weights.thy ===== *)
theory Weights
  imports Prelude "HOL-Library.Word" "HOL-Library.Monad_Syntax"
begin

text \<open>
  The weight system calls (\<open>HW2Wet/kernel/hw2.c\<close>, with the field that \<open>HW2Wet/include/linux/sched.h\<close>
  adds to \<open>task_struct\<close>). The tasks live in an explicit heap; a task keeps the fields the calls read:
  its weight (a C \<open>int\<close>, a 32-bit word read as signed), its process id, the pointer to its parent and
  the list of its children, in the order of the kernel's list. The kernel is compiled with wrapping
  signed arithmetic, as the additions of words are. Following a pointer that is not a task is
  \<open>None\<close>, and so is a walk that never ends; the theorems show when a result exists.
\<close>

subsection \<open>Data\<close>

record task_struct =
  weight :: "32 word"
  task_pid :: int
  parent :: addr
  children :: "addr list"

type_synonym tasks = "addr \<rightharpoonup> task_struct"

definition EINVAL :: int where "EINVAL = 22"
definition ECHILD :: int where "ECHILD = 10"

subsection \<open>System calls\<close>

text \<open>\<open>current\<close> is the task that makes the call.\<close>

definition sys_hello :: "string \<Rightarrow> int \<times> string" where
  "sys_hello klog = (0, klog @ ''Hello, World!'' @ [CHR 0x0A])"

definition sys_set_weight :: "tasks \<Rightarrow> addr \<Rightarrow> 32 word \<Rightarrow> (int \<times> tasks) option" where
  "sys_set_weight h current w =
     (if sint w < 0 then Some (- EINVAL, h)
      else do { t \<leftarrow> h current; Some (0, h(current \<mapsto> t\<lparr>weight := w\<rparr>)) })"

definition sys_get_weight :: "tasks \<Rightarrow> addr \<Rightarrow> int option" where
  "sys_get_weight h current = do { t \<leftarrow> h current; Some (sint (weight t)) }"

text \<open>The loop of \<open>calculate_sum_of_children\<close> over the children that are left, with the recursive call on each.\<close>

partial_function (option) sum_children :: "tasks \<Rightarrow> 32 word \<Rightarrow> addr list \<Rightarrow> 32 word option" where
  "sum_children h acc list =
     (case list of
        [] \<Rightarrow> Some acc
      | c # list' \<Rightarrow> do {
          t \<leftarrow> h c;
          s \<leftarrow> sum_children h (weight t) (children t);
          sum_children h (acc + s) list' })"

declare sum_children.simps [code]

definition calculate_sum_of_children :: "tasks \<Rightarrow> addr \<Rightarrow> 32 word option" where
  "calculate_sum_of_children h current_task =
     do { t \<leftarrow> h current_task; sum_children h (weight t) (children t) }"

definition sys_get_children_sum :: "tasks \<Rightarrow> addr \<Rightarrow> int option" where
  "sys_get_children_sum h current =
     do {
       t \<leftarrow> h current;
       if children t \<noteq> [] then do {
         s \<leftarrow> calculate_sum_of_children h current;
         Some (sint (s - weight t)) }
       else Some (- ECHILD) }"

text \<open>\<open>max_pid\<close> starts with whatever the stack holds: the code does not initialise it.\<close>

partial_function (option) heaviest_loop :: "tasks \<Rightarrow> addr \<Rightarrow> 32 word \<Rightarrow> int \<Rightarrow> int option" where
  "heaviest_loop h task mx max_pid =
     do {
       t \<leftarrow> h task;
       let heavier = sint mx < sint (weight t);
       let mx = (if heavier then weight t else mx);
       let max_pid = (if heavier then task_pid t else max_pid);
       if task_pid t \<noteq> 1 then heaviest_loop h (parent t) mx max_pid else Some max_pid }"

declare heaviest_loop.simps [code]

definition sys_get_heaviest_ancestor :: "int \<Rightarrow> tasks \<Rightarrow> addr \<Rightarrow> int option" where
  "sys_get_heaviest_ancestor uninit h current =
     do { t \<leftarrow> h current; heaviest_loop h current (weight t) uninit }"

text \<open>The first task (\<open>INIT_TASK\<close> in \<open>init_task.h\<close>), and the entries of \<open>syscall_64.tbl\<close>: the number of a call and its function.\<close>

definition init_task :: "addr \<Rightarrow> task_struct" where
  "init_task tsk = \<lparr>weight = 0, task_pid = 0, parent = tsk, children = []\<rparr>"

definition dispatch :: "int \<Rightarrow> 32 word \<Rightarrow> int \<Rightarrow> addr \<Rightarrow> string \<times> tasks \<Rightarrow> (int \<times> string \<times> tasks) option" where
  "dispatch nr arg uninit current = (\<lambda>(klog, h).
     if nr = 333 then (let (r, klog) = sys_hello klog in Some (r, klog, h))
     else if nr = 334 then do { (r, h) \<leftarrow> sys_set_weight h current arg; Some (r, klog, h) }
     else if nr = 335 then do { r \<leftarrow> sys_get_weight h current; Some (r, klog, h) }
     else if nr = 336 then do { r \<leftarrow> sys_get_children_sum h current; Some (r, klog, h) }
     else if nr = 337 then do { r \<leftarrow> sys_get_heaviest_ancestor uninit h current; Some (r, klog, h) }
     else None)"

subsection \<open>Trees of tasks\<close>

text \<open>A task, its subtree and the descendants of it, by rule induction over the pointers.\<close>

datatype tree = Node (root: addr) (subs: "tree list")

fun nodes :: "tree \<Rightarrow> addr list" where
  "nodes (Node p ts) = p # concat (map nodes ts)"

fun is_tree :: "tasks \<Rightarrow> tree \<Rightarrow> bool" where
  "is_tree h (Node p ts) \<longleftrightarrow>
     (case h p of None \<Rightarrow> False | Some t \<Rightarrow> children t = map root ts \<and> (\<forall>u \<in> set ts. is_tree h u))"

definition weight_of :: "tasks \<Rightarrow> addr \<Rightarrow> 32 word" where
  "weight_of h p = (case h p of None \<Rightarrow> 0 | Some t \<Rightarrow> weight t)"

definition descendants :: "tree \<Rightarrow> addr list" where
  "descendants T = tl (nodes T)"

lemma nodes_root: "nodes T = root T # descendants T"
  by (cases T) (simp add: descendants_def)

lemma is_tree_root:
  assumes "is_tree h T"
  obtains t where "h (root T) = Some t" "children t = map root (subs T)" "\<forall>u \<in> set (subs T). is_tree h u"
  using assms by (cases T) (auto split: option.splits)

lemma sum_children_trees:
  assumes "\<forall>T \<in> set Ts. is_tree h T"
  shows "sum_children h s (map root Ts) = Some (s + sum_list (map (weight_of h) (concat (map nodes Ts))))"
  using assms
proof (induction "concat (map nodes Ts)" arbitrary: Ts s rule: length_induct)
  case 1
  show ?case
  proof (cases Ts)
    case Nil
    then show ?thesis by (simp add: sum_children.simps)
  next
    case (Cons T Us)
    then have T: "is_tree h T" and Us: "\<forall>T \<in> set Us. is_tree h T" using 1(2) by auto
    obtain t where t: "h (root T) = Some t" "children t = map root (subs T)" "\<forall>u \<in> set (subs T). is_tree h u"
      using is_tree_root [OF T] by blast
    have d: "concat (map nodes (subs T)) = descendants T" by (cases T) (simp add: descendants_def)
    have "length (concat (map nodes (subs T))) < length (concat (map nodes Ts))"
      "length (concat (map nodes Us)) < length (concat (map nodes Ts))"
      unfolding Cons using nodes_root [of T] d by simp_all
    then have ih: "sum_children h s' (map root (subs T)) = Some (s' + sum_list (map (weight_of h) (descendants T)))"
      "sum_children h s' (map root Us) = Some (s' + sum_list (map (weight_of h) (concat (map nodes Us))))" for s'
      using 1(1) t(3) Us unfolding d [symmetric] by blast+
    show ?thesis
      unfolding Cons
      by (subst sum_children.simps)
        (simp add: t(1,2) ih d nodes_root [of T] weight_of_def add.assoc)
  qed
qed


lemma sum_is_tree:
  assumes "is_tree h T"
  shows "calculate_sum_of_children h (root T) = Some (sum_list (map (weight_of h) (nodes T)))"
proof -
  obtain t where t: "h (root T) = Some t" "children t = map root (subs T)" "\<forall>u \<in> set (subs T). is_tree h u"
    using is_tree_root [OF assms] by blast
  have "nodes T = root T # concat (map nodes (subs T))" by (cases T) simp
  then show ?thesis
    by (simp add: calculate_sum_of_children_def t(1,2) sum_children_trees [OF t(3)] weight_of_def)
qed

lemma sint_sum_list: "sint (sum_list ws) = to_int32 (\<Sum>w\<leftarrow>ws. sint w)" for ws :: "32 word list"
proof -
  have "sum_list ws = of_int (\<Sum>w\<leftarrow>ws. sint w)" by (induction ws) simp_all
  then have "sint (sum_list ws) = signed_take_bit 31 (\<Sum>w\<leftarrow>ws. sint w)"
    by (simp add: sint_sbintrunc')
  then show ?thesis by (simp add: to_int32_def signed_take_bit_eq_take_bit_shift take_bit_eq_mod)
qed

subsection \<open>The way to the init task\<close>

text \<open>The tasks from \<open>p\<close> up to the task with process id 1, both included.\<close>

inductive ancestry :: "tasks \<Rightarrow> addr \<Rightarrow> task_struct list \<Rightarrow> bool" for h where
  init: "h p = Some t \<Longrightarrow> task_pid t = 1 \<Longrightarrow> ancestry h p [t]"
| up: "h p = Some t \<Longrightarrow> task_pid t \<noteq> 1 \<Longrightarrow> ancestry h (parent t) ts \<Longrightarrow> ancestry h p (t # ts)"

text \<open>The pid of the first task that carries the greatest weight, if that exceeds \<open>mx\<close>.\<close>

fun first_heaviest :: "32 word \<Rightarrow> int \<Rightarrow> task_struct list \<Rightarrow> int" where
  "first_heaviest mx d [] = d"
| "first_heaviest mx d (t # ts) =
     (if sint mx < sint (weight t) then first_heaviest (weight t) (task_pid t) ts
      else first_heaviest mx d ts)"

lemma heaviest_loop_ancestry:
  "ancestry h p ts \<Longrightarrow> heaviest_loop h p mx d = Some (first_heaviest mx d ts)"
proof (induction arbitrary: mx d rule: ancestry.induct)
  case (init p t)
  then show ?case by (subst heaviest_loop.simps) (simp add: Let_def)
next
  case (up p t ts)
  then show ?case by (subst heaviest_loop.simps) (simp add: Let_def)
qed

lemma first_heaviest_none: "\<forall>t \<in> set ts. sint (weight t) \<le> sint mx \<Longrightarrow> first_heaviest mx d ts = d"
  by (induction ts) auto

lemma first_heaviest_some:
  assumes "\<exists>t \<in> set ts. sint mx < sint (weight t)"
  shows "\<exists>us t vs. ts = us @ t # vs \<and> first_heaviest mx d ts = task_pid t \<and> sint mx < sint (weight t) \<and>
     (\<forall>u \<in> set us. sint (weight u) < sint (weight t)) \<and> (\<forall>v \<in> set vs. sint (weight v) \<le> sint (weight t))"
  using assms
proof (induction ts arbitrary: mx d)
  case Nil
  then show ?case by simp
next
  case (Cons a ts)
  let ?mx = "if sint mx < sint (weight a) then weight a else mx"
  let ?d = "if sint mx < sint (weight a) then task_pid a else d"
  have e: "first_heaviest mx d (a # ts) = first_heaviest ?mx ?d ts" by simp
  show ?case
  proof (cases "\<exists>t \<in> set ts. sint ?mx < sint (weight t)")
    case True
    from Cons.IH [OF this, of ?d] obtain us t vs where
      r: "ts = us @ t # vs" "first_heaviest ?mx ?d ts = task_pid t" "sint ?mx < sint (weight t)"
      "\<forall>u \<in> set us. sint (weight u) < sint (weight t)" "\<forall>v \<in> set vs. sint (weight v) \<le> sint (weight t)"
      by blast
    have "sint mx < sint (weight t)" "sint (weight a) < sint (weight t)" using r(3) by (auto split: if_splits)
    with r e show ?thesis by (intro exI [of _ "a # us"] exI [of _ t] exI [of _ vs]) simp
  next
    case False
    then have "sint mx < sint (weight a)" using Cons.prems by (auto split: if_splits)
    with False first_heaviest_none [of ts "weight a" "task_pid a"] show ?thesis
      by (intro exI [of _ "[]"] exI [of _ a] exI [of _ ts]) (auto simp: not_less)
  qed
qed


subsection \<open>Properties\<close>

definition family :: tasks where
  "family = [1 \<mapsto> \<lparr>weight = 5, task_pid = 1, parent = 1, children = [2]\<rparr>,
             2 \<mapsto> \<lparr>weight = 9, task_pid = 20, parent = 1, children = [3, 4]\<rparr>,
             3 \<mapsto> \<lparr>weight = 3, task_pid = 30, parent = 2, children = []\<rparr>,
             4 \<mapsto> \<lparr>weight = 4, task_pid = 40, parent = 2, children = []\<rparr>]"

text \<open>
  C30. Sum of the children: for a task at the root of any tree of tasks, the walk ends and the
  call returns the sum of the weights of all its descendants, wrapped to 32 bits; without
  children it returns \<open>-ECHILD\<close>.
\<close>

theorem children_sum:
  assumes "is_tree h T"
  shows "sys_get_children_sum h (root T) =
    Some (if subs T = [] then - ECHILD else to_int32 (\<Sum>q\<leftarrow>descendants T. sint (weight_of h q)))"
proof -
  obtain t where t: "h (root T) = Some t" "children t = map root (subs T)"
    using is_tree_root [OF assms] by blast
  have "calculate_sum_of_children h (root T) =
      Some (weight t + sum_list (map (weight_of h) (descendants T)))"
    using sum_is_tree [OF assms] nodes_root [of T] t(1) by (simp add: weight_of_def)
  then show ?thesis
    by (simp add: sys_get_children_sum_def t sint_sum_list comp_def)
qed

theorem children_sum_witness:
  "sys_get_children_sum family 1 = Some 16"
  using children_sum [of family "Node 1 [Node 2 [Node 3 [], Node 4 []]]"]
  by (simp add: family_def descendants_def weight_of_def to_int32_def)

text \<open>
  The sum can wrap onto an error code: there is a task with two children, all weights legal,
  for which the call answers \<open>-ECHILD\<close>, as if there were none.
\<close>

theorem children_sum_wraps:
  "\<exists>h. ran h \<subseteq> {t. 0 \<le> sint (weight t)} \<and>
     (\<exists>t. h 1 = Some t \<and> length (children t) = 2) \<and> sys_get_children_sum h 1 = Some (- ECHILD)"
proof -
  let ?h = "[1 \<mapsto> \<lparr>weight = 0, task_pid = 1, parent = 1, children = [2, 3]\<rparr>,
             2 \<mapsto> \<lparr>weight = 2147483647, task_pid = 2, parent = 1, children = []\<rparr>,
             3 \<mapsto> \<lparr>weight = 2147483639, task_pid = 3, parent = 1, children = []\<rparr>] :: tasks"
  have "calculate_sum_of_children ?h 1 = Some (0 + sum_list [2147483647, 2147483639])"
    using sum_is_tree [of ?h "Node 1 [Node 2 [], Node 3 []]"] by (simp add: weight_of_def)
  then have "sys_get_children_sum ?h 1 = Some (- ECHILD)"
    by (simp add: sys_get_children_sum_def ECHILD_def)
  then show ?thesis by (intro exI [of _ ?h]) (auto simp: ran_def split: if_splits)
qed

text \<open>
  C31. Heaviest ancestor: if some task on the way up to the init task is heavier than the caller, the
  call returns the process id of the nearest among the heaviest of them.
\<close>

theorem heaviest_ancestor:
  assumes "ancestry h p (t # ts)" "\<exists>u \<in> set ts. sint (weight t) < sint (weight u)"
  shows "\<exists>us v vs. ts = us @ v # vs \<and> sys_get_heaviest_ancestor uninit h p = Some (task_pid v) \<and>
    sint (weight t) < sint (weight v) \<and> (\<forall>u \<in> set us. sint (weight u) < sint (weight v)) \<and>
    (\<forall>u \<in> set vs. sint (weight u) \<le> sint (weight v))"
proof -
  have "h p = Some t" using assms(1) by (cases rule: ancestry.cases) auto
  then have "sys_get_heaviest_ancestor uninit h p = Some (first_heaviest (weight t) uninit ts)"
    using heaviest_loop_ancestry [OF assms(1)] by (simp add: sys_get_heaviest_ancestor_def)
  with first_heaviest_some [OF assms(2), of uninit] show ?thesis by metis
qed

lemma family_ancestry:
  "ancestry family 3 [the (family 3), the (family 2), the (family 1)]"
  by (rule ancestry.intros; simp add: family_def)+

theorem heaviest_ancestor_witness:
  "sys_get_heaviest_ancestor 77 family 3 = Some 20"
proof -
  obtain us v vs where "[the (family 2), the (family 1)] = us @ v # vs"
      "sys_get_heaviest_ancestor 77 family 3 = Some (task_pid v)"
      "\<forall>u \<in> set us. sint (weight u) < sint (weight v)"
    using heaviest_ancestor [OF family_ancestry, of 77] by (auto simp: family_def)
  then show ?thesis by (cases us) (auto simp: family_def Cons_eq_append_conv)
qed

text \<open>
  No ancestor heavier than the caller: \<open>max_pid\<close> is never assigned, and the call returns whatever
  the stack held.
\<close>

theorem heaviest_ancestor_uninit:
  assumes "ancestry h p (t # ts)" "\<forall>u \<in> set ts. sint (weight u) \<le> sint (weight t)"
  shows "sys_get_heaviest_ancestor uninit h p = Some uninit"
proof -
  have "h p = Some t" using assms(1) by (cases rule: ancestry.cases) auto
  then show ?thesis
    using heaviest_loop_ancestry [OF assms(1)] first_heaviest_none [OF assms(2)]
    by (simp add: sys_get_heaviest_ancestor_def)
qed

theorem heaviest_ancestor_uninit_witness:
  "sys_get_heaviest_ancestor 77 family 2 = Some 77"
proof -
  have "ancestry family 2 [the (family 2), the (family 1)]"
    by (rule ancestry.intros; simp add: family_def)+
  from heaviest_ancestor_uninit [OF this] show ?thesis by (simp add: family_def)
qed

text \<open>
  Setting a weight: a negative weight is refused with \<open>-EINVAL\<close> and changes nothing; any other weight
  is what \<open>get_weight\<close> then returns, no other task changes, and no weight becomes negative.
\<close>

theorem set_weight_get:
  assumes "h p = Some t" "\<forall>q u. h q = Some u \<longrightarrow> 0 \<le> sint (weight u)"
  shows "\<exists>r h'. sys_set_weight h p w = Some (r, h') \<and> (\<forall>q u. h' q = Some u \<longrightarrow> 0 \<le> sint (weight u)) \<and>
    (if sint w < 0 then r = - EINVAL \<and> h' = h
     else r = 0 \<and> sys_get_weight h' p = Some (sint w) \<and> (\<forall>q. q \<noteq> p \<longrightarrow> h' q = h q))"
  using assms by (auto simp: sys_set_weight_def sys_get_weight_def)

theorem set_weight_get_witness:
  "\<exists>h'. sys_set_weight family 3 7 = Some (0, h') \<and> sys_get_weight h' 3 = Some 7"
proof -
  have "\<forall>q u. family q = Some u \<longrightarrow> 0 \<le> sint (weight u)" by (auto simp: family_def split: if_splits)
  moreover have "family 3 = Some \<lparr>weight = 3, task_pid = 30, parent = 2, children = []\<rparr>" by (simp add: family_def)
  ultimately show ?thesis using set_weight_get [of family 3 _ 7] by auto
qed

subsection \<open>The calls in a running kernel\<close>

text \<open>
  A running kernel: tasks make these calls, and other parts of the kernel change the tasks. \<open>other h h'\<close> is a
  change by such a part, as \<open>fork\<close> or the end of a task.
\<close>

inductive kernel_step :: "(tasks \<Rightarrow> tasks \<Rightarrow> bool) \<Rightarrow> string \<times> tasks \<Rightarrow> string \<times> tasks \<Rightarrow> bool" for other where
  call: "dispatch nr arg uninit current k = Some (r, k') \<Longrightarrow> kernel_step other k k'"
| rest: "other h h' \<Longrightarrow> kernel_step other (klog, h) (klog, h')"

definition weights_ok :: "tasks \<Rightarrow> bool" where
  "weights_ok h \<longleftrightarrow> (\<forall>q u. h q = Some u \<longrightarrow> 0 \<le> sint (weight u))"

lemma dispatch_weights: "dispatch nr arg uninit current (klog, h) = Some (r, klog', h') \<Longrightarrow> weights_ok h \<Longrightarrow> weights_ok h'"
  by (auto simp: dispatch_def sys_hello_def sys_set_weight_def weights_ok_def bind_eq_Some_conv split: if_splits)

lemma kernel_weights:
  assumes "(kernel_step other)\<^sup>*\<^sup>* k k'" "weights_ok (snd k)"
    and "\<And>h h' q u. other h h' \<Longrightarrow> h' q = Some u \<Longrightarrow> \<exists>p t. h p = Some t \<and> weight u = weight t"
  shows "weights_ok (snd k')"
  using assms(1,2)
proof (induction rule: rtranclp_induct)
  case (step k1 k2)
  from step.hyps(2) show ?case
  proof cases
    case (call nr arg uninit current r)
    then show ?thesis using dispatch_weights [of nr arg uninit current "fst k1" "snd k1" r "fst k2" "snd k2"] step by simp
  next
    case (rest h h' klog)
    then show ?thesis using assms(3) step by (fastforce simp: weights_ok_def)
  qed
qed

text \<open>
  C32. No weight is ever negative: starting from the first task alone, whatever calls the tasks make and whatever the rest of the kernel does to
  the set of tasks, as long as a new or changed task carries the weight of an old one (\<open>fork\<close> copies the task), every task has a weight of at
  least 0 and the call 335 returns it.
\<close>

theorem weights_nonneg:
  assumes "(kernel_step other)\<^sup>*\<^sup>* ([], [p \<mapsto> init_task p]) (klog, h)"
    and copies: "\<And>h h' q u. other h h' \<Longrightarrow> h' q = Some u \<Longrightarrow> \<exists>p t. h p = Some t \<and> weight u = weight t"
    and "h q = Some t"
  shows "0 \<le> sint (weight t) \<and> dispatch 335 arg uninit q (klog, h) = Some (sint (weight t), klog, h)"
proof -
  have "weights_ok [p \<mapsto> init_task p]" by (simp add: weights_ok_def init_task_def)
  then have "weights_ok h" using kernel_weights [OF assms(1) _ copies] by simp
  then show ?thesis using assms(3) by (auto simp: weights_ok_def dispatch_def sys_get_weight_def)
qed

text \<open>A \<open>fork\<close> for the witness: a new task with a copy of its parent's fields.\<close>

definition forked :: "tasks \<Rightarrow> tasks \<Rightarrow> bool" where
  "forked h h' \<longleftrightarrow> (\<exists>p t q. h p = Some t \<and> h q = None \<and>
     h' = h(q \<mapsto> t\<lparr>parent := p, children := []\<rparr>, p \<mapsto> t\<lparr>children := children t @ [q]\<rparr>))"

theorem weights_nonneg_witness:
  "\<exists>h t. (kernel_step forked)\<^sup>*\<^sup>* ([], [1 \<mapsto> init_task 1]) ([], h) \<and> h 2 = Some t \<and> 0 \<le> sint (weight t)"
proof -
  let ?h0 = "[1 \<mapsto> init_task 1] :: tasks" let ?h1 = "[1 \<mapsto> (init_task 1)\<lparr>weight := 5\<rparr>] :: tasks"
  let ?t = "(init_task 1)\<lparr>weight := 5\<rparr>"
  let ?h2 = "?h1(2 \<mapsto> ?t\<lparr>parent := 1, children := []\<rparr>, 1 \<mapsto> ?t\<lparr>children := children ?t @ [2]\<rparr>)"
  have a: "dispatch 334 5 0 1 ([], ?h0) = Some (0, [], ?h1)" by (simp add: dispatch_def sys_set_weight_def)
  have "?h1 1 = Some ?t" "?h1 2 = None" by simp_all
  then have "forked ?h1 ?h2" unfolding forked_def by blast
  then have "(kernel_step forked)\<^sup>*\<^sup>* ([], ?h0) ([], ?h2)"
    using kernel_step.call [OF a, of forked] kernel_step.rest [of forked ?h1 ?h2 "[]"] by (meson converse_rtranclp_into_rtranclp r_into_rtranclp)
  moreover have "\<exists>p t. h p = Some t \<and> weight u = weight t" if "forked h h'" "h' q = Some u" for h h' q u
    using that unfolding forked_def by (fastforce split: if_splits)
  moreover have "?h2 2 = Some (?t\<lparr>parent := 1, children := []\<rparr>)" by simp
  ultimately show ?thesis using weights_nonneg [of forked 1 "[]" ?h2 2] by blast
qed

end
