(* ===== verification/Malloc_1.thy ===== *)
theory Malloc_1
  imports Prelude "HOL-Library.Word" "HOL-Library.Monad_Syntax"
begin

text \<open>
  The first allocator (\<open>HW4Wet/malloc_1.cpp\<close>) and what all four allocators use of the system: the
  program break and the bytes of memory.

  \<open>sbrk\<close> moves the break by its argument and returns the old one. Whether the kernel grants a move is
  the parameter \<open>grant\<close>, a function of the current break and the increment; a granted break stays
  inside the 64-bit address space. Memory contents are a function from addresses to bytes, and
  \<open>memmove\<close> and \<open>memset\<close> are the library's.
\<close>

type_synonym grant = "addr \<Rightarrow> int \<Rightarrow> bool"
type_synonym bytes = "addr \<Rightarrow> 8 word"

definition sbrk :: "grant \<Rightarrow> int \<Rightarrow> addr \<Rightarrow> addr option \<times> addr" where
  "sbrk grant n brk =
     (if grant brk n \<and> 0 \<le> int brk + n \<and> int brk + n < int SIZE_MOD
      then (Some brk, nat (int brk + n)) else (None, brk))"

definition memmove :: "addr \<Rightarrow> addr \<Rightarrow> sz \<Rightarrow> bytes \<Rightarrow> bytes" where
  "memmove dst src n b = (\<lambda>a. if dst \<le> a \<and> a < dst + n then b (src + (a - dst)) else b a)"

definition memset0 :: "addr \<Rightarrow> sz \<Rightarrow> bytes \<Rightarrow> bytes" where
  "memset0 dst n b = (\<lambda>a. if dst \<le> a \<and> a < dst + n then 0 else b a)"

definition MAX_SIZE :: sz where
  "MAX_SIZE = 100000000"

definition smalloc1 :: "grant \<Rightarrow> sz \<Rightarrow> addr \<Rightarrow> addr \<times> addr" where
  "smalloc1 grant sz brk =
     (if sz = 0 \<or> sz > MAX_SIZE then (NULL, brk)
      else case sbrk grant (int sz) brk of
        (None, brk) \<Rightarrow> (NULL, brk)
      | (Some old_prog_brk, brk) \<Rightarrow> (old_prog_brk, brk))"

lemma sbrk_cases:
  obtains "sbrk grant n brk = (None, brk)"
    | "sbrk grant n brk = (Some brk, nat (int brk + n))" "0 \<le> int brk + n" "nat (int brk + n) < SIZE_MOD"
  by (cases "grant brk n \<and> 0 \<le> int brk + n \<and> int brk + n < int SIZE_MOD") (auto simp: sbrk_def)

lemma memmove_copies: "i < n \<Longrightarrow> memmove dst src n b (dst + i) = b (src + i)"
  by (simp add: memmove_def)

lemma memmove_frame: "a < dst \<or> dst + n \<le> a \<Longrightarrow> memmove dst src n b a = b a"
  by (auto simp: memmove_def)

subsection \<open>Properties\<close>

text \<open>
  The first allocator: a request of 1 to \<open>10^8\<close> bytes gets either \<open>NULL\<close>, and the break stays, or
  the region between the old and the new break, of exactly that size; any other request gets \<open>NULL\<close>.
  So the regions of successive calls never overlap.
\<close>

theorem smalloc1_fresh:
  assumes "0 < brk" "smalloc1 grant sz brk = (p, brk')"
  shows "if p = NULL then brk' = brk
    else 0 < sz \<and> sz \<le> MAX_SIZE \<and> p = brk \<and> brk' = p + sz \<and> brk' < SIZE_MOD"
  using assms
  by (cases rule: sbrk_cases [of grant "int sz" brk])
    (auto simp: smalloc1_def nat_add_distrib split: if_splits)

theorem smalloc1_fresh_witness:
  "smalloc1 (\<lambda>_ _. True) 40 4096 = (4096, 4136) \<and> (4096 :: addr) \<noteq> NULL \<and> (4136 :: addr) = 4096 + 40"
proof -
  have e: "smalloc1 (\<lambda>_ _. True) 40 4096 = (4096, 4136)"
    by (simp add: smalloc1_def sbrk_def MAX_SIZE_def SIZE_MOD_def)
  from smalloc1_fresh [OF _ e] show ?thesis using e by simp
qed

end
