(* ===== verification/Blocks.thy ===== *)
theory Blocks
  imports Malloc_1
begin

text \<open>
  What the allocators with headers (\<open>malloc_2.cpp\<close> to \<open>malloc_4.cpp\<close>) share: the abstract view of the heap,
  a map from the address of each header to the size and the free flag of its block, and the layout
  invariant. \<open>B\<close> is the set of blocks whose bytes exist; a header whose second \<open>sbrk\<close> failed has
  an entry in the map but no bytes, and is not in \<open>B\<close>.
\<close>

type_synonym core = "addr \<rightharpoonup> sz \<times> bool"

definition csize :: "core \<Rightarrow> addr \<Rightarrow> sz" where
  "csize c b = (case c b of None \<Rightarrow> 0 | Some (n, f) \<Rightarrow> n)"

definition cfree :: "core \<Rightarrow> addr \<Rightarrow> bool" where
  "cfree c b \<longleftrightarrow> (case c b of None \<Rightarrow> False | Some (n, f) \<Rightarrow> f)"

lemma csize_upd [simp]: "csize (c(b \<mapsto> (n, f))) = (csize c)(b := n)"
  by (auto simp: csize_def fun_eq_iff)

lemma cfree_upd [simp]: "cfree (c(b \<mapsto> (n, f))) = (cfree c)(b := f)"
  by (auto simp: cfree_def fun_eq_iff)

lemma cfree_dom: "cfree c b \<Longrightarrow> b \<in> dom c"
  by (auto simp: cfree_def split: option.splits)

definition layout :: "sz \<Rightarrow> core \<Rightarrow> addr \<Rightarrow> addr set \<Rightarrow> bool" where
  "layout meta c brk B \<longleftrightarrow>
     finite (dom c) \<and> B \<subseteq> dom c \<and> NULL \<notin> dom c \<and> 0 < meta \<and> 0 < brk \<and> brk < SIZE_MOD \<and>
     (\<forall>b \<in> dom c. b + meta \<le> brk) \<and>
     (\<forall>a \<in> B. a + meta + csize c a \<le> brk) \<and>
     (\<forall>a \<in> B. \<forall>b \<in> dom c. a < b \<longrightarrow> a + meta + csize c a \<le> b) \<and>
     {b. cfree c b} \<subseteq> B"

lemma layoutD:
  assumes "layout meta c brk B"
  shows "finite (dom c)" "B \<subseteq> dom c" "NULL \<notin> dom c" "0 < meta" "0 < brk" "brk < SIZE_MOD"
    "\<And>b. b \<in> dom c \<Longrightarrow> b + meta \<le> brk" "\<And>a. a \<in> B \<Longrightarrow> a + meta + csize c a \<le> brk"
    "\<And>a b. a \<in> B \<Longrightarrow> b \<in> dom c \<Longrightarrow> a < b \<Longrightarrow> a + meta + csize c a \<le> b" "{b. cfree c b} \<subseteq> B"
    "finite B"
  using assms finite_subset [of B "dom c"] unfolding layout_def by blast+

lemma layout_brk_fresh: "layout meta c brk B \<Longrightarrow> brk \<notin> dom c"
  using layoutD(4,7) by fastforce

text \<open>A header and a block of \<open>n\<close> bytes, or a header alone, at the break.\<close>

lemma layout_block:
  assumes "layout meta c brk B" "brk + meta + n < SIZE_MOD"
  shows "layout meta (c(brk \<mapsto> (n, False))) (brk + meta + n) (insert brk B)"
proof -
  note l = layoutD [OF assms(1)] and f = layout_brk_fresh [OF assms(1)]
  have lt: "b < brk" if "b \<in> dom c" for b using l(7) [OF that] l(4) by simp
  show ?thesis
    unfolding layout_def csize_upd cfree_upd
  proof (intro conjI ballI impI)
    fix b assume "b \<in> dom (c(brk \<mapsto> (n, False)))"
    then show "b + meta \<le> brk + meta + n" using lt [of b] by (cases "b = brk") auto
  next
    fix a assume "a \<in> insert brk B"
    then show "a + meta + ((csize c)(brk := n)) a \<le> brk + meta + n" using l(8) [of a] by auto
  next
    fix a b assume ab: "a \<in> insert brk B" "b \<in> dom (c(brk \<mapsto> (n, False)))" "a < b"
    then have "b = brk \<or> b \<in> dom c" by (auto split: if_splits)
    then have "a \<noteq> brk" using lt [of b] ab(3) by (metis less_asym less_irrefl)
    with ab(1) have "a \<in> B" "a \<noteq> brk" by auto
    then show "a + meta + ((csize c)(brk := n)) a \<le> b"
      using ab l(8) [of a] l(9) [of a b] by auto
  qed (use l(1-6,10) assms(2) in \<open>auto split: if_splits\<close>)
qed

lemma layout_header:
  assumes "layout meta c brk B" "brk + meta < SIZE_MOD"
  shows "layout meta (c(brk \<mapsto> (n, False))) (brk + meta) B"
proof -
  note l = layoutD [OF assms(1)] and f = layout_brk_fresh [OF assms(1)]
  have lt: "b < brk" if "b \<in> dom c" for b using l(7) [OF that] l(4) by simp
  show ?thesis
    unfolding layout_def csize_upd cfree_upd
  proof (intro conjI ballI impI)
    fix b assume "b \<in> dom (c(brk \<mapsto> (n, False)))"
    then show "b + meta \<le> brk + meta" using lt [of b] by (cases "b = brk") auto
  next
    fix a assume a: "a \<in> B"
    then have "a \<noteq> brk" using f l(2) by auto
    then show "a + meta + ((csize c)(brk := n)) a \<le> brk + meta" using l(8) [OF a] by auto
  next
    fix a b assume ab: "a \<in> B" "b \<in> dom (c(brk \<mapsto> (n, False)))" "a < b"
    then have "a \<noteq> brk" using f l(2) by auto
    then show "a + meta + ((csize c)(brk := n)) a \<le> b"
      using ab l(8) [of a] l(9) [of a b] by auto
  qed (use l(1-6,10) assms(2) in \<open>auto split: if_splits\<close>)
qed

lemma layout_flag:
  assumes "layout meta c brk B" "b \<in> B" "c b = Some (n, f)"
  shows "layout meta (c(b \<mapsto> (n, g))) brk B"
proof -
  have e: "csize (c(b \<mapsto> (n, g))) = csize c" "dom (c(b \<mapsto> (n, g))) = dom c"
    using assms(3) by (auto simp: csize_def fun_eq_iff)
  have "{x. cfree (c(b \<mapsto> (n, g))) x} \<subseteq> B" using layoutD(10) [OF assms(1)] assms(2) by auto
  then show ?thesis using assms(1) unfolding layout_def e by blast
qed

text \<open>The bytes of different blocks are disjoint, and together they fit below the break.\<close>

definition region :: "sz \<Rightarrow> core \<Rightarrow> addr \<Rightarrow> addr set" where
  "region meta c b = {b + meta ..< b + meta + csize c b}"

lemma layout_disjoint:
  assumes "layout meta c brk B" "a \<in> B" "b \<in> B" "a \<noteq> b"
  shows "region meta c a \<inter> {b ..< b + meta + csize c b} = {}"
proof (cases "a < b")
  case True
  then show ?thesis using layoutD(2,9) [OF assms(1)] assms(2,3) by (fastforce simp: region_def)
next
  case False
  then have "b + meta + csize c b \<le> a" using layoutD(2,9) [OF assms(1)] assms(2-4) by (metis linorder_neqE_nat subsetD)
  then show ?thesis by (auto simp: region_def)
qed

lemma stacked_sum:
  assumes "finite A" "\<forall>a \<in> A. a + meta + n a \<le> lim" "\<forall>a \<in> A. \<forall>b \<in> A. a < b \<longrightarrow> a + meta + n a \<le> b"
  shows "(\<Sum>a \<in> A. n a) \<le> (lim :: nat)"
  using assms
proof (induction A arbitrary: lim rule: finite_linorder_max_induct)
  case empty
  then show ?case by simp
next
  case (insert b A)
  have "(\<Sum>a \<in> A. n a) \<le> b" using insert.prems(2) insert.hyps(2) by (intro insert.IH) auto
  moreover have "b + meta + n b \<le> lim" using insert.prems(1) by simp
  moreover have "b \<notin> A" using insert.hyps(2) by auto
  ultimately show ?case using insert.hyps(1) by simp
qed

lemma layout_sum:
  assumes "layout meta c brk B" "A \<subseteq> B"
  shows "(\<Sum>b \<in> A. csize c b) \<le> brk"
proof (rule stacked_sum)
  note l = layoutD [OF assms(1)]
  show "finite A" using l(11) assms(2) finite_subset by blast
  show "\<forall>a \<in> A. a + meta + csize c a \<le> brk" using l(8) assms(2) by blast
  show "\<forall>a \<in> A. \<forall>b \<in> A. a < b \<longrightarrow> a + meta + csize c a \<le> b" using l(2,9) assms(2) by blast
qed

lemma layout_card: "layout meta c brk B \<Longrightarrow> card (dom c) < brk"
proof -
  assume l: "layout meta c brk B"
  have "dom c \<subseteq> {0<..<brk}"
  proof
    fix b assume "b \<in> dom c"
    then show "b \<in> {0<..<brk}"
      using layoutD(3,4) [OF l] layoutD(7) [OF l, of b] by (cases "b = 0") (simp_all del: dom_def)
  qed
  then have "card (dom c) \<le> card {0<..<brk}" by (intro card_mono) auto
  then show ?thesis using layoutD(5) [OF l] by simp
qed

end
