(* ===== verification/Allocator.thy ===== *)
theory Allocator
  imports Malloc_1
begin

text \<open>
  What a client may assume of an allocator, whatever its lists: the heap of the client is a finite
  collection of disjoint blocks of bytes. \<open>R s h\<close> relates a state of an allocator to such a heap, \<open>h\<close>
  giving the bytes of the block at a pointer that was handed out and not released. The laws are those
  of \<open>malloc\<close>, \<open>free\<close> and \<open>realloc\<close>; the allocators of \<open>malloc_2.cpp\<close>, \<open>malloc_3.cpp\<close> and \<open>malloc_4.cpp\<close>
  are shown to provide them, each in its own theory.
\<close>

type_synonym blocks = "addr \<rightharpoonup> 8 word list"

text \<open>A client that allocates several blocks, one after the other.\<close>

primrec allocs :: "(sz \<Rightarrow> 's \<Rightarrow> (addr \<times> 's) option) \<Rightarrow> sz list \<Rightarrow> 's \<Rightarrow> (addr list \<times> 's) option" where
  "allocs alloc [] s = Some ([], s)"
| "allocs alloc (n # ns) s =
     do { (p, s) \<leftarrow> alloc n s; (ps, s) \<leftarrow> allocs alloc ns s; Some (p # ps, s) }"

text \<open>The blocks with headers at \<open>U\<close> of \<open>M\<close> bytes and sizes \<open>n\<close>, in a memory \<open>D\<close>.\<close>

definition contents :: "sz \<Rightarrow> (addr \<Rightarrow> sz) \<Rightarrow> bytes \<Rightarrow> addr set \<Rightarrow> blocks" where
  "contents M n D U = (\<lambda>p. if p - M \<in> U then Some (map D [p ..< p + n (p - M)]) else None)"

lemma contents_at: "b \<in> U \<Longrightarrow> contents M n D U (b + M) = Some (map D [b + M ..< b + M + n b])"
  by (simp add: contents_def)

lemma contents_Some:
  assumes "contents M n D U p = Some v" "NULL \<notin> U"
  shows "p = (p - M) + M" "p - M \<in> U" "v = map D [p ..< p + n (p - M)]"
proof -
  show pu: "p - M \<in> U" and "v = map D [p ..< p + n (p - M)]" using assms(1) by (auto simp: contents_def split: if_splits)
  have "p - M \<noteq> 0" using pu assms(2) by metis
  then show "p = (p - M) + M" by simp
qed

lemma contents_del:
  assumes "NULL \<notin> U" "\<And>a. a \<in> U - {b} \<Longrightarrow> n' a = n a"
    and "\<And>a i. a \<in> U - {b} \<Longrightarrow> i < n a \<Longrightarrow> D' (a + M + i) = D (a + M + i)"
  shows "contents M n' D' (U - {b}) = (contents M n D U)(b + M := None)"
proof
  fix p
  show "contents M n' D' (U - {b}) p = ((contents M n D U)(b + M := None)) p"
  proof (cases "p - M \<in> U - {b}")
    case True
    then have "p - M \<noteq> 0" using assms(1) by (metis DiffD1)
    then have p: "p = (p - M) + M" by simp
    have "map D' [p ..< p + n (p - M)] = map D [p ..< p + n (p - M)]"
    proof (rule map_cong [OF refl])
      fix x assume "x \<in> set [p ..< p + n (p - M)]"
      then obtain i where "i < n (p - M)" "x = (p - M) + M + i" using p by (metis add_less_cancel_left atLeastLessThan_iff le_iff_add set_upt)
      then show "D' x = D x" using assms(3) [OF True] by simp
    qed
    then show ?thesis using True assms(2) [OF True] p by (auto simp: contents_def)
  next
    case False
    then have "contents M n' D' (U - {b}) p = None" by (simp add: contents_def)
    moreover have "((contents M n D U)(b + M := None)) p = None"
    proof (cases "p = b + M")
      case ne: False
      then have "p - M \<notin> U" using False assms(1) by (cases "M \<le> p") auto
      then show ?thesis using ne by (simp add: contents_def)
    qed simp
    ultimately show ?thesis by simp
  qed
qed

lemma contents_same:
  assumes "NULL \<notin> U" "\<And>a. a \<in> U \<Longrightarrow> n' a = n a" "\<And>a i. a \<in> U \<Longrightarrow> i < n a \<Longrightarrow> D' (a + M + i) = D (a + M + i)"
  shows "contents M n' D' U = contents M n D U"
proof -
  have U: "U - {NULL} = U" using assms(1) by simp
  have "contents M n' D' (U - {NULL}) = (contents M n D U)(NULL + M := None)"
    using assms by (intro contents_del) auto
  moreover have "contents M n D U (NULL + M) = None" using assms(1) by (simp add: contents_def)
  ultimately show ?thesis unfolding U by (metis fun_upd_triv)
qed

lemma contents_new:
  assumes "NULL \<notin> insert b U"
  shows "contents M n D (insert b U) = (contents M n D U)(b + M \<mapsto> map D [b + M ..< b + M + n b])"
proof
  fix p
  show "contents M n D (insert b U) p = ((contents M n D U)(b + M \<mapsto> map D [b + M ..< b + M + n b])) p"
  proof (cases "p - M = b")
    case True
    then have "p = b + M" using assms by (cases "M \<le> p") auto
    then show ?thesis by (simp add: contents_def)
  next
    case False
    then show ?thesis by (auto simp: contents_def)
  qed
qed

locale allocator =
  fixes R :: "'s \<Rightarrow> blocks \<Rightarrow> bool"
    and legal :: "sz \<Rightarrow> bool"
    and alloc :: "sz \<Rightarrow> 's \<Rightarrow> (addr \<times> 's) option"
    and free :: "addr \<Rightarrow> 's \<Rightarrow> 's option"
    and freeable :: "addr \<Rightarrow> 's \<Rightarrow> bool"
  assumes disjoint: "R s h \<Longrightarrow> h p = Some v \<Longrightarrow> h q = Some w \<Longrightarrow> p \<noteq> q \<Longrightarrow>
      {p ..< p + length v} \<inter> {q ..< q + length w} = {}"
    and null_free: "R s h \<Longrightarrow> h NULL = None"
    and alloc_ok: "R s h \<Longrightarrow> legal n \<Longrightarrow> \<exists>p s' h'. alloc n s = Some (p, s') \<and> R s' h' \<and>
      (if p = NULL then h' = h else h p = None \<and> (\<exists>v. n \<le> length v \<and> h' = h(p \<mapsto> v)))"
    and free_ok: "R s h \<Longrightarrow> h p \<noteq> None \<Longrightarrow> freeable p s \<Longrightarrow> \<exists>s'. free p s = Some s' \<and> R s' (h(p := None))"
begin

text \<open>
  Any number of requests: every one is answered, the blocks that were there keep their place and their
  bytes, and every new block is large enough, new, and apart from all the others.
\<close>

lemma allocs_ok:
  assumes "R s h" "list_all legal ns"
  shows "\<exists>ps s' h'. allocs alloc ns s = Some (ps, s') \<and> R s' h' \<and> h \<subseteq>\<^sub>m h' \<and> distinct (filter (\<lambda>p. p \<noteq> NULL) ps) \<and>
    dom h' = dom h \<union> (set ps - {NULL}) \<and> dom h \<inter> set ps = {} \<and>
    list_all2 (\<lambda>n p. p = NULL \<or> (\<exists>v. h' p = Some v \<and> n \<le> length v)) ns ps"
  using assms
proof (induction ns arbitrary: s h)
  case (Cons n ns)
  obtain p s1 h1 where 1: "alloc n s = Some (p, s1)" "R s1 h1"
      "if p = NULL then h1 = h else h p = None \<and> (\<exists>v. n \<le> length v \<and> h1 = h(p \<mapsto> v))"
    using alloc_ok [OF Cons.prems(1), of n] Cons.prems(2) by auto
  obtain ps s' h' where 2: "allocs alloc ns s1 = Some (ps, s')" "R s' h'" "h1 \<subseteq>\<^sub>m h'" "distinct (filter (\<lambda>p. p \<noteq> NULL) ps)"
      "dom h' = dom h1 \<union> (set ps - {NULL})" "dom h1 \<inter> set ps = {}"
      "list_all2 (\<lambda>n p. p = NULL \<or> (\<exists>v. h' p = Some v \<and> n \<le> length v)) ns ps"
    using Cons.IH [OF 1(2)] Cons.prems(2) by auto
  have e: "allocs alloc (n # ns) s = Some (p # ps, s')" using 1(1) 2(1) by simp
  have n0: "NULL \<notin> dom h" using null_free [OF Cons.prems(1)] by (simp add: domIff)
  show ?case
  proof (cases "p = NULL")
    case True
    then have "h1 = h" using 1(3) by simp
    with True e 2 n0 show ?thesis by (intro exI [of _ "p # ps"] exI [of _ s'] exI [of _ h']) auto
  next
    case False
    then obtain v where v: "h p = None" "n \<le> length v" "h1 = h(p \<mapsto> v)" using 1(3) by auto
    then have "h \<subseteq>\<^sub>m h1" "dom h1 = insert p (dom h)" by (auto simp: map_le_def)
    moreover have "h' p = Some v" using 2(3) v(3) by (auto simp: map_le_def)
    ultimately show ?thesis using False e 2 v(1,2) n0
      by (intro exI [of _ "p # ps"] exI [of _ s'] exI [of _ h']) (auto intro: map_le_trans)
  qed
qed auto

lemma release_undoes_alloc:
  assumes "R s h" "legal n" "alloc n s = Some (p, s')" "p \<noteq> NULL" "freeable p s'"
  shows "\<exists>s''. free p s' = Some s'' \<and> R s'' h"
proof -
  obtain h' v where h: "R s' h'" "h p = None" "h' = h(p \<mapsto> v)" using alloc_ok [OF assms(1,2)] assms(3,4) by auto
  then obtain s'' where "free p s' = Some s''" "R s'' (h'(p := None))" using free_ok [OF h(1), of p] assms(5) by auto
  moreover have "h'(p := None) = h" using h(2,3) by auto
  ultimately show ?thesis by simp
qed

end

locale reallocator = allocator R legal alloc free freeable
  for R :: "'s \<Rightarrow> blocks \<Rightarrow> bool" and legal alloc free freeable +
  fixes realloc :: "addr \<Rightarrow> sz \<Rightarrow> 's \<Rightarrow> (addr \<times> 's) option"
  assumes realloc_ok: "R s h \<Longrightarrow> h p = Some v \<Longrightarrow> legal n \<Longrightarrow> 0 < n \<Longrightarrow> freeable p s \<Longrightarrow>
    \<exists>q s' h'. realloc p n s = Some (q, s') \<and> R s' h' \<and>
      (if q = NULL then h' = h
       else (h(p := None)) q = None \<and> (\<exists>w. n \<le> length w \<and> take (min n (length v)) w = take (min n (length v)) v \<and>
         h' = (h(p := None))(q \<mapsto> w)))"
begin

text \<open>Growing a block keeps all of its bytes in front, and every other block as it is.\<close>

lemma grow_keeps:
  assumes "R s h" "h p = Some v" "legal n" "length v \<le> n" "0 < n" "freeable p s" "realloc p n s = Some (q, s')" "q \<noteq> NULL"
  shows "\<exists>h' w. R s' h' \<and> h' q = Some w \<and> n \<le> length w \<and> take (length v) w = v \<and> (\<forall>r. r \<noteq> p \<and> r \<noteq> q \<longrightarrow> h' r = h r)"
proof -
  obtain h' w where "R s' h'" "n \<le> length w" "take (min n (length v)) w = take (min n (length v)) v" "h' = (h(p := None))(q \<mapsto> w)"
    using realloc_ok [OF assms(1-3,5,6)] assms(7,8) by auto
  then show ?thesis using assms(4) by (intro exI [of _ h'] exI [of _ w]) (auto simp: min_absorb2)
qed

end

end
