(* ===== verification/Malloc_2.thy ===== *)
theory Malloc_2
  imports Blocks Dll Allocator
begin

text \<open>
  The second allocator (\<open>HW4Wet/malloc_2.cpp\<close>): blocks with a header in front of the user's bytes, and
  a list of the free blocks in the order of their addresses, searched first fit. The headers live in
  an explicit heap; \<open>None\<close> is an access through a pointer that is no header, or a walk
  along the list that never ends. The static variables are the fields of \<open>alloc2\<close>, together with the
  program break and the bytes of memory.
\<close>

subsection \<open>Data\<close>

record meta2 =
  m_size :: sz
  m_free :: bool
  m_next :: addr
  m_prev :: addr

type_synonym mem2 = "addr \<rightharpoonup> meta2"

record alloc2 =
  mem :: mem2
  free_list :: addr
  free_blocks_num :: sz
  free_bytes_num :: sz
  num_of_metadatas :: sz
  num_allocated_blocks :: sz
  num_allocated_bytes :: sz
  brk :: addr
  data :: bytes

text \<open>\<open>sizeof(MallocMetadata)\<close>: three 8-byte words and a flag padded to 8 bytes.\<close>

definition META :: sz where
  "META = 32"

definition ld :: "addr \<Rightarrow> alloc2 \<Rightarrow> meta2 option" where
  "ld p s = (if p = NULL then None else mem s p)"

definition upd :: "addr \<Rightarrow> (meta2 \<Rightarrow> meta2) \<Rightarrow> alloc2 \<Rightarrow> alloc2 option" where
  "upd p f s = do { m \<leftarrow> ld p s; Some (s\<lparr>mem := (mem s)(p \<mapsto> f m)\<rparr>) }"

subsection \<open>Operations\<close>

definition list_is_empty :: "alloc2 \<Rightarrow> bool" where
  "list_is_empty s \<longleftrightarrow> free_list s = NULL"

definition smalloc_naive :: "grant \<Rightarrow> sz \<Rightarrow> alloc2 \<Rightarrow> addr \<times> alloc2" where
  "smalloc_naive grant sz s =
     (if sz = 0 \<or> sz > MAX_SIZE then (NULL, s)
      else case sbrk grant (int sz) (brk s) of
        (None, _) \<Rightarrow> (NULL, s)
      | (Some old_prog_brk, b) \<Rightarrow> (old_prog_brk, s\<lparr>brk := b\<rparr>))"

definition create_metadata_sbrk :: "grant \<Rightarrow> sz \<Rightarrow> alloc2 \<Rightarrow> addr \<times> alloc2" where
  "create_metadata_sbrk grant size_in s =
     (let (p, s) = smalloc_naive grant META s in
      if p = NULL then (NULL, s)
      else (p, s\<lparr>mem := (mem s)(p \<mapsto> \<lparr>m_size = size_in, m_free = False, m_next = NULL, m_prev = NULL\<rparr>),
                 num_of_metadatas := sz_add (num_of_metadatas s) 1,
                 num_allocated_blocks := sz_add (num_allocated_blocks s) 1,
                 num_allocated_bytes := sz_add (num_allocated_bytes s) size_in\<rparr>))"

definition remove_node :: "addr \<Rightarrow> alloc2 \<Rightarrow> alloc2 option" where
  "remove_node ptr s =
     (if list_is_empty s \<or> ptr = NULL then Some s
      else do {
        m \<leftarrow> ld ptr s;
        let prev_ptr = m_prev m;
        let next_ptr = m_next m;
        s \<leftarrow> (if prev_ptr = NULL then
               (let s = s\<lparr>free_list := next_ptr\<rparr> in
                if next_ptr \<noteq> NULL then upd next_ptr (m_prev_update (\<lambda>_. NULL)) s else Some s)
              else do {
                s \<leftarrow> upd prev_ptr (m_next_update (\<lambda>_. next_ptr)) s;
                if next_ptr \<noteq> NULL then upd next_ptr (m_prev_update (\<lambda>_. prev_ptr)) s else Some s });
        upd ptr (\<lambda>m. m\<lparr>m_prev := NULL, m_next := NULL\<rparr>) s })"

definition add_node :: "addr \<Rightarrow> addr \<Rightarrow> alloc2 \<Rightarrow> alloc2 option" where
  "add_node node_to_add ptr_prev s =
     (if ptr_prev = NULL then do {
        s \<leftarrow> upd node_to_add (m_next_update (\<lambda>_. free_list s)) s;
        s \<leftarrow> (if free_list s \<noteq> NULL then upd (free_list s) (m_prev_update (\<lambda>_. node_to_add)) s else Some s);
        s \<leftarrow> upd node_to_add (m_prev_update (\<lambda>_. NULL)) s;
        Some (s\<lparr>free_list := node_to_add\<rparr>) }
      else do {
        m \<leftarrow> ld ptr_prev s;
        let ptr_next = m_next m;
        s \<leftarrow> upd node_to_add (m_prev_update (\<lambda>_. ptr_prev)) s;
        s \<leftarrow> upd ptr_prev (m_next_update (\<lambda>_. node_to_add)) s;
        s \<leftarrow> upd node_to_add (m_next_update (\<lambda>_. ptr_next)) s;
        if ptr_next \<noteq> NULL then upd ptr_next (m_prev_update (\<lambda>_. node_to_add)) s else Some s })"

text \<open>The search of \<open>smalloc\<close> for the first free block that is large enough.\<close>

partial_function (option) find_fit :: "alloc2 \<Rightarrow> sz \<Rightarrow> addr \<Rightarrow> addr option" where
  "find_fit s sz current =
     (if current = NULL then Some NULL
      else do {
        m \<leftarrow> ld current s;
        if m_size m \<ge> sz then Some current else find_fit s sz (m_next m) })"

declare find_fit.simps [code]

definition smalloc :: "grant \<Rightarrow> sz \<Rightarrow> alloc2 \<Rightarrow> (addr \<times> alloc2) option" where
  "smalloc grant sz s =
     (if sz = 0 \<or> sz > MAX_SIZE then Some (NULL, s)
      else do {
        current \<leftarrow> find_fit s sz (free_list s);
        if list_is_empty s \<or> current = NULL then
          (let (new_metadata, s) = create_metadata_sbrk grant sz s in
           if new_metadata = NULL then Some (NULL, s)
           else case sbrk grant (int sz) (brk s) of
             (None, _) \<Rightarrow> Some (NULL, s)
           | (Some old_prog_brk, b) \<Rightarrow> Some (old_prog_brk, s\<lparr>brk := b\<rparr>))
        else do {
          s \<leftarrow> upd current (m_free_update (\<lambda>_. False)) s;
          s \<leftarrow> remove_node current s;
          m \<leftarrow> ld current s;
          Some (current + META, s\<lparr>free_bytes_num := sz_sub (free_bytes_num s) (m_size m),
                                  free_blocks_num := sz_sub (free_blocks_num s) 1\<rparr>) } })"

text \<open>The walk of \<open>sfree\<close> to the place of a block in the list: the last node not behind it.\<close>

partial_function (option) find_place :: "alloc2 \<Rightarrow> addr \<Rightarrow> addr \<Rightarrow> addr \<Rightarrow> addr option" where
  "find_place s p_metadata populate populate_prev =
     (if populate = NULL then Some populate_prev
      else if populate > p_metadata then Some populate_prev
      else do {
        m \<leftarrow> ld populate s;
        find_place s p_metadata (m_next m) populate })"

declare find_place.simps [code]

definition sfree :: "addr \<Rightarrow> alloc2 \<Rightarrow> alloc2 option" where
  "sfree p s =
     (if p = NULL then Some s
      else do {
        let p_metadata = p - META;
        m \<leftarrow> ld p_metadata s;
        if m_free m then Some s
        else do {
          populate_prev \<leftarrow> find_place s p_metadata (free_list s) NULL;
          let s = s\<lparr>free_blocks_num := sz_add (free_blocks_num s) 1,
                    free_bytes_num := sz_add (free_bytes_num s) (m_size m)\<rparr>;
          s \<leftarrow> upd p_metadata (m_free_update (\<lambda>_. True)) s;
          add_node p_metadata populate_prev s } })"

definition scalloc :: "grant \<Rightarrow> sz \<Rightarrow> sz \<Rightarrow> alloc2 \<Rightarrow> (addr \<times> alloc2) option" where
  "scalloc grant num sz s =
     do {
       (p, s) \<leftarrow> smalloc grant (sz_mul num sz) s;
       if p = NULL then Some (NULL, s)
       else Some (p, s\<lparr>data := memset0 p (sz_mul num sz) (data s)\<rparr>) }"

definition srealloc :: "grant \<Rightarrow> addr \<Rightarrow> sz \<Rightarrow> alloc2 \<Rightarrow> (addr \<times> alloc2) option" where
  "srealloc grant oldp sz s =
     (if sz = 0 \<or> sz > MAX_SIZE then Some (NULL, s)
      else if oldp = NULL then smalloc grant sz s
      else do {
        let oldp_metadata = oldp - META;
        m \<leftarrow> ld oldp_metadata s;
        if m_size m \<ge> sz then Some (oldp, s)
        else do {
          (newp, s) \<leftarrow> smalloc grant sz s;
          if newp = NULL then Some (NULL, s)
          else do {
            m \<leftarrow> ld oldp_metadata s;
            let size_to_move = min sz (m_size m);
            let s = s\<lparr>data := memmove newp oldp size_to_move (data s)\<rparr>;
            s \<leftarrow> sfree oldp s;
            Some (newp, s) } } })"

definition num_free_blocks :: "alloc2 \<Rightarrow> sz" where
  "num_free_blocks s = free_blocks_num s"

definition num_free_bytes :: "alloc2 \<Rightarrow> sz" where
  "num_free_bytes s = free_bytes_num s"

definition num_meta_data_bytes :: "alloc2 \<Rightarrow> sz" where
  "num_meta_data_bytes s = sz_mul (num_of_metadatas s) META"

definition size_meta_data :: sz where
  "size_meta_data = META"

text \<open>The state in which a program starts.\<close>

definition init2 :: "addr \<Rightarrow> alloc2" where
  "init2 b = \<lparr>mem = Map.empty, free_list = NULL, free_blocks_num = 0, free_bytes_num = 0,
     num_of_metadatas = 0, num_allocated_blocks = 0, num_allocated_bytes = 0, brk = b, data = (\<lambda>_. 0)\<rparr>"


subsection \<open>Views of the heap\<close>

definition nx :: "mem2 \<Rightarrow> addr \<Rightarrow> addr" where
  "nx m p = (case m p of None \<Rightarrow> NULL | Some x \<Rightarrow> m_next x)"

definition pv :: "mem2 \<Rightarrow> addr \<Rightarrow> addr" where
  "pv m p = (case m p of None \<Rightarrow> NULL | Some x \<Rightarrow> m_prev x)"

definition core2 :: "mem2 \<Rightarrow> core" where
  "core2 m p = map_option (\<lambda>x. (m_size x, m_free x)) (m p)"

lemma dom_core2 [simp]: "dom (core2 m) = dom m"
  by (auto simp: core2_def dom_def)

lemma core2_Some: "m p = Some x \<Longrightarrow> core2 m p = Some (m_size x, m_free x)"
  by (simp add: core2_def)

text \<open>Writing one field of a header, as a total function on heaps.\<close>

definition put :: "addr \<Rightarrow> (meta2 \<Rightarrow> meta2) \<Rightarrow> mem2 \<Rightarrow> mem2" where
  "put p f m = (case m p of None \<Rightarrow> m | Some x \<Rightarrow> m(p \<mapsto> f x))"

lemma dom_put2 [simp]: "dom (put p f m) = dom m"
  by (auto simp: put_def split: option.splits)

lemma ld_eq2: "p \<noteq> NULL \<Longrightarrow> mem s p = Some x \<Longrightarrow> ld p s = Some x"
  by (simp add: ld_def)

lemma upd_eq2: "p \<noteq> NULL \<Longrightarrow> p \<in> dom (mem s) \<Longrightarrow> upd p f s = Some (s\<lparr>mem := put p f (mem s)\<rparr>)"
  by (auto simp: upd_def ld_def put_def)

lemma put_next [simp]:
  "p \<in> dom m \<Longrightarrow> nx (put p (m_next_update (\<lambda>_. v)) m) = (nx m)(p := v)"
  "pv (put p (m_next_update (\<lambda>_. v)) m) = pv m" "core2 (put p (m_next_update (\<lambda>_. v)) m) = core2 m"
  by (auto simp: put_def nx_def pv_def core2_def fun_eq_iff split: option.splits)

lemma put_prev [simp]:
  "p \<in> dom m \<Longrightarrow> pv (put p (m_prev_update (\<lambda>_. v)) m) = (pv m)(p := v)"
  "nx (put p (m_prev_update (\<lambda>_. v)) m) = nx m" "core2 (put p (m_prev_update (\<lambda>_. v)) m) = core2 m"
  by (auto simp: put_def nx_def pv_def core2_def fun_eq_iff split: option.splits)

lemma put_both [simp]:
  "p \<in> dom m \<Longrightarrow> nx (put p (\<lambda>x. x\<lparr>m_prev := u, m_next := v\<rparr>) m) = (nx m)(p := v)"
  "p \<in> dom m \<Longrightarrow> pv (put p (\<lambda>x. x\<lparr>m_prev := u, m_next := v\<rparr>) m) = (pv m)(p := u)"
  "core2 (put p (\<lambda>x. x\<lparr>m_prev := u, m_next := v\<rparr>) m) = core2 m"
  by (auto simp: put_def nx_def pv_def core2_def fun_eq_iff split: option.splits)

lemma put_free [simp]:
  "nx (put p (m_free_update (\<lambda>_. v)) m) = nx m" "pv (put p (m_free_update (\<lambda>_. v)) m) = pv m"
  "p \<in> dom m \<Longrightarrow> core2 (put p (m_free_update (\<lambda>_. v)) m) = (core2 m)(p \<mapsto> (csize (core2 m) p, v))"
  by (auto simp: put_def nx_def pv_def core2_def csize_def fun_eq_iff split: option.splits)

subsection \<open>The free list\<close>

definition chain :: "alloc2 \<Rightarrow> addr list \<Rightarrow> bool" where
  "chain s fl \<longleftrightarrow> dll (nx (mem s)) (pv (mem s)) NULL fl NULL \<and> free_list s = hd (fl @ [NULL]) \<and>
     distinct fl \<and> set fl \<subseteq> dom (mem s) \<and> NULL \<notin> dom (mem s)"

lemma chain_mem: "chain s fl \<Longrightarrow> b \<in> set fl \<Longrightarrow> b \<noteq> NULL \<and> b \<in> dom (mem s)"
  by (metis chain_def subsetD)

lemma list_is_empty_chain: "chain s fl \<Longrightarrow> list_is_empty s \<longleftrightarrow> fl = []"
  using chain_mem [of s fl "hd fl"] by (cases fl) (auto simp: list_is_empty_def chain_def)

lemma remove_node_chain:
  assumes "chain s (xs @ b # ys)"
  shows "\<exists>m. remove_node b s = Some (s\<lparr>mem := m, free_list := hd (xs @ ys @ [NULL])\<rparr>) \<and>
    core2 m = core2 (mem s) \<and> chain (s\<lparr>mem := m, free_list := hd (xs @ ys @ [NULL])\<rparr>) (xs @ ys)"
proof -
  let ?m = "mem s" let ?p = "last (NULL # xs)" let ?n = "hd (ys @ [NULL])"
  have d: "dll (nx ?m) (pv ?m) NULL (xs @ b # ys) NULL" "distinct (xs @ b # ys)" "set (xs @ b # ys) \<subseteq> dom ?m"
      "NULL \<notin> dom ?m" "free_list s = hd (xs @ [b])"
    using assms by (auto simp: chain_def hd_append)
  have b: "b \<noteq> NULL" "b \<in> dom ?m" using chain_mem [OF assms, of b] by auto
  then obtain x where x: "?m b = Some x" by blast
  have l: "m_prev x = ?p" "m_next x = ?n" using d(1) x by (auto simp: dll_mid nx_def pv_def)
  have p: "xs \<noteq> [] \<Longrightarrow> ?p \<noteq> NULL \<and> ?p \<in> dom ?m \<and> ?p \<noteq> b"
    using chain_mem [OF assms, of ?p] d(2) last_in_set [of xs] by auto
  have n: "ys \<noteq> [] \<Longrightarrow> ?n \<noteq> NULL \<and> ?n \<in> dom ?m \<and> ?n \<noteq> b"
    using chain_mem [OF assms, of ?n] d(2) by (cases ys) auto
  define m1 where "m1 = (if xs = [] then ?m else put ?p (m_next_update (\<lambda>_. ?n)) ?m)"
  define m2 where "m2 = (if ys = [] then m1 else put ?n (m_prev_update (\<lambda>_. ?p)) m1)"
  define m3 where "m3 = put b (\<lambda>x. x\<lparr>m_prev := NULL, m_next := NULL\<rparr>) m2"
  have dm: "dom m1 = dom ?m" "dom m2 = dom ?m" "dom m3 = dom ?m" by (auto simp: m1_def m2_def m3_def)
  have ne: "\<not> list_is_empty s" using list_is_empty_chain [OF assms] by simp
  have fl: "hd (xs @ ys @ [NULL]) = (if xs = [] then ?n else free_list s)" using d(5) by (cases xs) auto
  have r: "remove_node b s = Some (s\<lparr>mem := m3, free_list := hd (xs @ ys @ [NULL])\<rparr>)"
    using ne b x p n d(2) unfolding remove_node_def fl
    by (cases "xs = []"; cases "ys = []") (simp_all add: Let_def ld_eq2 upd_eq2 l m1_def m2_def m3_def)
  have "nx m3 = ((nx ?m)(?p := if xs = [] then nx ?m ?p else ?n))(b := NULL)"
    "pv m3 = ((pv ?m)(?n := if ys = [] then pv ?m ?n else ?p))(b := NULL)"
    using b p n by (auto simp: m1_def m2_def m3_def)
  then have "dll (nx m3) (pv m3) NULL (xs @ ys) NULL"
    by (intro dll_remove [OF d(1,2)]) (use d(2) p n in \<open>auto simp: hd_append\<close>)
  then have "chain (s\<lparr>mem := m3, free_list := hd (xs @ ys @ [NULL])\<rparr>) (xs @ ys)"
    using d dm by (auto simp: chain_def)
  moreover have "core2 m3 = core2 ?m" by (simp add: m1_def m2_def m3_def)
  ultimately show ?thesis using r by blast
qed

lemma add_node_chain:
  assumes "chain s (xs @ ys)" "b \<notin> set (xs @ ys)" "b \<in> dom (mem s)"
  shows "\<exists>m. add_node b (last (NULL # xs)) s = Some (s\<lparr>mem := m, free_list := hd (xs @ [b])\<rparr>) \<and>
    core2 m = core2 (mem s) \<and> chain (s\<lparr>mem := m, free_list := hd (xs @ [b])\<rparr>) (xs @ b # ys)"
proof -
  let ?m = "mem s" let ?p = "last (NULL # xs)" let ?n = "hd (ys @ [NULL])"
  have d: "dll (nx ?m) (pv ?m) NULL (xs @ ys) NULL" "distinct (xs @ ys)" "set (xs @ ys) \<subseteq> dom ?m"
      "NULL \<notin> dom ?m" "free_list s = hd (xs @ [?n])"
    using assms by (auto simp: chain_def hd_append)
  have b: "b \<noteq> NULL" "b \<in> dom ?m" using assms(3) d(4) by metis+
  have p: "xs \<noteq> [] \<Longrightarrow> ?p \<noteq> NULL \<and> ?p \<in> dom ?m \<and> ?p \<noteq> b"
    using chain_mem [OF assms(1), of ?p] assms(2) last_in_set [of xs] by auto
  have n: "ys \<noteq> [] \<Longrightarrow> ?n \<noteq> NULL \<and> ?n \<in> dom ?m \<and> ?n \<noteq> b"
    using chain_mem [OF assms(1), of ?n] assms(2) by (cases ys) auto
  have pn: "xs \<noteq> [] \<Longrightarrow> nx ?m ?p = ?n" using d(1) by (cases xs rule: rev_cases) (auto simp: dll_append)
  have "\<exists>m. add_node b ?p s = Some (s\<lparr>mem := m, free_list := hd (xs @ [b])\<rparr>) \<and> core2 m = core2 ?m \<and>
      dom m = dom ?m \<and> nx m = ((nx ?m)(?p := if xs = [] then nx ?m ?p else b))(b := ?n) \<and>
      pv m = ((pv ?m)(?n := if ys = [] then pv ?m ?n else b))(b := ?p)"
  proof (cases "xs = []")
    case True
    let ?m' = "put b (m_prev_update (\<lambda>_. NULL)) ((if ys = [] then id else put ?n (m_prev_update (\<lambda>_. b)))
                (put b (m_next_update (\<lambda>_. ?n)) ?m))"
    have "add_node b ?p s = Some (s\<lparr>mem := ?m', free_list := b\<rparr>)"
      using True b n d(5) by (cases "ys = []") (simp_all add: add_node_def upd_eq2)
    then show ?thesis using True b n by (intro exI [of _ ?m']) auto
  next
    case False
    let ?m' = "(if ys = [] then id else put ?n (m_prev_update (\<lambda>_. b)))
       (put b (m_next_update (\<lambda>_. ?n)) (put ?p (m_next_update (\<lambda>_. b)) (put b (m_prev_update (\<lambda>_. ?p)) ?m)))"
    obtain x where x: "?m ?p = Some x" "m_next x = ?n" using p [OF False] pn [OF False] by (auto simp: nx_def)
    have "add_node b ?p s = Some (s\<lparr>mem := ?m'\<rparr>)"
      using False b n p [OF False] x by (cases "ys = []") (simp_all add: Let_def add_node_def ld_eq2 upd_eq2)
    moreover have "s\<lparr>mem := ?m'\<rparr> = s\<lparr>mem := ?m', free_list := hd (xs @ [b])\<rparr>"
      using False d(5) by (cases xs) simp_all
    ultimately show ?thesis using False b n p [OF False] by (intro exI [of _ ?m']) (auto simp: fun_upd_twist)
  qed
  then obtain m where m: "add_node b ?p s = Some (s\<lparr>mem := m, free_list := hd (xs @ [b])\<rparr>)" "core2 m = core2 ?m"
      "dom m = dom ?m" "nx m = ((nx ?m)(?p := if xs = [] then nx ?m ?p else b))(b := ?n)"
      "pv m = ((pv ?m)(?n := if ys = [] then pv ?m ?n else b))(b := ?p)" by blast
  have "dll (nx m) (pv m) NULL (xs @ b # ys) NULL"
    by (intro dll_insert [OF d(1,2)]) (use m(4,5) assms(2) p n in \<open>auto simp: hd_append\<close>)
  then have "chain (s\<lparr>mem := m, free_list := hd (xs @ [b])\<rparr>) (xs @ b # ys)"
    using d m(3) b assms(2) by (auto simp: chain_def hd_append)
  with m(1,2) show ?thesis by blast
qed


lemma find_fit_chain:
  assumes "dll (nx (mem s)) (pv (mem s)) a fl NULL" "set fl \<subseteq> dom (mem s)" "NULL \<notin> dom (mem s)"
  shows "find_fit s sz (hd (fl @ [NULL])) =
    Some (hd (dropWhile (\<lambda>b. csize (core2 (mem s)) b < sz) fl @ [NULL]))"
  using assms
proof (induction fl arbitrary: a)
  case Nil
  then show ?case by (subst find_fit.simps) simp
next
  case (Cons b fl)
  then obtain x where x: "mem s b = Some x" "b \<noteq> NULL" by (metis domD list.set_intros(1) subsetD)
  have "nx (mem s) b = hd (fl @ [NULL])" "dll (nx (mem s)) (pv (mem s)) b fl NULL" using Cons.prems(1) by auto
  then have "find_fit s sz (m_next x) = Some (hd (dropWhile (\<lambda>b. csize (core2 (mem s)) b < sz) fl @ [NULL]))"
    using Cons.IH Cons.prems x by (auto simp: nx_def)
  moreover have "csize (core2 (mem s)) b = m_size x" using x by (simp add: csize_def core2_def)
  ultimately show ?case using x by (subst find_fit.simps) (simp add: ld_eq2)
qed

lemma find_place_chain:
  assumes "dll (nx (mem s)) (pv (mem s)) a fl NULL" "set fl \<subseteq> dom (mem s)" "NULL \<notin> dom (mem s)"
  shows "find_place s p (hd (fl @ [NULL])) q = Some (last (q # takeWhile (\<lambda>b. b \<le> p) fl))"
  using assms
proof (induction fl arbitrary: a q)
  case Nil
  then show ?case by (subst find_place.simps) simp
next
  case (Cons b fl)
  then obtain x where x: "mem s b = Some x" "b \<noteq> NULL" by (metis domD list.set_intros(1) subsetD)
  have "nx (mem s) b = hd (fl @ [NULL])" "dll (nx (mem s)) (pv (mem s)) b fl NULL" using Cons.prems(1) by auto
  then have "find_place s p (m_next x) b = Some (last (b # takeWhile (\<lambda>b. b \<le> p) fl))"
    using Cons.IH Cons.prems x by (auto simp: nx_def)
  then show ?case using x by (subst find_place.simps) (auto simp: ld_eq2)
qed

subsection \<open>The invariant\<close>

definition inv2 :: "alloc2 \<Rightarrow> addr set \<Rightarrow> addr list \<Rightarrow> bool" where
  "inv2 s B fl \<longleftrightarrow> layout META (core2 (mem s)) (brk s) B \<and> chain s fl \<and> sorted_wrt (<) fl \<and>
     set fl = {b. cfree (core2 (mem s)) b} \<and>
     free_blocks_num s = length fl \<and> free_bytes_num s = (\<Sum>b \<in> set fl. csize (core2 (mem s)) b) \<and>
     num_of_metadatas s = card (dom (mem s)) \<and> num_allocated_blocks s = card (dom (mem s)) \<and>
     num_allocated_bytes s = (\<Sum>b \<in> dom (mem s). csize (core2 (mem s)) b) mod SIZE_MOD"

lemma inv2D:
  assumes "inv2 s B fl"
  shows "layout META (core2 (mem s)) (brk s) B" "chain s fl" "sorted_wrt (<) fl"
    "set fl = {b. cfree (core2 (mem s)) b}" "free_blocks_num s = length fl"
    "free_bytes_num s = (\<Sum>b \<in> set fl. csize (core2 (mem s)) b)"
    "num_of_metadatas s = card (dom (mem s))" "num_allocated_blocks s = card (dom (mem s))"
    "num_allocated_bytes s = (\<Sum>b \<in> dom (mem s). csize (core2 (mem s)) b) mod SIZE_MOD"
  using assms by (simp_all add: inv2_def)

lemma inv2_init: "0 < b \<Longrightarrow> b < SIZE_MOD \<Longrightarrow> inv2 (init2 b) {} []"
  by (simp add: inv2_def init2_def layout_def chain_def cfree_def core2_def META_def)

text \<open>A new header at the break, by the first \<open>sbrk\<close>, and a new block, by both.\<close>

lemma header_inv2:
  assumes "inv2 s B fl" "layout META ((core2 (mem s))(brk s \<mapsto> (sz, False))) b' B'"
  defines "s' \<equiv> s\<lparr>mem := (mem s)(brk s \<mapsto> \<lparr>m_size = sz, m_free = False, m_next = NULL, m_prev = NULL\<rparr>),
     num_of_metadatas := sz_add (num_of_metadatas s) 1, num_allocated_blocks := sz_add (num_allocated_blocks s) 1,
     num_allocated_bytes := sz_add (num_allocated_bytes s) sz, brk := b'\<rparr>"
  shows "inv2 s' B' fl" "core2 (mem s') = (core2 (mem s))(brk s \<mapsto> (sz, False))"
proof -
  note i = inv2D [OF assms(1)]
  have f: "brk s \<notin> dom (mem s)" using layout_brk_fresh [OF i(1)] by simp
  have nf: "brk s \<notin> set fl" using i(2) f by (auto simp: chain_def)
  show c: "core2 (mem s') = (core2 (mem s))(brk s \<mapsto> (sz, False))"
    by (auto simp: s'_def core2_def fun_eq_iff)
  have d: "dom (mem s') = insert (brk s) (dom (mem s))" by (simp add: s'_def)
  have fin: "finite (dom (mem s))" using layoutD(1) [OF i(1)] by simp
  have "card (insert (brk s) (dom (mem s))) < SIZE_MOD"
    using layout_card [OF assms(2)] layoutD(6) [OF assms(2)] by simp
  then have n: "sz_add (card (dom (mem s))) 1 = card (insert (brk s) (dom (mem s)))"
    using f fin by (simp add: sz_add_exact)
  have "dll (nx (mem s')) (pv (mem s')) NULL fl NULL = dll (nx (mem s)) (pv (mem s)) NULL fl NULL"
    using nf by (intro dll_cong) (auto simp: nx_def pv_def s'_def)
  then have ch: "chain s' fl" using i(2) layoutD(5) [OF i(1)] by (auto simp: chain_def s'_def)
  have fs: "set fl = {b. cfree (core2 (mem s')) b}"
    using i(4) f cfree_dom [of "core2 (mem s)"] by (auto simp: c)
  have sf: "(\<Sum>b \<in> set fl. csize (core2 (mem s')) b) = (\<Sum>b \<in> set fl. csize (core2 (mem s)) b)"
    using nf by (intro sum.cong) (auto simp: c)
  have "(\<Sum>b \<in> dom (mem s). ((csize (core2 (mem s)))(brk s := sz)) b) = (\<Sum>b \<in> dom (mem s). csize (core2 (mem s)) b)"
    using f by (intro sum.cong) auto
  then have sd: "(\<Sum>b \<in> dom (mem s'). csize (core2 (mem s')) b) = (\<Sum>b \<in> dom (mem s). csize (core2 (mem s)) b) + sz"
    using f fin unfolding d c by (simp add: add.commute)
  have k: "num_of_metadatas s' = sz_add (card (dom (mem s))) 1" "num_allocated_blocks s' = sz_add (card (dom (mem s))) 1"
      "num_allocated_bytes s' = sz_add (num_allocated_bytes s) sz" "free_blocks_num s' = free_blocks_num s"
      "free_bytes_num s' = free_bytes_num s" "brk s' = b'"
    using i(7,8) by (simp_all add: s'_def)
  have bs: "num_allocated_bytes s' = (\<Sum>b \<in> dom (mem s'). csize (core2 (mem s')) b) mod SIZE_MOD"
    unfolding sd k(3) i(9) by (simp add: sz_add_def mod_add_left_eq)
  have cd: "card (dom (mem s')) = sz_add (card (dom (mem s))) 1" unfolding d n ..
  have "layout META (core2 (mem s')) (brk s') B'" using assms(2) unfolding c k(6) .
  moreover have "free_bytes_num s' = (\<Sum>b \<in> set fl. csize (core2 (mem s')) b)" using k(5) i(6) sf by metis
  ultimately show "inv2 s' B' fl"
    unfolding inv2_def cd k(1,2,4) using ch fs bs i(3,5) by blast
qed


text \<open>Taking a block out of the free list, and putting one back.\<close>

lemma chain_put_free: "chain s fl \<Longrightarrow> chain (s\<lparr>mem := put b (m_free_update (\<lambda>_. v)) (mem s)\<rparr>) fl"
  by (simp add: chain_def)

lemma sum_csize_flag:
  "c b = Some (n, f) \<Longrightarrow> csize (c(b \<mapsto> (n, g))) = csize c"
  by (auto simp: csize_def fun_eq_iff)

lemma core2_flag:
  assumes "b \<in> dom m"
  shows "core2 (put b (m_free_update (\<lambda>_. v)) m) = (core2 m)(b \<mapsto> (csize (core2 m) b, v))"
    "core2 m b = Some (csize (core2 m) b, cfree (core2 m) b)"
  using assms by (auto simp: core2_def csize_def cfree_def)

lemma inv2_free_sum: "inv2 s B fl \<Longrightarrow> (\<Sum>b \<in> set fl. csize (core2 (mem s)) b) < SIZE_MOD"
  using layout_sum [of META "core2 (mem s)" "brk s" B "set fl"] inv2D(1,4) [of s B fl] layoutD(6,10) by fastforce

lemma take_inv2:
  assumes "inv2 s B (xs @ b # ys)"
  shows "\<exists>s'. do { s \<leftarrow> upd b (m_free_update (\<lambda>_. False)) s; s \<leftarrow> remove_node b s; m \<leftarrow> ld b s;
      Some (b + META, s\<lparr>free_bytes_num := sz_sub (free_bytes_num s) (m_size m),
        free_blocks_num := sz_sub (free_blocks_num s) 1\<rparr>) } = Some (b + META, s') \<and>
    inv2 s' B (xs @ ys) \<and> brk s' = brk s \<and> data s' = data s \<and>
    core2 (mem s') = (core2 (mem s))(b \<mapsto> (csize (core2 (mem s)) b, False))"
proof -
  note i = inv2D [OF assms]
  let ?c = "core2 (mem s)" and ?n = "csize (core2 (mem s)) b"
  have b: "b \<noteq> NULL" "b \<in> dom (mem s)" using chain_mem [OF i(2), of b] by auto
  let ?s1 = "s\<lparr>mem := put b (m_free_update (\<lambda>_. False)) (mem s)\<rparr>"
  have u: "upd b (m_free_update (\<lambda>_. False)) s = Some ?s1" using b by (rule upd_eq2)
  obtain m where m: "remove_node b ?s1 = Some (?s1\<lparr>mem := m, free_list := hd (xs @ ys @ [NULL])\<rparr>)"
      "core2 m = core2 (mem ?s1)" "chain (?s1\<lparr>mem := m, free_list := hd (xs @ ys @ [NULL])\<rparr>) (xs @ ys)"
    using remove_node_chain [OF chain_put_free [OF i(2)]] by blast
  have c: "core2 m = ?c(b \<mapsto> (?n, False))" using m(2) core2_flag(1) [OF b(2)] by simp
  then have dm: "dom m = dom (mem s)" using b(2) dom_core2 [of m] by auto
  then obtain x where x: "m b = Some x" using b(2) by blast
  then have xs: "m_size x = ?n" using core2_Some [of m b x] x c by simp
  let ?s' = "s\<lparr>mem := m, free_list := hd (xs @ ys @ [NULL]),
     free_bytes_num := sz_sub (free_bytes_num s) ?n, free_blocks_num := sz_sub (free_blocks_num s) 1\<rparr>"
  have cs: "csize (core2 m) = csize ?c"
    using sum_csize_flag [of ?c b] core2_flag(2) [OF b(2)] unfolding c by blast
  have nb: "b \<notin> set (xs @ ys)" using i(2) by (auto simp: chain_def)
  have split: "(\<Sum>a \<in> set (xs @ b # ys). csize ?c a) = ?n + (\<Sum>a \<in> set (xs @ ys). csize ?c a)"
    using nb by simp
  have "length (xs @ b # ys) < SIZE_MOD"
  proof -
    have "card (set (xs @ b # ys)) \<le> card (dom ?c)"
      using i(2) layoutD(1) [OF i(1)] by (intro card_mono) (auto simp: chain_def)
    then show ?thesis
      using i(2) layout_card [OF i(1)] layoutD(6) [OF i(1)] distinct_card [of "xs @ b # ys"] by (simp add: chain_def)
  qed
  then have k: "sz_sub (length (xs @ b # ys)) 1 = length (xs @ ys)" by (simp add: sz_sub_exact)
  have "layout META (core2 m) (brk s) B"
    unfolding c using layout_flag [OF i(1) _ core2_flag(2) [OF b(2)]] i(4) layoutD(10) [OF i(1)] by auto
  moreover have "chain ?s' (xs @ ys)" using m(3) by (simp add: chain_def)
  moreover have "sorted_wrt (<) (xs @ ys)" using i(3) by (simp add: sorted_wrt_append)
  moreover have "set (xs @ ys) = {a. cfree (core2 m) a}" using i(4) nb unfolding c cfree_upd by (auto split: if_splits)
  moreover have "sz_sub (free_bytes_num s) ?n = (\<Sum>a \<in> set (xs @ ys). csize ?c a)"
    using inv2_free_sum [OF assms] unfolding i(6) split by (simp add: sz_sub_exact)
  ultimately have "inv2 ?s' B (xs @ ys)"
    unfolding inv2_def using k i(5,7-9) by (simp add: cs dm)
  moreover have "ld b (?s1\<lparr>mem := m, free_list := hd (xs @ ys @ [NULL])\<rparr>) = Some x" using b(1) x by (simp add: ld_def)
  ultimately show ?thesis using u m(1) c xs by (intro exI [of _ ?s']) simp
qed


lemma first_fit_split:
  assumes "dropWhile (\<lambda>b. n b < sz) fl = b # ys"
  obtains xs where "fl = xs @ b # ys" "\<forall>a \<in> set xs. n a < (sz :: sz)" "sz \<le> n b"
proof -
  have "fl = takeWhile (\<lambda>b. n b < sz) fl @ b # ys" by (metis assms takeWhile_dropWhile_id)
  moreover have "\<not> n b < sz" using assms by (metis hd_dropWhile list.discI list.sel(1))
  ultimately show thesis using that set_takeWhileD by (metis linorder_not_le)
qed

text \<open>What \<open>smalloc\<close> promises: the block \<open>b\<close> that it hands out, and what it does to the others.\<close>

definition handed_out :: "core \<Rightarrow> core \<Rightarrow> addr set \<Rightarrow> addr set \<Rightarrow> sz \<Rightarrow> addr \<Rightarrow> bool" where
  "handed_out c c' B B' sz b \<longleftrightarrow> B' = insert b B \<and> (b \<in> B \<longrightarrow> cfree c b) \<and> \<not> cfree c' b \<and> sz \<le> csize c' b \<and>
     (\<forall>a \<in> dom c. a \<noteq> b \<longrightarrow> c' a = c a)"

lemma smalloc_sbrk:
  assumes "inv2 s B fl" "0 < sz" "sz \<le> MAX_SIZE"
  shows "\<exists>p s' B'. (let (new_metadata, s) = create_metadata_sbrk grant sz s in
           if new_metadata = NULL then Some (NULL, s)
           else case sbrk grant (int sz) (brk s) of
             (None, _) \<Rightarrow> Some (NULL, s)
           | (Some old_prog_brk, b) \<Rightarrow> Some (old_prog_brk, s\<lparr>brk := b\<rparr>)) = Some (p, s') \<and>
      inv2 s' B' fl \<and> data s' = data s \<and>
      (if p = NULL then B' = B \<and> (\<forall>a \<in> dom (mem s). core2 (mem s') a = core2 (mem s) a)
       else p = brk s + META \<and> handed_out (core2 (mem s)) (core2 (mem s')) B B' sz (brk s))"
proof -
  note i = inv2D [OF assms(1)]
  have f: "brk s \<notin> dom (mem s)" using layout_brk_fresh [OF i(1)] by simp
  have pos: "0 < brk s" using layoutD(5) [OF i(1)] .
  have M: "META \<noteq> 0" "\<not> META > MAX_SIZE" by (simp_all add: META_def MAX_SIZE_def)
  show ?thesis
  proof (cases rule: sbrk_cases [of grant "int META" "brk s"])
    case 1
    then show ?thesis
      using assms(1) M by (intro exI [of _ NULL] exI [of _ s] exI [of _ B])
        (simp add: create_metadata_sbrk_def smalloc_naive_def)
  next
    case 2
    let ?s1 = "s\<lparr>mem := (mem s)(brk s \<mapsto> \<lparr>m_size = sz, m_free = False, m_next = NULL, m_prev = NULL\<rparr>),
       num_of_metadatas := sz_add (num_of_metadatas s) 1, num_allocated_blocks := sz_add (num_allocated_blocks s) 1,
       num_allocated_bytes := sz_add (num_allocated_bytes s) sz, brk := brk s + META\<rparr>"
    have b1: "nat (int (brk s) + int META) = brk s + META" by simp
    have cm: "create_metadata_sbrk grant sz s = (brk s, ?s1)"
      using 2 M pos unfolding b1 by (simp add: create_metadata_sbrk_def smalloc_naive_def)
    show ?thesis
    proof (cases rule: sbrk_cases [of grant "int sz" "brk s + META"])
      case 1
      have "layout META ((core2 (mem s))(brk s \<mapsto> (sz, False))) (brk s + META) B"
        using layout_header [OF i(1)] 2(3) b1 by simp
      note h = header_inv2 [OF assms(1) this]
      have "\<forall>a \<in> dom (mem s). core2 (mem ?s1) a = core2 (mem s) a" using f unfolding h(2) by auto
      with 1 cm h(1) pos show ?thesis
        by (intro exI [of _ NULL] exI [of _ ?s1] exI [of _ B]) simp
    next
      case 3: 2
      have b2: "nat (int (brk s + META) + int sz) = brk s + META + sz" by simp
      have "layout META ((core2 (mem s))(brk s \<mapsto> (sz, False))) (brk s + META + sz) (insert (brk s) B)"
        using layout_block [OF i(1)] 3(3) b2 by simp
      note h = header_inv2 [OF assms(1) this]
      have "handed_out (core2 (mem s)) (core2 (mem ?s1)) B (insert (brk s) B) sz (brk s)"
        using f h(2) layoutD(2) [OF i(1)] by (auto simp: handed_out_def)
      with 3 cm h(1) pos b2 show ?thesis
        by (intro exI [of _ "brk s + META"] exI [of _ "?s1\<lparr>brk := brk s + META + sz\<rparr>"] exI [of _ "insert (brk s) B"]) simp
    qed
  qed
qed


lemma smalloc_spec:
  assumes "inv2 s B fl"
  shows "\<exists>p s' B' fl'. smalloc grant sz s = Some (p, s') \<and> inv2 s' B' fl' \<and> data s' = data s \<and>
    (if p = NULL then B' = B \<and> (\<forall>a \<in> dom (mem s). core2 (mem s') a = core2 (mem s) a)
     else \<exists>b. p = b + META \<and> handed_out (core2 (mem s)) (core2 (mem s')) B B' sz b \<and>
       (\<forall>a. cfree (core2 (mem s)) a \<and> sz \<le> csize (core2 (mem s)) a \<longrightarrow> cfree (core2 (mem s)) b \<and> b \<le> a))"
proof (cases "sz = 0 \<or> sz > MAX_SIZE")
  case True
  with assms show ?thesis
    by (intro exI [of _ NULL] exI [of _ s] exI [of _ B] exI [of _ fl]) (simp add: smalloc_def)
next
  case False
  note i = inv2D [OF assms]
  let ?c = "core2 (mem s)"
  let ?rest = "dropWhile (\<lambda>b. csize ?c b < sz) fl"
  have ff: "find_fit s sz (free_list s) = Some (hd (?rest @ [NULL]))"
    using find_fit_chain [of s NULL fl sz] i(2) by (auto simp: chain_def)
  show ?thesis
  proof (cases ?rest)
    case Nil
    have "find_fit s sz (free_list s) = Some NULL" using ff unfolding Nil by simp
    then have e: "smalloc grant sz s = (let (new_metadata, s) = create_metadata_sbrk grant sz s in
           if new_metadata = NULL then Some (NULL, s)
           else case sbrk grant (int sz) (brk s) of
             (None, _) \<Rightarrow> Some (NULL, s)
           | (Some old_prog_brk, b) \<Rightarrow> Some (old_prog_brk, s\<lparr>brk := b\<rparr>))"
      using False by (simp add: smalloc_def)
    have "\<not> (cfree ?c a \<and> sz \<le> csize ?c a)" for a
      using Nil i(4) by (metis dropWhile_eq_Nil_conv linorder_not_le mem_Collect_eq)
    moreover obtain p s' B' where r: "smalloc grant sz s = Some (p, s')" "inv2 s' B' fl" "data s' = data s"
        "if p = NULL then B' = B \<and> (\<forall>a \<in> dom (mem s). core2 (mem s') a = core2 (mem s) a)
         else p = brk s + META \<and> handed_out ?c (core2 (mem s')) B B' sz (brk s)"
      using smalloc_sbrk [OF assms, of sz grant] False unfolding e by (meson linorder_not_le not_gr_zero)
    ultimately show ?thesis
      by (intro exI [of _ p] exI [of _ s'] exI [of _ B'] exI [of _ fl]) (auto split: if_splits)
  next
    case (Cons b ys)
    then obtain xs where x: "fl = xs @ b # ys" "\<forall>a \<in> set xs. csize ?c a < sz" "sz \<le> csize ?c b"
      by (rule first_fit_split)
    have b: "b \<noteq> NULL" "cfree ?c b" using chain_mem [OF i(2), of b] i(4) x(1) by auto
    then have bB: "b \<in> B" using layoutD(10) [OF i(1)] by auto
    obtain s' where r: "do { s \<leftarrow> upd b (m_free_update (\<lambda>_. False)) s; s \<leftarrow> remove_node b s; m \<leftarrow> ld b s;
      Some (b + META, s\<lparr>free_bytes_num := sz_sub (free_bytes_num s) (m_size m),
        free_blocks_num := sz_sub (free_blocks_num s) 1\<rparr>) } = Some (b + META, s')"
      "inv2 s' B (xs @ ys)" "data s' = data s" "core2 (mem s') = ?c(b \<mapsto> (csize ?c b, False))"
      using take_inv2 [OF assms [unfolded x(1)]] by blast
    have "smalloc grant sz s = Some (b + META, s')"
      using False ff Cons b(1) r(1) list_is_empty_chain [OF i(2)] x(1) by (simp add: smalloc_def)
    moreover have "handed_out ?c (core2 (mem s')) B B sz b"
      unfolding handed_out_def r(4) using bB b(2) x(3) by auto
    moreover have "b \<le> a" if "cfree ?c a \<and> sz \<le> csize ?c a" for a
    proof -
      have "a \<in> set (b # ys)" using that x(1,2) i(4) by (metis UnE linorder_not_le mem_Collect_eq set_append)
      then show ?thesis using i(3) x(1) by (auto simp: sorted_wrt_append)
    qed
    ultimately show ?thesis using r(2,3) b
      by (intro exI [of _ "b + META"] exI [of _ s'] exI [of _ B] exI [of _ "xs @ ys"]) auto
  qed
qed

lemma sorted_insert_place:
  assumes "sorted_wrt (<) fl" "b \<notin> set fl"
  shows "sorted_wrt (<) (takeWhile (\<lambda>a. a \<le> b) fl @ (b :: nat) # dropWhile (\<lambda>a. a \<le> b) fl)"
  using assms by (induction fl) (auto dest: set_takeWhileD set_dropWhileD)

text \<open>The counters after a release: a free list that is one block longer.\<close>

lemma count_released:
  assumes "layout META c' br B" "set fl' = {a. cfree c' a}" "distinct fl'" "length fl' = length fl + 1"
    and "(\<Sum>a \<in> set fl'. csize c' a) = n + t"
  shows "sz_add (length fl) 1 = length fl'" "sz_add t n = (\<Sum>a \<in> set fl'. csize c' a)"
proof -
  have "card (set fl') \<le> card (dom c')" using layoutD(1,2,10) [OF assms(1)] assms(2) by (intro card_mono) auto
  then have "length fl' < SIZE_MOD"
    using layout_card [OF assms(1)] layoutD(6) [OF assms(1)] distinct_card [OF assms(3)] by simp
  then show "sz_add (length fl) 1 = length fl'" unfolding assms(4) by (simp add: sz_add_exact)
  have "(\<Sum>a \<in> set fl'. csize c' a) < SIZE_MOD"
    using layout_sum [OF assms(1) layoutD(10) [OF assms(1)]] layoutD(6) [OF assms(1)] unfolding assms(2) by linarith
  then show "sz_add t n = (\<Sum>a \<in> set fl'. csize c' a)" unfolding assms(5) by (simp add: sz_add_exact add.commute)
qed

lemma give_inv2:
  assumes "inv2 s B fl" "b \<in> B" "\<not> cfree (core2 (mem s)) b"
  shows "\<exists>s' fl'. sfree (b + META) s = Some s' \<and> inv2 s' B fl' \<and> brk s' = brk s \<and> data s' = data s \<and>
    core2 (mem s') = (core2 (mem s))(b \<mapsto> (csize (core2 (mem s)) b, True))"
proof -
  note i = inv2D [OF assms(1)]
  let ?c = "core2 (mem s)" and ?n = "csize (core2 (mem s)) b"
  have bd: "b \<in> dom (mem s)" using layoutD(2) [OF i(1)] assms(2) by auto
  then have b: "b \<noteq> NULL" using i(2) by (metis chain_def)
  obtain x where x: "mem s b = Some x" using bd by blast
  have xf: "m_size x = ?n" "\<not> m_free x" using x assms(3) by (simp_all add: csize_def cfree_def core2_def)
  let ?xs = "takeWhile (\<lambda>a. a \<le> b) fl" let ?ys = "dropWhile (\<lambda>a. a \<le> b) fl"
  have fl: "fl = ?xs @ ?ys" by simp
  have fp: "find_place s b (free_list s) NULL = Some (last (NULL # ?xs))"
    using find_place_chain [of s NULL fl b NULL] i(2) by (auto simp: chain_def)
  have nb: "b \<notin> set fl" using i(4) assms(3) by simp
  let ?s0 = "s\<lparr>free_blocks_num := sz_add (free_blocks_num s) 1, free_bytes_num := sz_add (free_bytes_num s) ?n\<rparr>"
  let ?s1 = "?s0\<lparr>mem := put b (m_free_update (\<lambda>_. True)) (mem s)\<rparr>"
  have ch: "chain ?s1 (?xs @ ?ys)" using chain_put_free [of ?s0 fl] i(2) fl by (simp add: chain_def)
  obtain m where m: "add_node b (last (NULL # ?xs)) ?s1 = Some (?s1\<lparr>mem := m, free_list := hd (?xs @ [b])\<rparr>)"
      "core2 m = core2 (mem ?s1)" "chain (?s1\<lparr>mem := m, free_list := hd (?xs @ [b])\<rparr>) (?xs @ b # ?ys)"
    using add_node_chain [OF ch, of b] nb bd by auto
  let ?s' = "?s1\<lparr>mem := m, free_list := hd (?xs @ [b])\<rparr>" and ?fl = "?xs @ b # ?ys"
  have c: "core2 m = ?c(b \<mapsto> (?n, True))" using m(2) core2_flag(1) [OF bd] by simp
  then have dm: "dom m = dom (mem s)" using bd dom_core2 [of m] by auto
  have cs: "csize (core2 m) = csize ?c"
    using sum_csize_flag [of ?c b] core2_flag(2) [OF bd] unfolding c by blast
  have u: "upd b (m_free_update (\<lambda>_. True)) ?s0 = Some ?s1" using upd_eq2 [of b ?s0] b bd by simp
  have l: "layout META (core2 m) (brk s) B"
    unfolding c using layout_flag [OF i(1) assms(2) core2_flag(2) [OF bd]] .
  have sfl: "set ?fl = insert b (set fl)" by (subst (3) fl) (simp only: set_append list.set Un_insert_right)
  have fs: "set ?fl = {a. cfree (core2 m) a}" unfolding sfl i(4) c cfree_upd by auto
  have lf: "length ?fl = length fl + 1" using arg_cong [OF fl, of length] unfolding length_append by simp
  have sm: "(\<Sum>a \<in> set ?fl. csize (core2 m) a) = ?n + (\<Sum>a \<in> set fl. csize ?c a)"
    unfolding sfl cs using nb by simp
  have "distinct ?fl" using m(3) by (simp add: chain_def)
  note k = count_released [OF l fs this lf sm]
  have "inv2 ?s' B ?fl"
    unfolding inv2_def using l m(3) fs k i(5-9) sorted_insert_place [OF i(3) nb] by (simp add: dm cs)
  moreover have "sfree (b + META) s = Some ?s'"
    using b x xf fp u m(1) by (simp add: sfree_def Let_def ld_eq2 META_def)
  ultimately show ?thesis using c by (intro exI [of _ ?s'] exI [of _ ?fl]) simp
qed

lemma inv2_data [simp]: "inv2 (s\<lparr>data := d\<rparr>) B fl = inv2 s B fl"
  by (simp add: inv2_def chain_def)

lemma handed_out_keeps:
  assumes "handed_out c c' B B' sz b" "a \<in> B" "\<not> cfree c a" "B \<subseteq> dom c"
  shows "a \<noteq> b" "a \<in> B'" "c' a = c a" "csize c' a = csize c a" "cfree c' a = cfree c a"
proof -
  show n: "a \<noteq> b" "a \<in> B'" using assms by (auto simp: handed_out_def)
  show e: "c' a = c a" using assms n by (auto simp: handed_out_def)
  show "csize c' a = csize c a" "cfree c' a = cfree c a" using e by (simp_all add: csize_def cfree_def)
qed

subsection \<open>Properties\<close>

text \<open>
  C12. Second allocator, allocation: \<open>smalloc\<close> always ends, meets no invalid pointer and keeps the
  invariant. Unless it returns \<open>NULL\<close> it hands out a block that was not in use, with room for the request
  and disjoint from every block in use, none of which changes; if a free block fits, it is the one with the
  lowest address.
\<close>

theorem smalloc_allocates:
  assumes "inv2 s B fl"
  shows "\<exists>p s' B' fl'. smalloc grant sz s = Some (p, s') \<and> inv2 s' B' fl' \<and> data s' = data s \<and>
    (p \<noteq> NULL \<longrightarrow> (\<exists>b. p = b + META \<and> b \<in> B' \<and> (b \<in> B \<longrightarrow> cfree (core2 (mem s)) b) \<and>
       \<not> cfree (core2 (mem s')) b \<and> sz \<le> csize (core2 (mem s')) b \<and>
       (\<forall>a. cfree (core2 (mem s)) a \<and> sz \<le> csize (core2 (mem s)) a \<longrightarrow> cfree (core2 (mem s)) b \<and> b \<le> a) \<and>
       (\<forall>a \<in> B. \<not> cfree (core2 (mem s)) a \<longrightarrow> core2 (mem s') a = core2 (mem s) a \<and>
          region META (core2 (mem s')) a \<inter> region META (core2 (mem s')) b = {})))"
proof -
  let ?c = "core2 (mem s)"
  obtain p s' B' fl' where r: "smalloc grant sz s = Some (p, s')" "inv2 s' B' fl'" "data s' = data s"
      "if p = NULL then B' = B \<and> (\<forall>a \<in> dom (mem s). core2 (mem s') a = ?c a)
       else \<exists>b. p = b + META \<and> handed_out ?c (core2 (mem s')) B B' sz b \<and>
         (\<forall>a. cfree ?c a \<and> sz \<le> csize ?c a \<longrightarrow> cfree ?c b \<and> b \<le> a)"
    using smalloc_spec [OF assms, of grant sz] by blast
  have dis: "core2 (mem s') a = ?c a \<and> region META (core2 (mem s')) a \<inter> region META (core2 (mem s')) b = {}"
    if "handed_out ?c (core2 (mem s')) B B' sz b" "a \<in> B" "\<not> cfree ?c a" for a b
  proof -
    have "B \<subseteq> dom ?c" "b \<in> B'" using layoutD(2) [OF inv2D(1) [OF assms]] that(1) by (auto simp: handed_out_def)
    note k = handed_out_keeps [OF that this(1)]
    have "region META (core2 (mem s')) b \<subseteq> {b ..< b + META + csize (core2 (mem s')) b}" by (auto simp: region_def)
    with layout_disjoint [OF inv2D(1) [OF r(2)] k(2) \<open>b \<in> B'\<close> k(1)] k(3) show ?thesis by blast
  qed
  show ?thesis
  proof (cases "p = NULL")
    case False
    then obtain b where b: "p = b + META" "handed_out ?c (core2 (mem s')) B B' sz b"
        "\<forall>a. cfree ?c a \<and> sz \<le> csize ?c a \<longrightarrow> cfree ?c b \<and> b \<le> a" using r(4) by auto
    have "b \<in> B'" "b \<in> B \<longrightarrow> cfree ?c b" "\<not> cfree (core2 (mem s')) b" "sz \<le> csize (core2 (mem s')) b"
      using b(2) unfolding handed_out_def by blast+
    with r(1-3) b dis [OF b(2)] show ?thesis by blast
  qed (use r(1-3) in blast)
qed

definition always :: grant where
  "always = (\<lambda>_ _. True)"

text \<open>The state after the first call \<open>smalloc(40)\<close> with the break at 4096.\<close>

definition one2 :: alloc2 where
  "one2 = \<lparr>mem = [4096 \<mapsto> \<lparr>m_size = 40, m_free = False, m_next = NULL, m_prev = NULL\<rparr>], free_list = NULL,
     free_blocks_num = 0, free_bytes_num = 0, num_of_metadatas = 1, num_allocated_blocks = 1,
     num_allocated_bytes = 40, brk = 4168, data = (\<lambda>_. 0)\<rparr>"

lemma smalloc_first: "smalloc always 40 (init2 4096) = Some (4128, one2)"
  by (subst smalloc_def, subst find_fit.simps)
    (simp add: init2_def one2_def MAX_SIZE_def META_def list_is_empty_def create_metadata_sbrk_def
      smalloc_naive_def sbrk_def always_def SIZE_MOD_def sz_add_def)

lemma one2_inv: "inv2 one2 {4096} []"
  by (auto simp: inv2_def one2_def layout_def chain_def core2_def csize_def cfree_def META_def SIZE_MOD_def
      split: if_splits)

lemma one2_block: "csize (core2 (mem one2)) 4096 = 40" "\<not> cfree (core2 (mem one2)) 4096"
  by (simp_all add: one2_def csize_def cfree_def core2_def)

theorem smalloc_allocates_witness:
  "\<exists>s' B' fl'. smalloc always 40 (init2 4096) = Some (4128, s') \<and> inv2 s' B' fl'"
proof -
  have "inv2 (init2 4096) {} []" by (rule inv2_init) (simp_all add: SIZE_MOD_def)
  from smalloc_allocates [OF this, of always 40] show ?thesis using smalloc_first by auto
qed

text \<open>
  Second allocator, release: \<open>sfree\<close> of a block in use ends, keeps the invariant and the bytes, and frees
  exactly that block; releasing it again, or releasing \<open>NULL\<close>, changes nothing.
\<close>

theorem sfree_releases:
  assumes "inv2 s B fl" "b \<in> B" "\<not> cfree (core2 (mem s)) b"
  shows "\<exists>s' fl'. sfree (b + META) s = Some s' \<and> inv2 s' B fl' \<and> data s' = data s \<and>
    core2 (mem s') = (core2 (mem s))(b \<mapsto> (csize (core2 (mem s)) b, True)) \<and>
    sfree (b + META) s' = Some s' \<and> sfree NULL s' = Some s'"
proof -
  obtain s' fl' where r: "sfree (b + META) s = Some s'" "inv2 s' B fl'" "data s' = data s"
      "core2 (mem s') = (core2 (mem s))(b \<mapsto> (csize (core2 (mem s)) b, True))"
    using give_inv2 [OF assms] by blast
  have "b \<in> dom (mem s')" "b \<noteq> NULL"
    using layoutD(2,3) [OF inv2D(1) [OF r(2)]] assms(2) dom_core2 [of "mem s'"] by (metis subsetD)+
  moreover then obtain x where "mem s' b = Some x" by blast
  moreover then have "m_free x" using r(4) core2_Some [of "mem s'" b x] by simp
  ultimately have "sfree (b + META) s' = Some s'" by (simp add: sfree_def ld_eq2 META_def)
  then show ?thesis using r by (auto simp: sfree_def)
qed

theorem sfree_releases_witness:
  "\<exists>s'. sfree 4128 one2 = Some s' \<and> cfree (core2 (mem s')) 4096 \<and> sfree 4128 s' = Some s'"
proof -
  have "(4096 :: addr) \<in> {4096}" by simp
  from sfree_releases [OF one2_inv this one2_block(2)] show ?thesis by (auto simp: META_def)
qed

text \<open>A copy into a block that was just handed out changes no byte of the blocks that were in use before.\<close>

lemma copied_others:
  assumes "handed_out c c1 B B1 sz d" "layout META c1 k B1" "a \<in> B" "\<not> cfree c a" "B \<subseteq> dom c" "n \<le> sz" "u \<in> region META c a"
  shows "memmove (d + META) src n dt u = dt u"
proof -
  note ka = handed_out_keeps [OF assms(1,3-5)]
  have dd: "d \<in> B1" "sz \<le> csize c1 d" using assms(1) by (auto simp: handed_out_def)
  have "region META c1 a \<inter> {d ..< d + META + csize c1 d} = {}" by (rule layout_disjoint [OF assms(2) ka(2) dd(1) ka(1)])
  moreover have "u \<in> region META c1 a" using assms(7) ka(4) by (simp add: region_def)
  ultimately have "u < d + META \<or> d + META + n \<le> u" using dd(2) assms(6) by auto
  then show ?thesis by (simp add: memmove_frame)
qed

text \<open>The third branch of \<open>srealloc\<close>: the bytes of \<open>b\<close> are copied into a block just handed out, and \<open>b\<close> is released.\<close>

lemma move_block:
  fixes s s1 :: alloc2
  assumes "inv2 s B fl" "b \<in> B" "\<not> cfree (core2 (mem s)) b" "csize (core2 (mem s)) b < sz"
    "inv2 s1 B1 fl1" "data s1 = data s" "handed_out (core2 (mem s)) (core2 (mem s1)) B B1 sz d"
  defines "c \<equiv> core2 (mem s)"
  shows "\<exists>s' fl'. sfree (b + META) (s1\<lparr>data := memmove (d + META) (b + META) (csize c b) (data s1)\<rparr>) = Some s' \<and> inv2 s' B1 fl' \<and>
    d \<in> B1 \<and> \<not> cfree (core2 (mem s')) d \<and> sz \<le> csize (core2 (mem s')) d \<and>
    (\<forall>i < csize c b. data s' (d + META + i) = data s (b + META + i)) \<and>
    (\<forall>a \<in> B. a \<noteq> b \<and> \<not> cfree c a \<longrightarrow> core2 (mem s') a = c a \<and> (\<forall>x \<in> region META c a. data s' x = data s x))"
proof -
  let ?s2 = "s1\<lparr>data := memmove (d + META) (b + META) (csize c b) (data s1)\<rparr>"
  have dc: "B \<subseteq> dom c" using layoutD(2) [OF inv2D(1) [OF assms(1)]] by (simp add: c_def)
  note h = assms(7) [folded c_def] and u = assms(3) [folded c_def]
  note k = handed_out_keeps [OF h assms(2) u dc]
  have i2: "inv2 ?s2 B1 fl1" using assms(5) by simp
  obtain s' fl' where f: "sfree (b + META) ?s2 = Some s'" "inv2 s' B1 fl'" "data s' = data ?s2"
      "core2 (mem s') = (core2 (mem s1))(b \<mapsto> (csize (core2 (mem s1)) b, True))"
    using give_inv2 [OF i2, of b] k u by auto
  have dd: "d \<in> B1" "\<not> cfree (core2 (mem s1)) d" "sz \<le> csize (core2 (mem s1)) d" using h by (auto simp: handed_out_def)
  have db: "d \<noteq> b" using k(1) by simp
  then have d': "\<not> cfree (core2 (mem s')) d" "sz \<le> csize (core2 (mem s')) d" using dd f(4) by (simp_all add: cfree_def csize_def)
  have others: "core2 (mem s') a = c a \<and> (\<forall>x \<in> region META c a. data s' x = data s x)"
    if a: "a \<in> B" "a \<noteq> b" "\<not> cfree c a" for a
    using handed_out_keeps(3) [OF h a(1,3) dc] a(2) f(3,4) assms(4,6) copied_others [OF h inv2D(1) [OF assms(5)] a(1,3) dc]
    by (simp add: c_def)
  have "data s' (d + META + i) = data s (b + META + i)" if "i < csize c b" for i
    using that f(3) assms(6) by (simp add: memmove_copies)
  then show ?thesis using f(1,2) dd(1) d' others by blast
qed

text \<open>
  C13. Second allocator, reallocation: for a block in use and a legal size, \<open>srealloc\<close> ends and keeps the
  invariant. It returns \<open>NULL\<close>, and the old block keeps its bytes and stays in use; or a
  block in use with room for the request that starts with the bytes of the old one. No other block in use
  loses a byte.
\<close>

theorem srealloc_copies:
  assumes "inv2 s B fl" "b \<in> B" "\<not> cfree (core2 (mem s)) b" "0 < sz" "sz \<le> MAX_SIZE"
  shows "\<exists>p s' B' fl'. srealloc grant (b + META) sz s = Some (p, s') \<and> inv2 s' B' fl' \<and>
    (if p = NULL then data s' = data s \<and> core2 (mem s') b = core2 (mem s) b
     else \<exists>d. p = d + META \<and> d \<in> B' \<and> \<not> cfree (core2 (mem s')) d \<and> sz \<le> csize (core2 (mem s')) d \<and>
       (\<forall>i < min sz (csize (core2 (mem s)) b). data s' (p + i) = data s (b + META + i))) \<and>
    (\<forall>a \<in> B. a \<noteq> b \<and> \<not> cfree (core2 (mem s)) a \<longrightarrow> core2 (mem s') a = core2 (mem s) a \<and>
       (\<forall>x \<in> region META (core2 (mem s)) a. data s' x = data s x))"
proof -
  let ?c = "core2 (mem s)" and ?n = "csize (core2 (mem s)) b"
  note i = inv2D [OF assms(1)]
  have dc: "B \<subseteq> dom ?c" using layoutD(2) [OF i(1)] .
  have bn: "b \<noteq> NULL" "b \<in> dom (mem s)" using dc layoutD(3) [OF i(1)] assms(2) by (metis dom_core2 subsetD)+
  then obtain x where x: "mem s b = Some x" "m_size x = ?n" by (auto simp: csize_def core2_def)
  note run = bn x assms(4) leD [OF assms(5)] srealloc_def Let_def ld_eq2 META_def
  obtain p s1 B1 fl1 where r: "smalloc grant sz s = Some (p, s1)" "inv2 s1 B1 fl1" "data s1 = data s"
      "if p = NULL then B1 = B \<and> (\<forall>a \<in> dom (mem s). core2 (mem s1) a = ?c a)
       else \<exists>d. p = d + META \<and> handed_out ?c (core2 (mem s1)) B B1 sz d \<and>
         (\<forall>a. cfree ?c a \<and> sz \<le> csize ?c a \<longrightarrow> cfree ?c d \<and> d \<le> a)"
    using smalloc_spec [OF assms(1), of grant sz] by blast
  consider "sz \<le> ?n" | "?n < sz" "p = NULL" | "?n < sz" "p \<noteq> NULL" by linarith
  then show ?thesis
  proof cases
    case 1
    then have "srealloc grant (b + META) sz s = Some (b + META, s)" by (simp add: run)
    with assms 1 bn show ?thesis by (intro exI [of _ "b + META"] exI [of _ s] exI [of _ B] exI [of _ fl]) auto
  next
    case 2
    then have "srealloc grant (b + META) sz s = Some (NULL, s1)" using r(1) by (simp add: run)
    moreover have "core2 (mem s1) a = ?c a" if "a \<in> B" for a using r(4) 2 that dc by auto
    ultimately show ?thesis using r(2,3) assms(2)
      by (intro exI [of _ NULL] exI [of _ s1] exI [of _ B1] exI [of _ fl1]) auto
  next
    case 3
    then obtain d where d: "p = d + META" "handed_out ?c (core2 (mem s1)) B B1 sz d" using r(4) by auto
    obtain y where y: "mem s1 b = Some y" "m_size y = ?n"
      using handed_out_keeps(3) [OF d(2) assms(2,3) dc] x by (auto simp: core2_def split: option.splits)
    from move_block [OF assms(1-3) 3(1) r(2,3) d(2)] obtain s' fl' where
      "sfree (b + META) (s1\<lparr>data := memmove p (b + META) ?n (data s1)\<rparr>) = Some s'" and post: "inv2 s' B1 fl'"
      "d \<in> B1" "\<not> cfree (core2 (mem s')) d" "sz \<le> csize (core2 (mem s')) d"
      "\<forall>i < ?n. data s' (p + i) = data s (b + META + i)"
      "\<forall>a \<in> B. a \<noteq> b \<and> \<not> cfree ?c a \<longrightarrow> core2 (mem s') a = ?c a \<and> (\<forall>x \<in> region META ?c a. data s' x = data s x)"
      unfolding d(1) by blast
    then have "srealloc grant (b + META) sz s = Some (p, s')" using 3 r(1) y by (simp add: run min_absorb2)
    then show ?thesis using post 3 d(1)
      by (intro exI [of _ p] exI [of _ s'] exI [of _ B1] exI [of _ fl']) (auto simp: min_absorb2)
  qed
qed
theorem srealloc_copies_witness:
  "\<exists>p s'. srealloc always 4128 100 one2 = Some (p, s') \<and>
     (p = NULL \<or> (\<forall>i < min 100 40. data s' (p + i) = data one2 (4128 + i)))"
proof -
  have "(4096 :: addr) \<in> {4096}" "(0 :: sz) < 100" "100 \<le> MAX_SIZE" by (simp_all add: MAX_SIZE_def)
  from srealloc_copies [OF one2_inv this(1) one2_block(2) this(2,3), of always]
  obtain p s' where "srealloc always (4096 + META) 100 one2 = Some (p, s')"
    "p = NULL \<or> (\<forall>i < min 100 (csize (core2 (mem one2)) 4096). data s' (p + i) = data one2 (4096 + META + i))"
    by (metis (no_types, lifting))
  then show ?thesis unfolding one2_block by (auto simp: META_def)
qed

text \<open>
  Second allocator, zeroed memory: when the product of the arguments does not wrap, \<open>scalloc\<close> ends and
  keeps the invariant, and a block that it returns holds \<open>num * size\<close> zero bytes.
\<close>

theorem scalloc_zeroes:
  assumes "inv2 s B fl" "num * sz < SIZE_MOD"
  shows "\<exists>p s' B' fl'. scalloc grant num sz s = Some (p, s') \<and> inv2 s' B' fl' \<and>
    (p \<noteq> NULL \<longrightarrow> (\<exists>b \<in> B'. p = b + META \<and> num * sz \<le> csize (core2 (mem s')) b \<and>
       (\<forall>i < num * sz. data s' (p + i) = 0)))"
proof -
  have m: "sz_mul num sz = num * sz" using assms(2) by (rule sz_mul_exact)
  obtain p s' B' fl' where r: "smalloc grant (num * sz) s = Some (p, s')" "inv2 s' B' fl'"
      "if p = NULL then B' = B \<and> (\<forall>a \<in> dom (mem s). core2 (mem s') a = core2 (mem s) a)
       else \<exists>b. p = b + META \<and> handed_out (core2 (mem s)) (core2 (mem s')) B B' (num * sz) b \<and>
         (\<forall>a. cfree (core2 (mem s)) a \<and> num * sz \<le> csize (core2 (mem s)) a \<longrightarrow> cfree (core2 (mem s)) b \<and> b \<le> a)"
    using smalloc_spec [OF assms(1), of grant "num * sz"] by blast
  show ?thesis
  proof (cases "p = NULL")
    case True
    then show ?thesis using r(1,2) m
      by (intro exI [of _ NULL] exI [of _ s'] exI [of _ B'] exI [of _ fl']) (simp add: scalloc_def)
  next
    case False
    then obtain b where b: "p = b + META" "handed_out (core2 (mem s)) (core2 (mem s')) B B' (num * sz) b"
      using r(3) by auto
    let ?s = "s'\<lparr>data := memset0 p (num * sz) (data s')\<rparr>"
    have "scalloc grant num sz s = Some (p, ?s)" using r(1) m False by (simp add: scalloc_def)
    moreover have "inv2 ?s B' fl'" using r(2) by simp
    moreover have "b \<in> B'" "num * sz \<le> csize (core2 (mem ?s)) b" using b(2) by (simp_all add: handed_out_def)
    moreover have "\<forall>i < num * sz. data ?s (p + i) = 0" by (simp add: memset0_def)
    ultimately show ?thesis using b(1) by blast
  qed
qed

theorem scalloc_zeroes_witness:
  "\<exists>p s'. scalloc always 10 4 one2 = Some (p, s') \<and> (p = NULL \<or> (\<forall>i < 40. data s' (p + i) = 0))"
proof -
  have "(10 :: sz) * 4 < SIZE_MOD" by (simp add: SIZE_MOD_def)
  from scalloc_zeroes [OF one2_inv this, of always]
  obtain p s' where e: "scalloc always 10 4 one2 = Some (p, s')" "p \<noteq> NULL \<longrightarrow> (\<forall>i < 10 * 4. data s' (p + i) = 0)"
    by (metis (no_types, lifting))
  have "(10 :: sz) * 4 = 40" by simp
  with e show ?thesis by metis
qed

text \<open>
  The product in \<open>scalloc\<close> wraps: a request for \<open>(2^62 + 10) * 4\<close> bytes returns a block of 40 bytes.
\<close>

theorem scalloc_wraps:
  "\<exists>s'. scalloc always (2 ^ 62 + 10) 4 (init2 4096) = Some (4128, s') \<and> csize (core2 (mem s')) 4096 = 40"
proof -
  have m: "sz_mul (2 ^ 62 + 10) 4 = 40" by (simp add: sz_mul_def SIZE_MOD_def)
  show ?thesis
    unfolding scalloc_def m smalloc_first using one2_block(1) by simp
qed

text \<open>
  Failed allocations are counted: when the second \<open>sbrk\<close> fails, \<open>smalloc\<close> returns \<open>NULL\<close> but the
  statistics report an allocated block with its bytes.
\<close>

theorem smalloc_failure_counted:
  "\<exists>s'. smalloc (\<lambda>_ n. n = 32) 40 (init2 4096) = Some (NULL, s') \<and>
     num_allocated_blocks s' = 1 \<and> num_allocated_bytes s' = 40 \<and> brk s' = 4128"
  by (subst smalloc_def, subst find_fit.simps)
    (simp add: init2_def MAX_SIZE_def META_def list_is_empty_def create_metadata_sbrk_def
      smalloc_naive_def sbrk_def SIZE_MOD_def sz_add_def)

subsection \<open>The allocator contract\<close>

definition used2 :: "alloc2 \<Rightarrow> addr set \<Rightarrow> addr set" where
  "used2 s B = {b \<in> B. \<not> cfree (core2 (mem s)) b}"

definition heap2 :: "alloc2 \<Rightarrow> blocks \<Rightarrow> bool" where
  "heap2 s h \<longleftrightarrow> (\<exists>B fl. inv2 s B fl \<and> h = contents META (csize (core2 (mem s))) (data s) (used2 s B))"

lemma heap2I: "inv2 s B fl \<Longrightarrow> heap2 s (contents META (csize (core2 (mem s))) (data s) (used2 s B))"
  by (auto simp: heap2_def)

lemma no_null2: "inv2 s B fl \<Longrightarrow> NULL \<notin> used2 s B"
  using layoutD(2,3) [OF inv2D(1)] unfolding used2_def by blast

lemma heap2_disjoint:
  assumes "heap2 s h" "h p = Some v" "h q = Some w" "p \<noteq> q"
  shows "{p ..< p + length v} \<inter> {q ..< q + length w} = {}"
proof -
  let ?n = "csize (core2 (mem s))"
  obtain B fl where i: "inv2 s B fl" and h: "h = contents META ?n (data s) (used2 s B)"
    using assms(1) by (auto simp: heap2_def)
  note n = no_null2 [OF i]
  note p = contents_Some [OF assms(2) [unfolded h] n] and q = contents_Some [OF assms(3) [unfolded h] n]
  have "p - META \<in> B" "q - META \<in> B" "p - META \<noteq> q - META"
    using p(1,2) q(1,2) assms(4) by (auto simp: used2_def)
  from layout_disjoint [OF inv2D(1) [OF i] this] p(1) q(1)
  have "{p ..< p + ?n (p - META)} \<inter> {q - META ..< q + ?n (q - META)} = {}" by (simp add: region_def)
  moreover have "{p ..< p + length v} \<subseteq> {p ..< p + ?n (p - META)}"
    "{q ..< q + length w} \<subseteq> {q - META ..< q + ?n (q - META)}"
    unfolding p(3) q(3) by auto
  ultimately show ?thesis by blast
qed

lemma heap2_alloc:
  assumes "heap2 s h"
  shows "\<exists>p s' h'. smalloc grant n s = Some (p, s') \<and> heap2 s' h' \<and>
    (if p = NULL then h' = h else h p = None \<and> (\<exists>v. n \<le> length v \<and> h' = h(p \<mapsto> v)))"
proof -
  let ?c = "core2 (mem s)"
  obtain B fl where i: "inv2 s B fl" and h: "h = contents META (csize ?c) (data s) (used2 s B)"
    using assms(1) by (auto simp: heap2_def)
  obtain p s' B' fl' where r: "smalloc grant n s = Some (p, s')" "inv2 s' B' fl'" "data s' = data s"
      "if p = NULL then B' = B \<and> (\<forall>a \<in> dom (mem s). core2 (mem s') a = ?c a)
       else \<exists>b. p = b + META \<and> handed_out ?c (core2 (mem s')) B B' n b \<and>
         (\<forall>a. cfree ?c a \<and> n \<le> csize ?c a \<longrightarrow> cfree ?c b \<and> b \<le> a)"
    using smalloc_spec [OF i, of grant n] by blast
  let ?h' = "contents META (csize (core2 (mem s'))) (data s') (used2 s' B')"
  have h': "heap2 s' ?h'" using r(2) by (auto simp: heap2_def)
  have dm: "dom ?c = dom (mem s)" by (auto simp: core2_def)
  have Bd: "B \<subseteq> dom ?c" using layoutD(2) [OF inv2D(1) [OF i]] .
  have eq: "csize (core2 (mem s')) a = csize ?c a" "cfree (core2 (mem s')) a = cfree ?c a" if "core2 (mem s') a = ?c a" for a
    using that by (simp_all add: csize_def cfree_def)
  show ?thesis
  proof (cases "p = NULL")
    case True
    then have k: "B' = B" "\<And>a. a \<in> B \<Longrightarrow> core2 (mem s') a = ?c a" using r(4) Bd dm by auto
    then have "used2 s' B' = used2 s B" using eq(2) by (auto simp: used2_def)
    moreover have "contents META (csize (core2 (mem s'))) (data s') (used2 s B) = h"
      unfolding h r(3) by (rule contents_same [OF no_null2 [OF i]]) (use k eq(1) in \<open>auto simp: used2_def\<close>)
    ultimately show ?thesis using True r(1) h' by auto
  next
    case False
    then obtain b where b: "p = b + META" "handed_out ?c (core2 (mem s')) B B' n b" using r(4) by auto
    then have k: "B' = insert b B" "b \<in> B \<Longrightarrow> cfree ?c b" "\<not> cfree (core2 (mem s')) b" "n \<le> csize (core2 (mem s')) b"
        "\<And>a. a \<in> B \<Longrightarrow> a \<noteq> b \<Longrightarrow> core2 (mem s') a = ?c a"
      using Bd by (auto simp: handed_out_def)
    have bn: "b \<notin> used2 s B" using k(2) by (auto simp: used2_def)
    have u: "used2 s' B' = insert b (used2 s B)" using k eq(2) by (auto simp: used2_def)
    have nn: "NULL \<notin> insert b (used2 s B)" using no_null2 [OF r(2)] u by simp
    have "contents META (csize (core2 (mem s'))) (data s') (used2 s B) = h"
      unfolding h r(3) by (rule contents_same) (use nn bn k(5) eq(1) in \<open>auto simp: used2_def\<close>)
    then have "?h' = h(p \<mapsto> map (data s') [p ..< p + csize (core2 (mem s')) b])" using contents_new [OF nn] b(1) u by simp
    moreover have "n \<le> length (map (data s') [p ..< p + csize (core2 (mem s')) b])" using k(4) by simp
    ultimately have "\<exists>v. n \<le> length v \<and> ?h' = h(p \<mapsto> v)" by blast
    moreover have "h p = None" unfolding h using b(1) bn by (simp add: contents_def)
    ultimately show ?thesis using False r(1) h' by (intro exI [of _ p] exI [of _ s'] exI [of _ ?h']) simp
  qed
qed

lemma heap2_free:
  assumes "heap2 s h" "h p \<noteq> None"
  shows "\<exists>s'. sfree p s = Some s' \<and> heap2 s' (h(p := None))"
proof -
  let ?c = "core2 (mem s)"
  obtain B fl where i: "inv2 s B fl" and h: "h = contents META (csize ?c) (data s) (used2 s B)"
    using assms(1) by (auto simp: heap2_def)
  obtain v where "h p = Some v" using assms(2) by blast
  note p = contents_Some [OF this [unfolded h] no_null2 [OF i]]
  define b where "b = p - META"
  have pb: "p = b + META" and b: "b \<in> B" "\<not> cfree ?c b" using p(1,2) by (simp_all add: b_def used2_def)
  obtain s' fl' where s': "sfree p s = Some s'" "inv2 s' B fl'" "data s' = data s"
      "core2 (mem s') = ?c(b \<mapsto> (csize ?c b, True))"
    using give_inv2 [OF i b] pb by blast
  have u: "used2 s' B = used2 s B - {b}" unfolding used2_def s'(4) by (auto simp: cfree_def)
  have "contents META (csize (core2 (mem s'))) (data s') (used2 s B - {b}) = h(p := None)"
    unfolding h pb s'(3) s'(4) by (rule contents_del [OF no_null2 [OF i]]) (auto simp: csize_def)
  then show ?thesis using s'(1,2) u unfolding heap2_def by metis
qed

interpretation m2: allocator heap2 "\<lambda>_. True" "smalloc grant" sfree "\<lambda>_ _. True" for grant
proof
  show "h NULL = None" if "heap2 s h" for s h
    using that no_null2 by (auto simp: heap2_def contents_def)
qed (rule heap2_disjoint heap2_alloc heap2_free; assumption)+

text \<open>
  Second allocator, refinement: seen by a client, releasing the block that \<open>smalloc\<close> has just
  returned gives back the heap before the request: the same blocks in use, at the same places, with the same bytes.
\<close>

theorem sfree2_undoes_smalloc:
  assumes "heap2 s h" "smalloc grant n s = Some (p, s')" "p \<noteq> NULL"
  shows "\<exists>s''. sfree p s' = Some s'' \<and> heap2 s'' h"
  using m2.release_undoes_alloc [OF assms(1) _ assms(2,3)] by blast

theorem sfree2_undoes_smalloc_witness:
  "\<exists>s' s'' h. smalloc always 40 (init2 4096) = Some (4128, s') \<and> sfree 4128 s' = Some s'' \<and> heap2 (init2 4096) h \<and> heap2 s'' h"
proof -
  have "inv2 (init2 4096) {} []" by (rule inv2_init) (simp_all add: SIZE_MOD_def)
  then obtain h where h: "heap2 (init2 4096) h" using heap2I by metis
  have "(4128 :: addr) \<noteq> NULL" by simp
  from sfree2_undoes_smalloc [OF h smalloc_first this] h show ?thesis using smalloc_first by blast
qed

end
