(* ===== verification/Memory_Client.thy ===== *)
theory Memory_Client
  imports Allocator
begin

text \<open>
  Programs that use an allocator, and what they see: any sequence of requests and writes against an allocator
  is a run of a simple machine whose heap is a collection of disjoint blocks of bytes.

  A program holds handles, a pointer with the size it asked for, and makes any sequence of requests: for a new block, for
  the release or the reallocation of the block of its \<open>k\<close>-th handle, or it writes a byte there, inside the size it asked for.
  It drops the handle of a released block and keeps no handle for a request that failed; a request for a handle it does
  not have does nothing.
\<close>

datatype request = Alloc sz | Free nat | Realloc nat sz | Write nat nat "8 word"

type_synonym handles = "(addr \<times> sz) list"

definition del_nth :: "nat \<Rightarrow> 'a list \<Rightarrow> 'a list" where
  "del_nth k xs = take k xs @ drop (Suc k) xs"

fun serve :: "(sz \<Rightarrow> 's \<Rightarrow> (addr \<times> 's) option) \<Rightarrow> (addr \<Rightarrow> 's \<Rightarrow> 's option) \<Rightarrow> (addr \<Rightarrow> sz \<Rightarrow> 's \<Rightarrow> (addr \<times> 's) option) \<Rightarrow>
    (addr \<Rightarrow> 8 word \<Rightarrow> 's \<Rightarrow> 's) \<Rightarrow> request \<Rightarrow> handles \<times> 's \<Rightarrow> (handles \<times> 's) option" where
  "serve alloc free realloc poke (Alloc n) (hs, s) =
     do { (p, s) \<leftarrow> alloc n s; Some (if p = NULL then hs else hs @ [(p, n)], s) }"
| "serve alloc free realloc poke (Free k) (hs, s) =
     (if k < length hs then do { s \<leftarrow> free (fst (hs ! k)) s; Some (del_nth k hs, s) } else Some (hs, s))"
| "serve alloc free realloc poke (Realloc k n) (hs, s) =
     (if k < length hs then do {
        (q, s) \<leftarrow> realloc (fst (hs ! k)) n s;
        Some (if q = NULL then hs else hs[k := (q, n)], s) }
      else Some (hs, s))"
| "serve alloc free realloc poke (Write k i b) (hs, s) =
     Some (hs, if k < length hs \<and> i < snd (hs ! k) then poke (fst (hs ! k) + i) b s else s)"

fun serves :: "(sz \<Rightarrow> 's \<Rightarrow> (addr \<times> 's) option) \<Rightarrow> (addr \<Rightarrow> 's \<Rightarrow> 's option) \<Rightarrow> (addr \<Rightarrow> sz \<Rightarrow> 's \<Rightarrow> (addr \<times> 's) option) \<Rightarrow>
    (addr \<Rightarrow> 8 word \<Rightarrow> 's \<Rightarrow> 's) \<Rightarrow> request list \<Rightarrow> handles \<times> 's \<Rightarrow> (handles \<times> 's) option" where
  "serves alloc free realloc poke [] c = Some c"
| "serves alloc free realloc poke (r # rs) c =
     do { c \<leftarrow> serve alloc free realloc poke r c; serves alloc free realloc poke rs c }"

text \<open>What a request may do to the handles and the blocks of the program.\<close>

inductive spec_step :: "request \<Rightarrow> handles \<times> blocks \<Rightarrow> handles \<times> blocks \<Rightarrow> bool" where
  alloc_none: "spec_step (Alloc n) (hs, h) (hs, h)"
| alloc_new: "p \<noteq> NULL \<Longrightarrow> h p = None \<Longrightarrow> n \<le> length v \<Longrightarrow> spec_step (Alloc n) (hs, h) (hs @ [(p, n)], h(p \<mapsto> v))"
| free_block: "k < length hs \<Longrightarrow> spec_step (Free k) (hs, h) (del_nth k hs, h(fst (hs ! k) := None))"
| free_none: "length hs \<le> k \<Longrightarrow> spec_step (Free k) (hs, h) (hs, h)"
| realloc_none: "spec_step (Realloc k n) (hs, h) (hs, h)"
| realloc_block: "k < length hs \<Longrightarrow> h (fst (hs ! k)) = Some v \<Longrightarrow> q \<noteq> NULL \<Longrightarrow> (h(fst (hs ! k) := None)) q = None \<Longrightarrow>
     n \<le> length w \<Longrightarrow> take (min n (length v)) w = take (min n (length v)) v \<Longrightarrow>
     spec_step (Realloc k n) (hs, h) (hs[k := (q, n)], (h(fst (hs ! k) := None))(q \<mapsto> w))"
| write_block: "k < length hs \<Longrightarrow> i < snd (hs ! k) \<Longrightarrow> h (fst (hs ! k)) = Some v \<Longrightarrow>
     spec_step (Write k i b) (hs, h) (hs, h(fst (hs ! k) \<mapsto> v[i := b]))"
| write_none: "\<not> (k < length hs \<and> i < snd (hs ! k)) \<Longrightarrow> spec_step (Write k i b) (hs, h) (hs, h)"

text \<open>Every handle leads to a block of its own with room for what was asked for, and the blocks do not overlap.\<close>

definition linked :: "handles \<Rightarrow> blocks \<Rightarrow> bool" where
  "linked hs h \<longleftrightarrow> distinct (map fst hs) \<and> fst ` set hs = dom h \<and> (\<forall>p n. (p, n) \<in> set hs \<longrightarrow> n \<le> length (the (h p)))"

definition apart :: "blocks \<Rightarrow> bool" where
  "apart h \<longleftrightarrow> h NULL = None \<and> (\<forall>p q v w. h p = Some v \<and> h q = Some w \<and> p \<noteq> q \<longrightarrow>
     {p ..< p + length v} \<inter> {q ..< q + length w} = {})"

inductive spec_steps :: "request list \<Rightarrow> handles \<times> blocks \<Rightarrow> handles \<times> blocks \<Rightarrow> bool" where
  spec_done: "spec_steps [] c c"
| spec_more: "spec_step r c c' \<Longrightarrow> linked (fst c') (snd c') \<Longrightarrow> apart (snd c') \<Longrightarrow> spec_steps rs c' c'' \<Longrightarrow> spec_steps (r # rs) c c''"

fun legal_request :: "(sz \<Rightarrow> bool) \<Rightarrow> request \<Rightarrow> bool" where
  "legal_request legal (Alloc n) = legal n"
| "legal_request legal (Realloc k n) = (legal n \<and> 0 < n)"
| "legal_request legal r = True"

text \<open>Bytes that change inside one block.\<close>

lemma contents_write:
  assumes "NULL \<notin> U" "b \<in> U" "\<And>a i. a \<in> U - {b} \<Longrightarrow> i < n a \<Longrightarrow> D' (a + M + i) = D (a + M + i)"
  shows "contents M n D' U = (contents M n D U)(b + M \<mapsto> map D' [b + M ..< b + M + n b])"
proof -
  have U: "insert b (U - {b}) = U" using assms(2) by auto
  have "contents M n D' (U - {b}) = (contents M n D U)(b + M := None)"
    by (rule contents_del [OF assms(1)]) (use assms(3) in auto)
  then show ?thesis using contents_new [of b "U - {b}" M n D'] assms(1) unfolding U by simp
qed

lemma del_nth_mid [simp]: "del_nth (length us) (us @ x # vs) = us @ vs"
  by (simp add: del_nth_def)

lemma linked_del:
  assumes "linked (us @ (p, n) # vs) h"
  shows "linked (us @ vs) (h(p := None))"
proof -
  have p: "p \<notin> fst ` set (us @ vs)" using assms by (auto simp: linked_def)
  have "fst ` set (us @ vs) = dom h - {p}"
    using assms p by (auto simp: linked_def)
  moreover have "m \<le> length (the ((h(p := None)) a))" if "(a, m) \<in> set (us @ vs)" for a m
  proof -
    have "a \<noteq> p" using that p by (metis fst_conv image_eqI)
    then show ?thesis using that assms by (auto simp: linked_def)
  qed
  ultimately show ?thesis using assms by (auto simp: linked_def)
qed

lemma linked_ins:
  assumes "linked (us @ vs) h" "h q = None" "m \<le> length w"
  shows "linked (us @ (q, m) # vs) (h(q \<mapsto> w))"
proof -
  have q: "q \<notin> fst ` set (us @ vs)" using assms(1,2) by (auto simp: linked_def)
  have "k \<le> length (the ((h(q \<mapsto> w)) a))" if "(a, k) \<in> set (us @ (q, m) # vs)" for a k
  proof (cases "(a, k) = (q, m)")
    case False
    then have ak: "(a, k) \<in> set (us @ vs)" using that by auto
    then have "a \<noteq> q" using q by (metis fst_conv image_eqI)
    then show ?thesis using ak assms(1) by (auto simp: linked_def)
  qed (use assms(3) in simp)
  then show ?thesis using assms(1) q by (auto simp: linked_def)
qed

lemma nth_handle:
  assumes "k < length (hs :: handles)"
  obtains us p n vs where "hs = us @ (p, n) # vs" "k = length us"
  using assms by (metis id_take_nth_drop length_take min.absorb4 surj_pair)

lemma spec_step_linked: "spec_step r (hs, h) (hs', h') \<Longrightarrow> linked hs h \<Longrightarrow> linked hs' h'"
proof (induction r "(hs, h)" "(hs', h')" arbitrary: hs h hs' h' rule: spec_step.induct)
  case (alloc_new p h n v hs)
  then show ?case using linked_ins [of hs "[]" h p n v] by simp
next
  case (free_block k hs h)
  then show ?case using linked_del by (elim nth_handle) auto
next
  case (realloc_block k hs h v q n w)
  then show ?case using linked_ins [OF linked_del] by (elim nth_handle) auto
next
  case (write_block k hs i h v b)
  then have "n \<le> length (the (h p))" if "(p, n) \<in> set hs" for p n using that by (auto simp: linked_def)
  then have "n \<le> length (the ((h(fst (hs ! k) \<mapsto> v[i := b])) p))" if "(p, n) \<in> set hs" for p n
    using that write_block(3) by (cases "p = fst (hs ! k)") (metis fun_upd_same length_list_update option.sel, simp)
  moreover have "dom (h(fst (hs ! k) \<mapsto> v[i := b])) = dom h" using write_block(3) by auto
  ultimately show ?case using write_block(4) by (simp add: linked_def)
qed auto

locale memory = reallocator R legal alloc free freeable realloc
  for R :: "'s \<Rightarrow> blocks \<Rightarrow> bool" and legal alloc free freeable realloc +
  fixes poke :: "addr \<Rightarrow> 8 word \<Rightarrow> 's \<Rightarrow> 's" and small :: "'s \<Rightarrow> bool"
  assumes write_ok: "R s h \<Longrightarrow> h p = Some v \<Longrightarrow> i < length v \<Longrightarrow> R (poke (p + i) b s) (h(p \<mapsto> v[i := b]))"
    and small_freeable: "small s \<Longrightarrow> R s h \<Longrightarrow> h p \<noteq> None \<Longrightarrow> freeable p s"
    and small_alloc: "small s \<Longrightarrow> legal n \<Longrightarrow> alloc n s = Some (p, s') \<Longrightarrow> small s'"
    and small_free: "small s \<Longrightarrow> free p s = Some s' \<Longrightarrow> small s'"
    and small_realloc: "small s \<Longrightarrow> legal n \<Longrightarrow> realloc p n s = Some (q, s') \<Longrightarrow> small s'"
    and small_write: "small s \<Longrightarrow> small (poke a b s)"
begin

lemma apart: "R s h \<Longrightarrow> apart h"
  using disjoint null_free unfolding apart_def by blast

lemma handle_block:
  assumes "linked hs h" "k < length hs"
  obtains v where "h (fst (hs ! k)) = Some v" "snd (hs ! k) \<le> length v"
proof -
  have "hs ! k \<in> set hs" using assms(2) by simp
  then have "fst (hs ! k) \<in> dom h" "snd (hs ! k) \<le> length (the (h (fst (hs ! k))))"
    using assms(1) by (auto simp: linked_def split: prod.splits)
  then show thesis using that by auto
qed

lemma serve_ok:
  assumes "R s h" "small s" "linked hs h" "legal_request legal r"
  shows "\<exists>hs' s' h'. serve alloc free realloc poke r (hs, s) = Some (hs', s') \<and> R s' h' \<and> small s' \<and>
    spec_step r (hs, h) (hs', h')"
proof (cases r)
  case (Alloc n)
  then obtain p s' h' where 1: "alloc n s = Some (p, s')" "R s' h'"
      "if p = NULL then h' = h else h p = None \<and> (\<exists>v. n \<le> length v \<and> h' = h(p \<mapsto> v))"
    using alloc_ok [OF assms(1), of n] assms(4) by auto
  then have "small s'" using small_alloc [OF assms(2)] assms(4) Alloc by auto
  then show ?thesis using 1 Alloc by (cases "p = NULL") (auto intro: alloc_none alloc_new)
next
  case (Free k)
  show ?thesis
  proof (cases "k < length hs")
    case True
    then obtain v where "h (fst (hs ! k)) = Some v" using handle_block [OF assms(3)] by blast
    then obtain s' where "free (fst (hs ! k)) s = Some s'" "R s' (h(fst (hs ! k) := None))"
      using free_ok [OF assms(1)] small_freeable [OF assms(2,1)] by blast
    then show ?thesis using True Free small_free [OF assms(2)] free_block [OF True, of h] by auto
  qed (use assms(1,2) Free free_none in auto)
next
  case (Realloc k n)
  show ?thesis
  proof (cases "k < length hs")
    case True
    then obtain v where v: "h (fst (hs ! k)) = Some v" using handle_block [OF assms(3)] by blast
    have n: "legal n" "0 < n" using assms(4) Realloc by auto
    from realloc_ok [OF assms(1) v n] small_freeable [OF assms(2,1)] v obtain q s' h' where
      1: "realloc (fst (hs ! k)) n s = Some (q, s')" "R s' h'"
        "if q = NULL then h' = h else (h(fst (hs ! k) := None)) q = None \<and> (\<exists>w. n \<le> length w \<and>
           take (min n (length v)) w = take (min n (length v)) v \<and> h' = (h(fst (hs ! k) := None))(q \<mapsto> w))"
      by blast
    moreover have "spec_step r (hs, h) (if q = NULL then hs else hs[k := (q, n)], h')"
    proof (cases "q = NULL")
      case False
      with 1(3) obtain w where "(h(fst (hs ! k) := None)) q = None" "n \<le> length w"
          "take (min n (length v)) w = take (min n (length v)) v" "h' = (h(fst (hs ! k) := None))(q \<mapsto> w)" by auto
      with realloc_block [of k hs h v q n w] True v False Realloc show ?thesis by simp
    qed (use 1(3) Realloc realloc_none in simp)
    ultimately show ?thesis using True Realloc small_realloc [OF assms(2) n(1)] by auto
  qed (use assms(1,2) Realloc realloc_none in auto)
next
  case (Write k i b)
  show ?thesis
  proof (cases "k < length hs \<and> i < snd (hs ! k)")
    case True
    then obtain v where v: "h (fst (hs ! k)) = Some v" "snd (hs ! k) \<le> length v" using handle_block [OF assms(3)] by blast
    then have "R (poke (fst (hs ! k) + i) b s) (h(fst (hs ! k) \<mapsto> v[i := b]))" using write_ok [OF assms(1)] True by simp
    moreover have "spec_step r (hs, h) (hs, h(fst (hs ! k) \<mapsto> v[i := b]))"
      using write_block [of k hs i h v b] True v(1) Write by simp
    ultimately show ?thesis using True Write small_write [OF assms(2)] by auto
  qed (use assms(1,2) Write write_none in auto)
qed

lemma serves_ok:
  assumes "R s h" "small s" "linked hs h" "list_all (legal_request legal) rs"
  shows "\<exists>hs' s' h'. serves alloc free realloc poke rs (hs, s) = Some (hs', s') \<and> R s' h' \<and> spec_steps rs (hs, h) (hs', h')"
  using assms
proof (induction rs arbitrary: hs s h)
  case Nil
  then show ?case by (auto intro: spec_done)
next
  case (Cons r rs)
  then obtain hs1 s1 h1 where 1: "serve alloc free realloc poke r (hs, s) = Some (hs1, s1)" "R s1 h1" "small s1"
      "spec_step r (hs, h) (hs1, h1)"
    using serve_ok [OF Cons.prems(1-3), of r] by auto
  have l: "linked hs1 h1" by (rule spec_step_linked [OF 1(4) Cons.prems(3)])
  from Cons.IH [OF 1(2,3) l] Cons.prems(4) obtain hs' s' h' where
    2: "serves alloc free realloc poke rs (hs1, s1) = Some (hs', s')" "R s' h'" "spec_steps rs (hs1, h1) (hs', h')" by auto
  have "spec_steps (r # rs) (hs, h) (hs', h')" using spec_more [OF 1(4)] l apart [OF 1(2)] 2(3) by simp
  then show ?case using 1(1) 2(1,2) by auto
qed

end

end
