(* ===== verification/Malloc_2_Client.thy ===== *)
theory Malloc_2_Client
  imports Malloc_2 Memory_Client
begin

text \<open>
  The second allocator as the memory of a program: its reallocation, and any sequence of requests and writes.
\<close>

lemma heap2_data:
  assumes "heap2 s h" "h q = Some w" "\<And>x. x < q \<or> q + length w \<le> x \<Longrightarrow> D x = data s x"
  shows "heap2 (s\<lparr>data := D\<rparr>) (h(q \<mapsto> map D [q ..< q + length w]))"
proof -
  let ?n = "csize (core2 (mem s))"
  obtain B fl where i: "inv2 s B fl" and h: "h = contents META ?n (data s) (used2 s B)"
    using assms(1) by (auto simp: heap2_def)
  note q = contents_Some [OF assms(2) [unfolded h] no_null2 [OF i]]
  define b where "b = q - META"
  have b: "b \<in> used2 s B" "q = b + META" "length w = ?n b" using q by (simp_all add: b_def)
  have "D (a + META + j) = data s (a + META + j)" if "a \<in> used2 s B - {b}" "j < ?n a" for a j
  proof -
    have "h (a + META) = Some (map (data s) [a + META ..< a + META + ?n a])" using contents_at that(1) h by fastforce
    from heap2_disjoint [OF assms(1) this assms(2)] that have "a + META + j \<notin> {q ..< q + length w}" using b(2) by auto
    then show ?thesis using assms(3) by auto
  qed
  from contents_write [where M = META and n = ?n and D = "data s" and D' = D, OF no_null2 [OF i] b(1) this] have
    "contents META ?n D (used2 s B) = h(q \<mapsto> map D [q ..< q + length w])" unfolding h b by simp
  moreover have "inv2 (s\<lparr>data := D\<rparr>) B fl" using i by simp
  ultimately show ?thesis unfolding heap2_def by (intro exI [of _ B] exI [of _ fl]) (simp add: used2_def)
qed

lemma heap2_block:
  assumes "heap2 s h" "h p = Some v"
  obtains x where "p = (p - META) + META" "p - META \<noteq> NULL" "mem s (p - META) = Some x" "m_size x = length v"
proof -
  obtain B fl where i: "inv2 s B fl" and h: "h = contents META (csize (core2 (mem s))) (data s) (used2 s B)"
    using assms(1) by (auto simp: heap2_def)
  note p = contents_Some [OF assms(2) [unfolded h] no_null2 [OF i]]
  have "p - META \<in> dom (mem s)" using p(2) layoutD(2) [OF inv2D(1) [OF i]] by (auto simp: used2_def)
  then obtain x where x: "mem s (p - META) = Some x" by blast
  then have "m_size x = length v" using p(3) by (simp add: csize_def core2_def)
  moreover have "p - META \<noteq> NULL" using p(2) no_null2 [OF i] by metis
  ultimately show thesis using that p(1) x by blast
qed

lemma heap2_bytes:
  assumes "heap2 s h" "h p = Some v"
  shows "v = map (data s) [p ..< p + length v]"
proof -
  obtain B fl where i: "inv2 s B fl" and h: "h = contents META (csize (core2 (mem s))) (data s) (used2 s B)"
    using assms(1) by (auto simp: heap2_def)
  show ?thesis using contents_Some(3) [OF assms(2) [unfolded h] no_null2 [OF i]] by simp
qed

text \<open>
  Reallocation as the composition of what \<open>srealloc\<close> does: a new block, the bytes copied, the old block released.
\<close>

lemma heap2_realloc:
  assumes "heap2 s h" "h p = Some v" "0 < n" "n \<le> MAX_SIZE"
  shows "\<exists>q s' h'. srealloc grant p n s = Some (q, s') \<and> heap2 s' h' \<and>
      (if q = NULL then h' = h
       else (h(p := None)) q = None \<and> (\<exists>w. n \<le> length w \<and> take (min n (length v)) w = take (min n (length v)) v \<and>
         h' = (h(p := None))(q \<mapsto> w)))"
proof -
  obtain x where x: "p = (p - META) + META" "p - META \<noteq> NULL" "mem s (p - META) = Some x" "m_size x = length v"
    using heap2_block [OF assms(1,2)] .
  have pn: "p \<noteq> NULL" using x(2) by auto
  have ldx: "ld (p - META) s = Some x" using ld_eq2 [of "p - META" s] x(2,3) by auto
  note run = pn x(4) assms(3) leD [OF assms(4)] srealloc_def Let_def
  obtain q s1 h1 where 1: "smalloc grant n s = Some (q, s1)" "heap2 s1 h1"
      "if q = NULL then h1 = h else h q = None \<and> (\<exists>u. n \<le> length u \<and> h1 = h(q \<mapsto> u))"
    using heap2_alloc [OF assms(1), of grant n] by blast
  consider "n \<le> length v" | "length v < n" "q = NULL" | "length v < n" "q \<noteq> NULL" by linarith
  then show ?thesis
  proof cases
    case 1
    then have "srealloc grant p n s = Some (p, s)" by (simp add: run ldx)
    moreover have "h = (h(p := None))(p \<mapsto> v)" using assms(2) by auto
    ultimately show ?thesis using assms(1) 1 pn by (intro exI [of _ p] exI [of _ s] exI [of _ h]) auto
  next
    case 2
    then have "srealloc grant p n s = Some (NULL, s1)" using 1(1) by (simp add: run ldx)
    then show ?thesis using 1(2,3) 2(2) by auto
  next
    case 3
    then obtain u where u: "h q = None" "n \<le> length u" "h1 = h(q \<mapsto> u)" using 1(3) by auto
    have pq: "p \<noteq> q" using u(1) assms(2) by auto
    then have h1: "h1 q = Some u" "h1 p = Some v" using u(3) assms(2) by simp_all
    obtain y where y: "mem s1 (p - META) = Some y" "m_size y = length v" using heap2_block [OF 1(2) h1(2)] by metis
    let ?D = "memmove q p (length v) (data s1)" let ?w = "map ?D [q ..< q + length u]"
    have "heap2 (s1\<lparr>data := ?D\<rparr>) (h1(q \<mapsto> ?w))"
      by (rule heap2_data [OF 1(2) h1(1)]) (use 3(1) u(2) in \<open>auto simp: memmove_frame\<close>)
    from heap2_free [OF this, of p] obtain s' where s': "sfree p (s1\<lparr>data := ?D\<rparr>) = Some s'"
        "heap2 s' ((h1(q \<mapsto> ?w))(p := None))"
      using h1(2) pq by auto
    have "ld (p - META) s1 = Some y" using ld_eq2 [of "p - META" s1] x(2) y(1) by auto
    then have e: "srealloc grant p n s = Some (q, s')" using 1(1) s'(1) 3 y(2) by (simp add: run ldx min_absorb2)
    have "(h1(q \<mapsto> ?w))(p := None) = (h(p := None))(q \<mapsto> ?w)" unfolding u(3) using pq by auto
    moreover have "take (min n (length v)) ?w = take (min n (length v)) v"
    proof -
      have "data s1 (p + i) = v ! i" if "i < length v" for i using that arg_cong [OF heap2_bytes [OF 1(2) h1(2)], of "\<lambda>l. l ! i"] by simp
      then show ?thesis using 3(1) u(2) by (intro nth_equalityI) (auto simp: memmove_copies)
    qed
    moreover have "n \<le> length ?w" using u(2) by simp
    ultimately have "\<exists>w. n \<le> length w \<and> take (min n (length v)) w = take (min n (length v)) v \<and>
        (h1(q \<mapsto> ?w))(p := None) = (h(p := None))(q \<mapsto> w)" by blast
    then show ?thesis using e s'(2) u(1) pq 3(2)
      by (intro exI [of _ q] exI [of _ s'] exI [of _ "(h1(q \<mapsto> ?w))(p := None)"]) (simp only: if_False fun_upd_apply simp_thms if_cancel)
  qed
qed

definition poke2 :: "addr \<Rightarrow> 8 word \<Rightarrow> alloc2 \<Rightarrow> alloc2" where
  "poke2 a b s = s\<lparr>data := (data s)(a := b)\<rparr>"

lemma heap2_poke:
  assumes "heap2 s h" "h p = Some v" "i < length v"
  shows "heap2 (poke2 (p + i) b s) (h(p \<mapsto> v[i := b]))"
proof -
  have "data s (p + j) = v ! j" if "j < length v" for j using that arg_cong [OF heap2_bytes [OF assms(1,2)], of "\<lambda>l. l ! j"] by simp
  then have "map ((data s)(p + i := b)) [p ..< p + length v] = v[i := b]"
    by (intro nth_equalityI) (auto simp: nth_list_update)
  moreover have "heap2 (s\<lparr>data := (data s)(p + i := b)\<rparr>) (h(p \<mapsto> map ((data s)(p + i := b)) [p ..< p + length v]))"
    by (rule heap2_data [OF assms(1,2)]) (use assms(3) in auto)
  ultimately show ?thesis by (simp add: poke2_def)
qed

interpretation m2c: memory heap2 "\<lambda>n. n \<le> MAX_SIZE" "smalloc grant" sfree "\<lambda>_ _. True" "srealloc grant" poke2 "\<lambda>_. True" for grant
proof
  show "h NULL = None" if "heap2 s h" for s h using that by (rule m2.null_free)
qed (simp_all only: simp_thms, (rule heap2_disjoint heap2_alloc heap2_free heap2_realloc heap2_poke; assumption)+)

subsection \<open>Properties\<close>

text \<open>
  C11. Second allocator, refinement: started with an empty heap, it answers every sequence of requests for, releases and
  reallocations of blocks, and of writes into them, and the program sees a run of a heap of disjoint blocks: what it wrote
  stays until it writes again or releases the block, a reallocated block starts with the old bytes, and no
  two blocks ever overlap.
\<close>

theorem malloc2_runs:
  assumes "0 < base" "base < SIZE_MOD" "list_all (legal_request (\<lambda>n. n \<le> MAX_SIZE)) rs"
  shows "\<exists>hs s h. serves (smalloc grant) sfree (srealloc grant) poke2 rs ([], init2 base) = Some (hs, s) \<and>
    heap2 s h \<and> spec_steps rs ([], Map.empty) (hs, h)"
proof -
  have "heap2 (init2 base) Map.empty"
    using heap2I [OF inv2_init [OF assms(1,2)]] by (simp add: used2_def contents_def)
  from m2c.serves_ok [OF this _ _ assms(3), of "[]"] show ?thesis by (simp add: linked_def)
qed

theorem malloc2_runs_witness:
  "\<exists>hs s h. serves (smalloc always) sfree (srealloc always) poke2 [Alloc 40, Write 0 3 7, Realloc 0 100, Alloc 8, Free 0]
     ([], init2 4096) = Some (hs, s) \<and> heap2 s h"
  using malloc2_runs [of 4096 "[Alloc 40, Write 0 3 7, Realloc 0 100, Alloc 8, Free 0]" always]
  by (auto simp: MAX_SIZE_def SIZE_MOD_def)

end
