(* ===== verification/Malloc_2_Debug.thy ===== *)
theory Malloc_2_Debug
  imports Malloc_2 C_Strings
begin

text \<open>
  The function of \<open>malloc_2.cpp\<close> that shows its list, \<open>print_free_list\<close>. What is printed is a list of lines; how the
  stream writes a pointer is the argument \<open>sp\<close>.
\<close>

subsection \<open>Definitions\<close>

definition free_line :: "(addr \<Rightarrow> string) \<Rightarrow> nat \<Rightarrow> addr \<Rightarrow> meta2 \<Rightarrow> string" where
  "free_line sp count p m =
     ''['' @ show_int (int count) @ '']'' @ '' address: '' @ sp p @ '' size: '' @ show_lu (int (m_size m)) @
     '' is_free: '' @ show_flag (m_free m) @ '' prev: '' @ sp (m_prev m) @ '' next: '' @ sp (m_next m)"

partial_function (option) print_free_from :: "(addr \<Rightarrow> string) \<Rightarrow> alloc2 \<Rightarrow> nat \<Rightarrow> addr \<Rightarrow> string list option" where
  "print_free_from sp s count populate =
     (if populate = NULL then Some []
      else do {
        m \<leftarrow> ld populate s;
        rest \<leftarrow> print_free_from sp s (Suc count) (m_next m);
        Some (free_line sp (Suc count) populate m # rest) })"

declare print_free_from.simps [code]

definition print_free_list :: "(addr \<Rightarrow> string) \<Rightarrow> alloc2 \<Rightarrow> string list option" where
  "print_free_list sp s =
     do {
       out \<leftarrow> print_free_from sp s 0 (free_list s);
       Some (''printing free list'' # (if list_is_empty s then [''list is empty!''] else []) @ out) }"

subsection \<open>The walk\<close>

lemma print_free_from_ok:
  assumes "dll (nx (mem s)) (pv (mem s)) a fl NULL" "set fl \<subseteq> dom (mem s)" "NULL \<notin> dom (mem s)"
  shows "print_free_from sp s n (hd (fl @ [NULL])) =
    Some (map (\<lambda>(i, b). free_line sp (Suc i) b (the (mem s b))) (enumerate n fl))"
  using assms(1,2)
proof (induction fl arbitrary: a n)
  case Nil
  then show ?case by (subst print_free_from.simps) simp
next
  case (Cons b fl)
  then obtain m where m: "mem s b = Some m" by auto
  moreover have "b \<noteq> NULL" using m assms(3) by (metis domI)
  moreover have "m_next m = hd (fl @ [NULL])" using Cons.prems(1) m(1) by (simp add: nx_def)
  ultimately show ?case using Cons.IH [of b "Suc n"] Cons.prems by (subst print_free_from.simps) (simp add: ld_def)
qed

text \<open>
  The list of the free blocks as printed: one line for every free block and for no other block, numbered from 1, in the
  order of their addresses; it is announced as empty exactly when no block is free.
\<close>

lemma free_list_printed:
  assumes "inv2 s B fl"
  shows "sorted_wrt (<) fl \<and> set fl = {b. cfree (core2 (mem s)) b} \<and>
    print_free_list sp s = Some (''printing free list'' # (if fl = [] then [''list is empty!''] else
      map (\<lambda>(i, b). free_line sp (Suc i) b (the (mem s b))) (enumerate 0 fl)))"
proof -
  note i = inv2D [OF assms]
  have "print_free_from sp s 0 (free_list s) =
      Some (map (\<lambda>(i, b). free_line sp (Suc i) b (the (mem s b))) (enumerate 0 fl))"
    using print_free_from_ok [of s NULL fl sp 0] i(2) unfolding chain_def by simp
  then show ?thesis using i(3,4) list_is_empty_chain [OF i(2)] by (simp add: print_free_list_def)
qed

end
