(* ===== verification/Stacked.thy ===== *)
theory Stacked
  imports Blocks
begin

text \<open>
  The layout of the blocks of \<open>malloc_3.cpp\<close> and \<open>malloc_4.cpp\<close>, as a fact about a set of header
  addresses and a size for each: blocks with their headers follow each other below the break without
  overlap. The lemmas say what the allocators do to it: append a block, split one, merge two
  neighbours, grow the last one.
\<close>

definition stack :: "sz \<Rightarrow> (addr \<Rightarrow> sz) \<Rightarrow> addr \<Rightarrow> addr set \<Rightarrow> bool" where
  "stack meta n brk B \<longleftrightarrow> finite B \<and> NULL \<notin> B \<and> 0 < meta \<and> 0 < brk \<and> brk < SIZE_MOD \<and>
     (\<forall>a \<in> B. a + meta + n a \<le> brk) \<and> (\<forall>a \<in> B. \<forall>b \<in> B. a < b \<longrightarrow> a + meta + n a \<le> b)"

lemma stackD:
  assumes "stack meta n brk B"
  shows "finite B" "NULL \<notin> B" "0 < meta" "0 < brk" "brk < SIZE_MOD"
    "\<And>a. a \<in> B \<Longrightarrow> a + meta + n a \<le> brk" "\<And>a b. a \<in> B \<Longrightarrow> b \<in> B \<Longrightarrow> a < b \<Longrightarrow> a + meta + n a \<le> b"
  using assms unfolding stack_def by blast+

lemma stack_cong: "(\<And>b. b \<in> B \<Longrightarrow> n b = n' b) \<Longrightarrow> stack meta n brk B = stack meta n' brk B"
  by (simp add: stack_def)

lemma stack_mono: "stack meta n brk B \<Longrightarrow> brk \<le> brk' \<Longrightarrow> brk' < SIZE_MOD \<Longrightarrow> stack meta n brk' B"
  unfolding stack_def by (meson le_trans less_le_trans)

lemma stack_below: "stack meta n brk B \<Longrightarrow> b \<in> B \<Longrightarrow> b < brk"
  using stackD(3,6) by fastforce

lemma stack_fresh: "stack meta n brk B \<Longrightarrow> a \<in> B \<Longrightarrow> a < x \<Longrightarrow> x < a + meta + n a \<Longrightarrow> x \<notin> B"
  using stackD(7) by fastforce

lemma stack_append:
  assumes "stack meta n brk B" "brk + meta + k < SIZE_MOD"
  shows "stack meta (n(brk := k)) (brk + meta + k) (insert brk B)"
proof -
  note s = stackD [OF assms(1)] and lt = stack_below [OF assms(1)]
  show ?thesis
    unfolding stack_def
  proof (intro conjI ballI impI)
    fix a assume "a \<in> insert brk B"
    then show "a + meta + (n(brk := k)) a \<le> brk + meta + k" using s(6) [of a] by auto
  next
    fix a b assume "a \<in> insert brk B" "b \<in> insert brk B" "a < b"
    then show "a + meta + (n(brk := k)) a \<le> b" using s(6) [of a] s(7) [of a b] lt [of a] lt [of b] by auto
  qed (use s(1-4) assms(2) in auto)
qed

lemma stack_split:
  assumes "stack meta n brk B" "a \<in> B" "n a = sz + meta + r"
  shows "stack meta (n(a := sz, a + meta + sz := r)) brk (insert (a + meta + sz) B)"
proof -
  let ?x = "a + meta + sz" let ?n = "n(a := sz, a + meta + sz := r)"
  note s = stackD [OF assms(1)]
  have x: "?x \<notin> B" "a \<noteq> ?x" using stack_fresh [OF assms(1,2), of ?x] s(3) assms(3) by auto
  have e: "c + meta + ?n c \<le> (if c = ?x then a + meta + n a else c + meta + n c)" if "c \<in> insert ?x B" for c
    using that x assms(3) by auto
  show ?thesis
    unfolding stack_def
  proof (intro conjI ballI impI)
    fix c assume c: "c \<in> insert ?x B"
    then show "c + meta + ?n c \<le> brk" using e [OF c] s(6) [of c] s(6) [OF assms(2)] by (auto split: if_splits)
  next
    fix c d assume cd: "c \<in> insert ?x B" "d \<in> insert ?x B" "c < d"
    consider "c = ?x" "d \<in> B" | "c \<in> B" "d = ?x" "c = a" | "c \<in> B" "d = ?x" "c \<noteq> a" | "c \<in> B" "d \<in> B"
      using cd by auto
    then show "c + meta + ?n c \<le> d"
    proof cases
      case 1
      then have "a < d" using cd(3) by simp
      then show ?thesis using 1 s(7) [OF assms(2), of d] assms(3) by auto
    next
      case 2
      then show ?thesis using x(2) by auto
    next
      case 3
      have "c < a"
      proof (rule ccontr)
        assume "\<not> c < a"
        then have "a + meta + n a \<le> c" using s(7) [OF assms(2) 3(1)] 3(3) by simp
        then show False using cd(3) 3(2) assms(3) by simp
      qed
      then have "c + meta + n c \<le> a" using s(7) [OF 3(1) assms(2)] by simp
      then show ?thesis using 3 x(1) by auto
    next
      case 4
      then show ?thesis using e [OF cd(1)] s(7) [OF 4 cd(3)] x(1) by (auto split: if_splits)
    qed
  qed (use s(1-5) in auto)
qed

lemma stack_merge:
  assumes "stack meta n brk B" "a \<in> B" "d \<in> B" "a < d" "\<forall>x \<in> B. \<not> (a < x \<and> x < d)"
  shows "stack meta (n(a := n a + meta + n d)) brk (B - {d})"
proof -
  note s = stackD [OF assms(1)]
  have ad: "a + meta + n a \<le> d" using s(7) assms(2-4) by blast
  show ?thesis
    unfolding stack_def
  proof (intro conjI ballI impI)
    fix c assume "c \<in> B - {d}"
    then show "c + meta + (n(a := n a + meta + n d)) c \<le> brk" using s(6) [of c] s(6) [OF assms(3)] ad by auto
  next
    fix c e assume ce: "c \<in> B - {d}" "e \<in> B - {d}" "c < e"
    show "c + meta + (n(a := n a + meta + n d)) c \<le> e"
    proof (cases "c = a")
      case True
      then have "d < e" using ce assms(5) by (metis DiffE insertI1 linorder_neqE_nat singletonD)
      then show ?thesis using True s(7) [OF assms(3), of e] ce(2) ad by simp
    next
      case False
      then show ?thesis using s(7) [of c e] ce by simp
    qed
  qed (use s(1-5) in auto)
qed

lemma stack_grow:
  assumes "stack meta n brk B" "a \<in> B" "\<forall>x \<in> B. x \<le> a" "n a \<le> k" "brk + (k - n a) < SIZE_MOD"
  shows "stack meta (n(a := k)) (brk + (k - n a)) B"
proof -
  note s = stackD [OF assms(1)]
  show ?thesis
    unfolding stack_def
  proof (intro conjI ballI impI)
    fix c assume "c \<in> B"
    then show "c + meta + (n(a := k)) c \<le> brk + (k - n a)" using s(6) [of c] assms(4) by auto
  next
    fix c e assume ce: "c \<in> B" "e \<in> B" "c < e"
    then have "c \<noteq> a" using assms(3) by auto
    then show "c + meta + (n(a := k)) c \<le> e" using s(7) [OF ce] by simp
  qed (use s(1-4) assms(5) in auto)
qed

lemma stack_disjoint:
  assumes "stack meta n brk B" "a \<in> B" "b \<in> B" "a \<noteq> b"
  shows "{a ..< a + meta + n a} \<inter> {b ..< b + meta + n b} = {}"
proof (cases "a < b")
  case True
  then show ?thesis using stackD(7) [OF assms(1-3)] by auto
next
  case False
  then show ?thesis using stackD(7) [OF assms(1,3,2)] assms(4) by auto
qed

end
