(* ===== verification/Malloc_3.thy ===== *)
theory Malloc_3
  imports Stacked Dll
begin

text \<open>
  The third allocator (\<open>HW4Wet/malloc_3.cpp\<close>): all blocks of the heap in one list by address, and the
  free ones also in a histogram of 128 lists by size (bin \<open>i\<close> holds the sizes from \<open>1024 * i\<close> on, sorted). Freed
  blocks are merged with free neighbours, large free blocks are split, the last block can grow,
  and requests of 128 KB and more are mapped.

  The headers live in an explicit heap. \<open>None\<close> is an access through a pointer that is no header, an
  index outside the histogram, or a walk along a list that never ends. A header that a merge
  removes stays in the heap, as its bytes do in memory. The new header of a split is
  written over memory of unknown content: the code assigns all its fields before it reads them.
\<close>

subsection \<open>Data\<close>

record meta3 =
  b_size :: sz
  b_free :: bool
  list_next :: addr
  list_prev :: addr
  histo_next :: addr
  histo_prev :: addr

type_synonym mem3 = "addr \<rightharpoonup> meta3"

record alloc3 =
  heap :: mem3
  all_list_head :: addr
  all_list_end :: addr
  free_histogram :: "addr list"
  num_of_metadatas :: sz
  mmaped_blocks_num :: sz
  mmaped_bytes_num :: sz
  brk :: addr
  data :: bytes

text \<open>\<open>sizeof(MallocMetadata)\<close>: five 8-byte words and a flag padded to 8 bytes.\<close>

definition META :: sz where "META = 48"

definition MMAP_SIZE :: sz where "MMAP_SIZE = 131072"

definition BINS :: nat where "BINS = 128"

definition blank :: meta3 where
  "blank = \<lparr>b_size = 0, b_free = False, list_next = NULL, list_prev = NULL, histo_next = NULL, histo_prev = NULL\<rparr>"

definition ld :: "addr \<Rightarrow> alloc3 \<Rightarrow> meta3 option" where
  "ld p s = (if p = NULL then None else heap s p)"

definition upd :: "addr \<Rightarrow> (meta3 \<Rightarrow> meta3) \<Rightarrow> alloc3 \<Rightarrow> alloc3 option" where
  "upd p f s = do { m \<leftarrow> ld p s; Some (s\<lparr>heap := (heap s)(p \<mapsto> f m)\<rparr>) }"

definition bin :: "nat \<Rightarrow> alloc3 \<Rightarrow> addr option" where
  "bin i s = (if i < BINS then Some (free_histogram s ! i) else None)"

definition set_bin :: "nat \<Rightarrow> addr \<Rightarrow> alloc3 \<Rightarrow> alloc3 option" where
  "set_bin i p s = (if i < BINS then Some (s\<lparr>free_histogram := (free_histogram s)[i := p]\<rparr>) else None)"

text \<open>The argument of \<open>sbrk\<close> is signed: a \<open>size_t\<close> of \<open>2^63\<close> and more is a negative increment.\<close>

definition to_intptr :: "sz \<Rightarrow> int" where
  "to_intptr n = (if n < 2 ^ 63 then int n else int n - int SIZE_MOD)"

subsection \<open>Headers and lists\<close>

definition smalloc_naive :: "grant \<Rightarrow> sz \<Rightarrow> alloc3 \<Rightarrow> addr \<times> alloc3" where
  "smalloc_naive grant sz s =
     (if sz = 0 \<or> sz > MAX_SIZE then (NULL, s)
      else case sbrk grant (to_intptr sz) (brk s) of
        (None, _) \<Rightarrow> (NULL, s)
      | (Some old_prog_brk, b) \<Rightarrow> (old_prog_brk, s\<lparr>brk := b\<rparr>))"

definition create_metadata_sbrk :: "grant \<Rightarrow> sz \<Rightarrow> bool \<Rightarrow> alloc3 \<Rightarrow> addr \<times> alloc3" where
  "create_metadata_sbrk grant size_in free s =
     (let (p, s) = smalloc_naive grant META s in
      if p = NULL then (NULL, s)
      else (p, s\<lparr>heap := (heap s)(p \<mapsto> blank\<lparr>b_size := size_in, b_free := free\<rparr>),
                 num_of_metadatas := sz_add (num_of_metadatas s) 1\<rparr>))"

definition remove_node_histo :: "addr \<Rightarrow> alloc3 \<Rightarrow> alloc3 option" where
  "remove_node_histo ptr s =
     (if ptr = NULL then Some s
      else do {
        m \<leftarrow> ld ptr s;
        if \<not> b_free m then Some s
        else do {
          let i = b_size m div 1024;
          first \<leftarrow> bin i s;
          if first = NULL then Some s
          else do {
            let prev_ptr = histo_prev m;
            let next_ptr = histo_next m;
            s \<leftarrow> (if prev_ptr = NULL then do {
                   s \<leftarrow> set_bin i next_ptr s;
                   if next_ptr \<noteq> NULL then upd next_ptr (histo_prev_update (\<lambda>_. NULL)) s else Some s }
                 else do {
                   s \<leftarrow> upd prev_ptr (histo_next_update (\<lambda>_. next_ptr)) s;
                   if next_ptr \<noteq> NULL then upd next_ptr (histo_prev_update (\<lambda>_. prev_ptr)) s else Some s });
            upd ptr (\<lambda>m. m\<lparr>histo_prev := NULL, histo_next := NULL\<rparr>) s } } })"

definition add_node_list :: "addr \<Rightarrow> addr \<Rightarrow> alloc3 \<Rightarrow> alloc3 option" where
  "add_node_list node_to_add ptr_prev s =
     (if ptr_prev = NULL then do {
        s \<leftarrow> upd node_to_add (\<lambda>m. m\<lparr>list_next := all_list_head s, list_prev := NULL\<rparr>) s;
        let s = s\<lparr>all_list_head := node_to_add\<rparr>;
        s \<leftarrow> upd (all_list_head s) (list_prev_update (\<lambda>_. NULL)) s;
        m \<leftarrow> ld node_to_add s;
        Some (if list_next m = NULL then s\<lparr>all_list_end := node_to_add\<rparr> else s) }
      else do {
        m \<leftarrow> ld ptr_prev s;
        let ptr_next = list_next m;
        s \<leftarrow> upd node_to_add (list_prev_update (\<lambda>_. ptr_prev)) s;
        s \<leftarrow> upd ptr_prev (list_next_update (\<lambda>_. node_to_add)) s;
        s \<leftarrow> upd node_to_add (list_next_update (\<lambda>_. ptr_next)) s;
        s \<leftarrow> (if ptr_next \<noteq> NULL then upd ptr_next (list_prev_update (\<lambda>_. node_to_add)) s else Some s);
        m \<leftarrow> ld node_to_add s;
        Some (if list_next m = NULL then s\<lparr>all_list_end := node_to_add\<rparr> else s) })"

text \<open>The walk of \<open>add_node_histo\<close> to the last node of the bin that is not larger.\<close>

partial_function (option) histo_place :: "alloc3 \<Rightarrow> sz \<Rightarrow> addr \<Rightarrow> addr \<Rightarrow> addr option" where
  "histo_place s sz ptr ptr_prev =
     (if ptr = NULL then Some ptr_prev
      else do {
        m \<leftarrow> ld ptr s;
        if b_size m > sz then Some ptr_prev else histo_place s sz (histo_next m) ptr })"

declare histo_place.simps [code]

definition add_node_histo :: "addr \<Rightarrow> alloc3 \<Rightarrow> alloc3 option" where
  "add_node_histo node_to_add s =
     do {
       m \<leftarrow> ld node_to_add s;
       let i = b_size m div 1024;
       ptr \<leftarrow> bin i s;
       ptr_prev \<leftarrow> histo_place s (b_size m) ptr NULL;
       if ptr_prev = NULL then do {
         s \<leftarrow> upd node_to_add (\<lambda>m. m\<lparr>histo_next := ptr, histo_prev := NULL\<rparr>) s;
         s \<leftarrow> (if ptr \<noteq> NULL then upd ptr (histo_prev_update (\<lambda>_. node_to_add)) s else Some s);
         set_bin i node_to_add s }
       else do {
         q \<leftarrow> ld ptr_prev s;
         let ptr_next = histo_next q;
         s \<leftarrow> upd node_to_add (histo_prev_update (\<lambda>_. ptr_prev)) s;
         s \<leftarrow> upd ptr_prev (histo_next_update (\<lambda>_. node_to_add)) s;
         s \<leftarrow> upd node_to_add (histo_next_update (\<lambda>_. ptr_next)) s;
         if ptr_next \<noteq> NULL then upd ptr_next (histo_prev_update (\<lambda>_. node_to_add)) s else Some s } }"

definition place_metadata :: "addr \<Rightarrow> bool \<Rightarrow> sz \<Rightarrow> alloc3 \<Rightarrow> alloc3" where
  "place_metadata ptr free sz s =
     s\<lparr>heap := (heap s)(ptr \<mapsto> (case heap s ptr of None \<Rightarrow> blank | Some m \<Rightarrow> m)\<lparr>b_free := free, b_size := sz\<rparr>)\<rparr>"

definition split_block :: "addr \<Rightarrow> sz \<Rightarrow> alloc3 \<Rightarrow> (addr \<times> alloc3) option" where
  "split_block current sz s =
     do {
       m \<leftarrow> ld current s;
       let remaining_size = sz_sub (sz_sub (b_size m) sz) META;
       let new_meta_free = current + META + sz;
       let s = place_metadata new_meta_free True remaining_size s;
       let s = s\<lparr>num_of_metadatas := sz_add (num_of_metadatas s) 1\<rparr>;
       s \<leftarrow> add_node_histo new_meta_free s;
       s \<leftarrow> remove_node_histo current s;
       let s = place_metadata current False sz s;
       s \<leftarrow> add_node_list new_meta_free current s;
       Some (current, s) }"

subsection \<open>Allocation\<close>

definition sbrk_wrapper :: "grant \<Rightarrow> sz \<Rightarrow> alloc3 \<Rightarrow> (addr \<times> alloc3) option" where
  "sbrk_wrapper grant sz s =
     do {
       wilderness \<leftarrow> (if all_list_end s = NULL then Some None
                      else do { m \<leftarrow> ld (all_list_end s) s; Some (if b_free m then Some (b_size m) else None) });
       case wilderness of
         Some wilderness_size \<Rightarrow>
           (case sbrk grant (to_intptr (sz_sub sz wilderness_size)) (brk s) of
              (None, _) \<Rightarrow> Some (NULL, s)
            | (Some _, b) \<Rightarrow> do {
                s \<leftarrow> remove_node_histo (all_list_end s) (s\<lparr>brk := b\<rparr>);
                s \<leftarrow> upd (all_list_end s) (\<lambda>m. m\<lparr>b_size := sz, b_free := False\<rparr>) s;
                Some (all_list_end s + META, s) })
       | None \<Rightarrow>
           (let (new_metadata, s) = create_metadata_sbrk grant sz False s in
            if new_metadata = NULL then Some (NULL, s)
            else case sbrk grant (to_intptr sz) (brk s) of
              (None, _) \<Rightarrow> Some (NULL, s)
            | (Some newptr, b) \<Rightarrow> do {
                s \<leftarrow> add_node_list new_metadata (all_list_end s) (s\<lparr>brk := b\<rparr>);
                Some (newptr, s) }) }"

text \<open>\<open>mm\<close> is the answer of \<open>mmap\<close>: the address of the new mapping, or \<open>None\<close> for a failure.\<close>

definition mmap_wrapper :: "addr option \<Rightarrow> sz \<Rightarrow> alloc3 \<Rightarrow> addr \<times> alloc3" where
  "mmap_wrapper mm sz s =
     (case mm of
        None \<Rightarrow> (NULL, s)
      | Some ptr \<Rightarrow>
          (ptr + META, s\<lparr>heap := (heap s)(ptr \<mapsto> blank\<lparr>b_free := False, b_size := sz\<rparr>),
             num_of_metadatas := sz_add (num_of_metadatas s) 1,
             mmaped_blocks_num := sz_add (mmaped_blocks_num s) 1,
             mmaped_bytes_num := sz_add (mmaped_bytes_num s) sz\<rparr>))"

definition deallocate_mmap :: "addr \<Rightarrow> alloc3 \<Rightarrow> alloc3 option" where
  "deallocate_mmap ptr s =
     do {
       m \<leftarrow> ld ptr s;
       Some (s\<lparr>heap := (heap s)(ptr := None),
               mmaped_blocks_num := sz_sub (mmaped_blocks_num s) 1,
               mmaped_bytes_num := sz_sub (mmaped_bytes_num s) (b_size m),
               num_of_metadatas := sz_sub (num_of_metadatas s) 1\<rparr>) }"

partial_function (option) bin_search :: "alloc3 \<Rightarrow> sz \<Rightarrow> addr \<Rightarrow> addr option" where
  "bin_search s sz current =
     (if current = NULL then Some NULL
      else do {
        m \<leftarrow> ld current s;
        if b_size m \<ge> sz \<and> b_free m then Some current else bin_search s sz (histo_next m) })"

declare bin_search.simps [code]

text \<open>The loop over the bins that are left.\<close>

fun histo_search :: "alloc3 \<Rightarrow> sz \<Rightarrow> addr list \<Rightarrow> addr option" where
  "histo_search s sz [] = Some NULL"
| "histo_search s sz (first # bins) =
     do {
       current \<leftarrow> bin_search s sz first;
       if current \<noteq> NULL then Some current else histo_search s sz bins }"

definition smalloc :: "grant \<Rightarrow> addr option \<Rightarrow> sz \<Rightarrow> alloc3 \<Rightarrow> (addr \<times> alloc3) option" where
  "smalloc grant mm sz s =
     (if sz = 0 \<or> sz > MAX_SIZE then Some (NULL, s)
      else if sz \<ge> MMAP_SIZE then Some (mmap_wrapper mm sz s)
      else do {
        current \<leftarrow> histo_search s sz (drop (sz div 1024) (free_histogram s));
        if current = NULL then sbrk_wrapper grant sz s
        else do {
          m \<leftarrow> ld current s;
          if sz_sub (b_size m) sz < 128 + META then do {
            s \<leftarrow> remove_node_histo current s;
            s \<leftarrow> upd current (b_free_update (\<lambda>_. False)) s;
            Some (current + META, s) }
          else do {
            (p, s) \<leftarrow> split_block current sz s;
            Some (p + META, s) } } })"

subsection \<open>Release\<close>

definition unite_right :: "addr \<Rightarrow> alloc3 \<Rightarrow> alloc3 option" where
  "unite_right p_metadata s =
     (if p_metadata = NULL then Some s
      else do {
        m \<leftarrow> ld p_metadata s;
        if \<not> b_free m then Some s
        else do {
          let node_to_remove = list_next m;
          if node_to_remove = NULL then Some s
          else do {
            n \<leftarrow> ld node_to_remove s;
            if \<not> b_free n then Some s
            else do {
              s \<leftarrow> remove_node_histo node_to_remove s;
              s \<leftarrow> remove_node_histo p_metadata s;
              n \<leftarrow> ld node_to_remove s;
              let prev_ptr = list_prev n;
              let next_ptr = list_next n;
              s \<leftarrow> upd prev_ptr (list_next_update (\<lambda>_. next_ptr)) s;
              s \<leftarrow> (if next_ptr \<noteq> NULL then upd next_ptr (list_prev_update (\<lambda>_. prev_ptr)) s
                    else Some (s\<lparr>all_list_end := prev_ptr\<rparr>));
              s \<leftarrow> upd node_to_remove (\<lambda>n. n\<lparr>list_prev := NULL, list_next := NULL\<rparr>) s;
              n \<leftarrow> ld node_to_remove s;
              s \<leftarrow> upd p_metadata (\<lambda>m. m\<lparr>b_size := sz_add (b_size m) (sz_add (b_size n) META), b_free := True\<rparr>) s;
              s \<leftarrow> add_node_histo p_metadata s;
              Some (s\<lparr>num_of_metadatas := sz_sub (num_of_metadatas s) 1\<rparr>) } } } })"

definition sfree :: "addr \<Rightarrow> alloc3 \<Rightarrow> alloc3 option" where
  "sfree p s =
     (if p = NULL then Some s
      else do {
        let p_metadata = p - META;
        m \<leftarrow> ld p_metadata s;
        if b_free m then Some s
        else if b_size m \<ge> MMAP_SIZE then deallocate_mmap p_metadata s
        else do {
          s \<leftarrow> upd p_metadata (b_free_update (\<lambda>_. True)) s;
          s \<leftarrow> add_node_histo p_metadata s;
          s \<leftarrow> unite_right p_metadata s;
          m \<leftarrow> ld p_metadata s;
          unite_right (list_prev m) s } })"

subsection \<open>Reallocation\<close>

definition unite_srealloc :: "addr \<Rightarrow> addr \<Rightarrow> bool \<Rightarrow> alloc3 \<Rightarrow> alloc3 option" where
  "unite_srealloc oldp_metadata unite_with second_time s =
     do {
       s \<leftarrow> upd oldp_metadata (b_free_update (\<lambda>_. True)) s;
       s \<leftarrow> (if \<not> second_time then add_node_histo oldp_metadata s else Some s);
       unite_right unite_with s }"

text \<open>The end of the cases that merge: split off what is left if it is large enough.\<close>

definition split_rest :: "addr \<Rightarrow> sz \<Rightarrow> alloc3 \<Rightarrow> (addr \<times> alloc3) option" where
  "split_rest p sz s =
     do {
       m \<leftarrow> ld p s;
       if sz_sub (b_size m) sz \<ge> 128 + META then do {
         (p, s) \<leftarrow> split_block p sz s;
         Some (p + META, s) }
       else Some (p + META, s) }"

text \<open>Copying to a block from \<open>smalloc\<close>, in the case for large sizes and in the last case.\<close>

definition move_to_new :: "grant \<Rightarrow> addr option \<Rightarrow> addr \<Rightarrow> sz \<Rightarrow> alloc3 \<Rightarrow> (addr \<times> alloc3) option" where
  "move_to_new grant mm oldp sz s =
     do {
       (newp, s) \<leftarrow> smalloc grant mm sz s;
       if newp = NULL then Some (NULL, s)
       else do {
         m \<leftarrow> ld (oldp - META) s;
         let s = s\<lparr>data := memmove newp oldp (min (b_size m) sz) (data s)\<rparr>;
         s \<leftarrow> sfree oldp s;
         Some (newp, s) } }"

definition merge_prev :: "addr \<Rightarrow> addr \<Rightarrow> sz \<Rightarrow> alloc3 \<Rightarrow> (addr \<times> alloc3) option" where
  "merge_prev oldp_metadata oldp_prev sz s =
     do {
       s \<leftarrow> unite_srealloc oldp_metadata oldp_prev False s;
       m \<leftarrow> ld oldp_metadata s;
       p \<leftarrow> ld oldp_prev s;
       let s = s\<lparr>data := memmove (oldp_prev + META) (oldp_metadata + META) (min (b_size m) (b_size p)) (data s)\<rparr>;
       s \<leftarrow> remove_node_histo oldp_prev s;
       s \<leftarrow> upd oldp_prev (b_free_update (\<lambda>_. False)) s;
       split_rest oldp_prev sz s }"

definition merge_next :: "addr \<Rightarrow> sz \<Rightarrow> alloc3 \<Rightarrow> (addr \<times> alloc3) option" where
  "merge_next oldp_metadata sz s =
     do {
       s \<leftarrow> unite_srealloc oldp_metadata oldp_metadata False s;
       s \<leftarrow> remove_node_histo oldp_metadata s;
       s \<leftarrow> upd oldp_metadata (b_free_update (\<lambda>_. False)) s;
       split_rest oldp_metadata sz s }"

definition merge_both :: "addr \<Rightarrow> addr \<Rightarrow> sz \<Rightarrow> alloc3 \<Rightarrow> (addr \<times> alloc3) option" where
  "merge_both oldp_metadata oldp_prev sz s =
     do {
       s \<leftarrow> unite_srealloc oldp_metadata oldp_metadata False s;
       s \<leftarrow> unite_srealloc oldp_metadata oldp_prev True s;
       s \<leftarrow> upd oldp_prev (b_free_update (\<lambda>_. False)) s;
       m \<leftarrow> ld oldp_metadata s;
       p \<leftarrow> ld oldp_prev s;
       let s = s\<lparr>data := memmove (oldp_prev + META) (oldp_metadata + META) (min (b_size m) (b_size p)) (data s)\<rparr>;
       split_rest oldp_prev sz s }"

text \<open>The neighbour at \<open>p\<close>, if there is one: its size and whether it is free.\<close>

definition neighbour :: "addr \<Rightarrow> alloc3 \<Rightarrow> (sz \<times> bool) option option" where
  "neighbour p s = (if p = NULL then Some None else do { m \<leftarrow> ld p s; Some (Some (b_size m, b_free m)) })"

definition fits_with :: "(sz \<times> bool) option \<Rightarrow> sz \<Rightarrow> sz \<Rightarrow> bool" where
  "fits_with nb old sz \<longleftrightarrow>
     (case nb of None \<Rightarrow> False | Some (n, free) \<Rightarrow> sz_add (sz_add n old) META \<ge> sz \<and> free)"

definition fits_both :: "(sz \<times> bool) option \<Rightarrow> (sz \<times> bool) option \<Rightarrow> sz \<Rightarrow> sz \<Rightarrow> bool" where
  "fits_both prv nxt old sz \<longleftrightarrow>
     (case (prv, nxt) of
        (Some (n, f), Some (k, g)) \<Rightarrow> sz_add (sz_add (sz_add n k) old) (2 * META) \<ge> sz \<and> g \<and> f
      | _ \<Rightarrow> False)"

definition srealloc :: "grant \<Rightarrow> addr option \<Rightarrow> addr \<Rightarrow> sz \<Rightarrow> alloc3 \<Rightarrow> (addr \<times> alloc3) option" where
  "srealloc grant mm oldp sz s =
     (if sz = 0 \<or> sz > MAX_SIZE then Some (NULL, s)
      else if oldp = NULL then smalloc grant mm sz s
      else do {
        let oldp_metadata = oldp - META;
        if sz \<ge> MMAP_SIZE then move_to_new grant mm oldp sz s
        else do {
          m \<leftarrow> ld oldp_metadata s;
          if b_size m \<ge> sz then
            (if sz_sub (b_size m) sz \<ge> 128 + META then do {
               (p, s) \<leftarrow> split_block oldp_metadata sz s;
               Some (p + META, s) }
             else Some (oldp, s))
          else do {
            let oldp_prev = list_prev m;
            let oldp_next = list_next m;
            prv \<leftarrow> neighbour oldp_prev s;
            if fits_with prv (b_size m) sz then merge_prev oldp_metadata oldp_prev sz s
            else do {
            nxt \<leftarrow> neighbour oldp_next s;
            if fits_with nxt (b_size m) sz then merge_next oldp_metadata sz s
            else if fits_both prv nxt (b_size m) sz then merge_both oldp_metadata oldp_prev sz s
            else if oldp_next = NULL \<and> all_list_end s = oldp_metadata then
              (case sbrk grant (to_intptr (sz_sub sz (b_size m))) (brk s) of
                 (None, _) \<Rightarrow> Some (NULL, s)
               | (Some _, b) \<Rightarrow> do {
                   s \<leftarrow> upd (all_list_end s) (b_size_update (\<lambda>_. sz)) (s\<lparr>brk := b\<rparr>);
                   Some (oldp, s) })
            else move_to_new grant mm oldp sz s } } } })"

definition scalloc :: "grant \<Rightarrow> addr option \<Rightarrow> sz \<Rightarrow> sz \<Rightarrow> alloc3 \<Rightarrow> (addr \<times> alloc3) option" where
  "scalloc grant mm num sz s =
     do {
       (p, s) \<leftarrow> smalloc grant mm (sz_mul num sz) s;
       if p = NULL then Some (NULL, s)
       else Some (p, s\<lparr>data := memset0 p (sz_mul num sz) (data s)\<rparr>) }"


subsection \<open>Statistics\<close>

definition num_meta_data_bytes :: "alloc3 \<Rightarrow> sz" where
  "num_meta_data_bytes s = sz_mul (num_of_metadatas s) META"

definition size_meta_data :: sz where
  "size_meta_data = META"

partial_function (option) free_blocks_from :: "alloc3 \<Rightarrow> sz \<Rightarrow> addr \<Rightarrow> sz option" where
  "free_blocks_from s count current =
     (if current = NULL then Some count
      else do {
        m \<leftarrow> ld current s;
        free_blocks_from s (if b_free m then sz_add count 1 else count) (list_next m) })"

declare free_blocks_from.simps [code]

definition num_free_blocks :: "alloc3 \<Rightarrow> sz option" where
  "num_free_blocks s = free_blocks_from s 0 (all_list_head s)"

partial_function (option) blocks_from :: "alloc3 \<Rightarrow> sz \<Rightarrow> addr \<Rightarrow> sz option" where
  "blocks_from s count current =
     (if current = NULL then Some count
      else do { m \<leftarrow> ld current s; blocks_from s (sz_add count 1) (list_next m) })"

declare blocks_from.simps [code]

definition num_allocated_blocks :: "alloc3 \<Rightarrow> sz option" where
  "num_allocated_blocks s =
     do { count \<leftarrow> blocks_from s 0 (all_list_head s); Some (sz_add count (mmaped_blocks_num s)) }"

partial_function (option) free_bytes_from :: "alloc3 \<Rightarrow> sz \<Rightarrow> addr \<Rightarrow> sz option" where
  "free_bytes_from s res current =
     (if current = NULL then Some res
      else do {
        m \<leftarrow> ld current s;
        free_bytes_from s (if b_free m then sz_add res (b_size m) else res) (list_next m) })"

declare free_bytes_from.simps [code]

definition num_free_bytes :: "alloc3 \<Rightarrow> sz option" where
  "num_free_bytes s = free_bytes_from s 0 (all_list_head s)"

partial_function (option) bytes_from :: "alloc3 \<Rightarrow> sz \<Rightarrow> addr \<Rightarrow> sz option" where
  "bytes_from s res current =
     (if current = NULL then Some res
      else do { m \<leftarrow> ld current s; bytes_from s (sz_add res (b_size m)) (list_next m) })"

declare bytes_from.simps [code]

definition num_allocated_bytes :: "alloc3 \<Rightarrow> sz option" where
  "num_allocated_bytes s =
     do { res \<leftarrow> bytes_from s 0 (all_list_head s); Some (sz_add res (mmaped_bytes_num s)) }"

text \<open>The state in which a program starts.\<close>

definition init3 :: "addr \<Rightarrow> alloc3" where
  "init3 b = \<lparr>heap = Map.empty, all_list_head = NULL, all_list_end = NULL, free_histogram = replicate BINS NULL,
     num_of_metadatas = 0, mmaped_blocks_num = 0, mmaped_bytes_num = 0, brk = b, data = (\<lambda>_. 0)\<rparr>"

end
