(* ===== verification/Histogram.thy ===== *)
theory Histogram
  imports Malloc_3
begin

text \<open>
  The two linked structures of the third allocator over its explicit heap: the list of all blocks
  and the histogram of the free ones. The lemmas show what \<open>add_node_list\<close>, \<open>remove_node_histo\<close>
  and \<open>add_node_histo\<close> do to them: the histogram is a set of blocks, each in the bin of its size,
  each bin sorted by size.
\<close>

subsection \<open>Views of the heap\<close>

definition ln :: "mem3 \<Rightarrow> addr \<Rightarrow> addr" where
  "ln m p = (case m p of None \<Rightarrow> NULL | Some x \<Rightarrow> list_next x)"

definition lp :: "mem3 \<Rightarrow> addr \<Rightarrow> addr" where
  "lp m p = (case m p of None \<Rightarrow> NULL | Some x \<Rightarrow> list_prev x)"

definition hn :: "mem3 \<Rightarrow> addr \<Rightarrow> addr" where
  "hn m p = (case m p of None \<Rightarrow> NULL | Some x \<Rightarrow> histo_next x)"

definition hp :: "mem3 \<Rightarrow> addr \<Rightarrow> addr" where
  "hp m p = (case m p of None \<Rightarrow> NULL | Some x \<Rightarrow> histo_prev x)"

definition core3 :: "mem3 \<Rightarrow> core" where
  "core3 m p = map_option (\<lambda>x. (b_size x, b_free x)) (m p)"

text \<open>The size and the flag of a block; the views of one header.\<close>

definition sz3 :: "mem3 \<Rightarrow> addr \<Rightarrow> sz" where
  "sz3 m = csize (core3 m)"

definition free3 :: "mem3 \<Rightarrow> addr \<Rightarrow> bool" where
  "free3 m = cfree (core3 m)"

lemma view3:
  assumes "m p = Some x"
  shows "list_next x = ln m p" "list_prev x = lp m p" "histo_next x = hn m p" "histo_prev x = hp m p"
    "b_size x = sz3 m p" "b_free x = free3 m p"
  using assms by (simp_all add: ln_def lp_def hn_def hp_def core3_def sz3_def free3_def csize_def cfree_def)

definition put :: "addr \<Rightarrow> (meta3 \<Rightarrow> meta3) \<Rightarrow> mem3 \<Rightarrow> mem3" where
  "put p f m = (case m p of None \<Rightarrow> m | Some x \<Rightarrow> m(p \<mapsto> f x))"

lemma dom_put [simp]: "dom (put p f m) = dom m"
  by (auto simp: put_def split: option.splits)

lemma ld_eq: "p \<noteq> NULL \<Longrightarrow> p \<in> dom (heap s) \<Longrightarrow> ld p s = Some (the (heap s p))"
  by (auto simp: ld_def)

lemma upd_eq: "p \<noteq> NULL \<Longrightarrow> p \<in> dom (heap s) \<Longrightarrow> upd p f s = Some (s\<lparr>heap := put p f (heap s)\<rparr>)"
  by (auto simp: upd_def ld_def put_def)

lemma the_view3 [simp]:
  assumes "p \<in> dom m"
  shows "list_next (the (m p)) = ln m p" "list_prev (the (m p)) = lp m p" "histo_next (the (m p)) = hn m p"
    "histo_prev (the (m p)) = hp m p" "b_size (the (m p)) = sz3 m p" "b_free (the (m p)) = free3 m p"
  using assms view3 [of m p] by auto

lemma put_view3:
  assumes "p \<in> dom m"
  shows "ln (put p f m) = (ln m)(p := list_next (f (the (m p))))"
    "lp (put p f m) = (lp m)(p := list_prev (f (the (m p))))"
    "hn (put p f m) = (hn m)(p := histo_next (f (the (m p))))"
    "hp (put p f m) = (hp m)(p := histo_prev (f (the (m p))))"
    "sz3 (put p f m) = (sz3 m)(p := b_size (f (the (m p))))"
    "free3 (put p f m) = (free3 m)(p := b_free (f (the (m p))))"
  using assms
  by (auto simp: ln_def lp_def hn_def hp_def sz3_def free3_def csize_def cfree_def core3_def put_def fun_eq_iff)

lemmas put3 [simp] = put_view3

text \<open>Two heaps that differ in the links of the histogram only, or in the links of the list only.\<close>

definition same_list :: "mem3 \<Rightarrow> mem3 \<Rightarrow> bool" where
  "same_list m m' \<longleftrightarrow> dom m' = dom m \<and> ln m' = ln m \<and> lp m' = lp m \<and> sz3 m' = sz3 m \<and> free3 m' = free3 m"

definition same_histo :: "mem3 \<Rightarrow> mem3 \<Rightarrow> bool" where
  "same_histo m m' \<longleftrightarrow> dom m' = dom m \<and> hn m' = hn m \<and> hp m' = hp m \<and> sz3 m' = sz3 m \<and> free3 m' = free3 m"

subsection \<open>The histogram\<close>

definition histo_ok :: "alloc3 \<Rightarrow> (nat \<Rightarrow> addr list) \<Rightarrow> bool" where
  "histo_ok s H \<longleftrightarrow> length (free_histogram s) = BINS \<and> NULL \<notin> dom (heap s) \<and>
     (\<forall>i < BINS. dll (hn (heap s)) (hp (heap s)) NULL (H i) NULL \<and> free_histogram s ! i = hd (H i @ [NULL]) \<and>
        distinct (H i) \<and> set (H i) \<subseteq> dom (heap s)) \<and>
     (\<forall>i < BINS. \<forall>j < BINS. i \<noteq> j \<longrightarrow> set (H i) \<inter> set (H j) = {})"

lemma histo_okD:
  assumes "histo_ok s H" "i < BINS"
  shows "length (free_histogram s) = BINS" "NULL \<notin> dom (heap s)"
    "dll (hn (heap s)) (hp (heap s)) NULL (H i) NULL" "free_histogram s ! i = hd (H i @ [NULL])"
    "distinct (H i)" "set (H i) \<subseteq> dom (heap s)" "\<And>j. j < BINS \<Longrightarrow> j \<noteq> i \<Longrightarrow> set (H j) \<inter> set (H i) = {}"
  using assms unfolding histo_ok_def by blast+

lemma histo_ok_upd:
  assumes "histo_ok s H" "i < BINS" "dom m = dom (heap s)"
    and "dll (hn m) (hp m) NULL as NULL" "distinct as" "set as \<subseteq> dom m"
    and "\<And>x. x \<notin> set as \<union> set (H i) \<Longrightarrow> hn m x = hn (heap s) x" "\<And>x. x \<notin> set as \<union> set (H i) \<Longrightarrow> hp m x = hp (heap s) x"
    and "\<And>j. j < BINS \<Longrightarrow> j \<noteq> i \<Longrightarrow> set (H j) \<inter> set as = {}"
  shows "histo_ok (s\<lparr>heap := m, free_histogram := (free_histogram s)[i := hd (as @ [NULL])]\<rparr>) (H(i := as))"
proof -
  have "dll (hn m) (hp m) NULL (H j) NULL" if "j < BINS" "j \<noteq> i" for j
  proof -
    have "x \<notin> set as \<union> set (H i)" if "x \<in> set (H j)" for x
      using that assms(9) [OF \<open>j < BINS\<close> \<open>j \<noteq> i\<close>] histo_okD(7) [OF assms(1,2) \<open>j < BINS\<close> \<open>j \<noteq> i\<close>] by auto
    then have "dll (hn m) (hp m) NULL (H j) NULL = dll (hn (heap s)) (hp (heap s)) NULL (H j) NULL"
      using assms(7,8) by (intro dll_cong) auto
    then show ?thesis using histo_okD(3) [OF assms(1) that(1)] by simp
  qed
  moreover have "(free_histogram s)[i := hd (as @ [NULL])] ! j = hd ((H(i := as)) j @ [NULL])" if "j < BINS" for j
    using that histo_okD(1,4) [OF assms(1) that] by (cases "j = i") simp_all
  moreover have "set ((H(i := as)) j) \<inter> set ((H(i := as)) k) = {}" if "j < BINS" "k < BINS" "j \<noteq> k" for j k
    using that assms(9) [of j] assms(9) [of k] histo_okD(7) [OF assms(1) that(2), of j] by auto
  moreover have "distinct ((H(i := as)) j)" "set ((H(i := as)) j) \<subseteq> dom m" if "j < BINS" for j
    using that assms(3,5,6) histo_okD(5,6) [OF assms(1) that] by (cases "j = i"; simp)+
  ultimately show ?thesis
    unfolding histo_ok_def using assms(3,4) histo_okD(1,2) [OF assms(1,2)] by (simp add: fun_upd_def)
qed

lemma seg_ends:
  assumes "NULL \<notin> D" "set xs \<union> set ys \<subseteq> D" "b \<notin> set xs \<union> set ys"
  shows "xs \<noteq> [] \<Longrightarrow> last (NULL # xs) \<noteq> NULL \<and> last (NULL # xs) \<in> D \<and> last (NULL # xs) \<noteq> b"
    "ys \<noteq> [] \<Longrightarrow> hd (ys @ [NULL]) \<noteq> NULL \<and> hd (ys @ [NULL]) \<in> D \<and> hd (ys @ [NULL]) \<noteq> b"
proof -
  assume "xs \<noteq> []"
  then have "last (NULL # xs) \<in> set xs" by simp
  then show "last (NULL # xs) \<noteq> NULL \<and> last (NULL # xs) \<in> D \<and> last (NULL # xs) \<noteq> b"
    using assms by (metis UnCI subsetD)
next
  assume "ys \<noteq> []"
  then have "hd (ys @ [NULL]) \<in> set ys" by (cases ys) auto
  then show "hd (ys @ [NULL]) \<noteq> NULL \<and> hd (ys @ [NULL]) \<in> D \<and> hd (ys @ [NULL]) \<noteq> b"
    using assms by (metis UnCI subsetD)
qed

lemma remove_node_histo_ok:
  assumes "histo_ok s H" "i < BINS" "H i = xs @ b # ys" "free3 (heap s) b" "sz3 (heap s) b div 1024 = i"
  shows "\<exists>m. remove_node_histo b s =
      Some (s\<lparr>heap := m, free_histogram := (free_histogram s)[i := hd ((xs @ ys) @ [NULL])]\<rparr>) \<and>
    same_list (heap s) m \<and>
    histo_ok (s\<lparr>heap := m, free_histogram := (free_histogram s)[i := hd ((xs @ ys) @ [NULL])]\<rparr>) (H(i := xs @ ys))"
proof -
  let ?m = "heap s" let ?p = "last (NULL # xs)" let ?n = "hd (ys @ [NULL])"
  note h = histo_okD [OF assms(1,2), unfolded assms(3)]
  have nz: "x \<noteq> NULL" if "x \<in> dom ?m" for x using h(2) that by metis
  have b: "b \<noteq> NULL" "b \<in> dom ?m" using h(6) nz [of b] by auto
  have l: "hp ?m b = ?p" "hn ?m b = ?n" using h(3) by (auto simp: dll_mid)
  have pn: "xs \<noteq> [] \<Longrightarrow> ?p \<noteq> NULL \<and> ?p \<in> dom ?m \<and> ?p \<noteq> b" "ys \<noteq> [] \<Longrightarrow> ?n \<noteq> NULL \<and> ?n \<in> dom ?m \<and> ?n \<noteq> b"
    using seg_ends [of "dom ?m" xs ys b] h(2,5,6) by auto
  note p = pn(1) and n = pn(2)
  define m1 where "m1 = (if xs = [] then ?m else put ?p (histo_next_update (\<lambda>_. ?n)) ?m)"
  define m2 where "m2 = (if ys = [] then m1 else put ?n (histo_prev_update (\<lambda>_. ?p)) m1)"
  define m3 where "m3 = put b (\<lambda>x. x\<lparr>histo_prev := NULL, histo_next := NULL\<rparr>) m2"
  have "hd (xs @ [b]) \<in> dom ?m" using h(6) hd_snoc_mem [of xs b] by auto
  then have fst: "bin i s = Some (hd (xs @ [b]))" "hd (xs @ [b]) \<noteq> NULL"
    using h(4) assms(2) nz by (auto simp: bin_def hd_append)
  have fh: "(free_histogram s)[i := hd ((xs @ ys) @ [NULL])] =
      (if xs = [] then (free_histogram s)[i := ?n] else free_histogram s)"
    using h(4) list_update_id [of "free_histogram s" i] by (cases xs) auto
  have e: "remove_node_histo b s =
      Some (s\<lparr>heap := m3, free_histogram := (free_histogram s)[i := hd ((xs @ ys) @ [NULL])]\<rparr>)"
    using b p n assms(2,4,5) l fst unfolding remove_node_histo_def fh
    by (cases "xs = []"; cases "ys = []")
      (simp_all add: Let_def ld_eq upd_eq set_bin_def m1_def m2_def m3_def)
  have v: "hn m3 = ((hn ?m)(?p := if xs = [] then hn ?m ?p else ?n))(b := NULL)"
    "hp m3 = ((hp ?m)(?n := if ys = [] then hp ?m ?n else ?p))(b := NULL)"
    "same_list ?m m3"
    using b p n by (auto simp: m1_def m2_def m3_def same_list_def fun_upd_twist)
  have d: "dll (hn m3) (hp m3) NULL (xs @ ys) NULL"
    by (intro dll_remove [OF h(3,5)]) (use h(5) p n v(1,2) in \<open>auto simp: hd_append\<close>)
  have "histo_ok (s\<lparr>heap := m3, free_histogram := (free_histogram s)[i := hd ((xs @ ys) @ [NULL])]\<rparr>) (H(i := xs @ ys))"
  proof (rule histo_ok_upd [OF assms(1,2) _ d])
    show "dom m3 = dom ?m" using v(3) by (simp add: same_list_def)
    show "distinct (xs @ ys)" "set (xs @ ys) \<subseteq> dom m3" using h(5,6) v(3) by (auto simp: same_list_def)
    have q: "xs \<noteq> [] \<Longrightarrow> ?p \<in> set xs" "ys \<noteq> [] \<Longrightarrow> ?n \<in> set ys" by (simp, cases ys, simp_all)
    fix x assume "x \<notin> set (xs @ ys) \<union> set (H i)"
    then show "hn m3 x = hn ?m x" "hp m3 x = hp ?m x" using assms(3) v(1,2) q by auto
  next
    fix j assume "j < BINS" "j \<noteq> i"
    then show "set (H j) \<inter> set (xs @ ys) = {}" using h(7) [of j] by auto
  qed
  with e v(3) show ?thesis by blast
qed


lemma histo_place_ok:
  assumes "dll (hn (heap s)) (hp (heap s)) a as NULL" "set as \<subseteq> dom (heap s)" "NULL \<notin> dom (heap s)"
  shows "histo_place s sz (hd (as @ [NULL])) q = Some (last (q # takeWhile (\<lambda>b. sz3 (heap s) b \<le> sz) as))"
  using assms
proof (induction as arbitrary: a q)
  case Nil
  then show ?case by (subst histo_place.simps) simp
next
  case (Cons b as)
  have b: "b \<in> dom (heap s)" "b \<noteq> NULL" using Cons.prems(2,3) by (metis list.set_intros(1) subsetD)+
  have "hn (heap s) b = hd (as @ [NULL])" "dll (hn (heap s)) (hp (heap s)) b as NULL" using Cons.prems(1) by auto
  then have "histo_place s sz (hn (heap s) b) b = Some (last (b # takeWhile (\<lambda>b. sz3 (heap s) b \<le> sz) as))"
    using Cons.IH Cons.prems by auto
  then show ?case using b by (subst histo_place.simps) (auto simp: ld_eq)
qed

text \<open>The links \<open>add_node_histo\<close> writes around the new node.\<close>

lemma add_node_histo_links:
  assumes "b \<noteq> NULL" "b \<in> dom (heap s)" "i < BINS" "sz3 (heap s) b div 1024 = i"
    and "bin i s = Some (hd ((xs @ ys) @ [NULL]))"
    and "histo_place s (sz3 (heap s) b) (hd ((xs @ ys) @ [NULL])) NULL = Some (last (NULL # xs))"
    and p: "xs \<noteq> [] \<Longrightarrow> last (NULL # xs) \<noteq> NULL \<and> last (NULL # xs) \<in> dom (heap s) \<and> last (NULL # xs) \<noteq> b"
    and n: "ys \<noteq> [] \<Longrightarrow> hd (ys @ [NULL]) \<noteq> NULL \<and> hd (ys @ [NULL]) \<in> dom (heap s) \<and> hd (ys @ [NULL]) \<noteq> b"
    and pnx: "xs \<noteq> [] \<Longrightarrow> hn (heap s) (last (NULL # xs)) = hd (ys @ [NULL])"
    and hi: "free_histogram s ! i = hd ((xs @ ys) @ [NULL])"
  shows "\<exists>m. add_node_histo b s =
      Some (s\<lparr>heap := m, free_histogram := (free_histogram s)[i := hd ((xs @ b # ys) @ [NULL])]\<rparr>) \<and> same_list (heap s) m \<and>
      hn m = ((hn (heap s))(last (NULL # xs) := if xs = [] then hn (heap s) (last (NULL # xs)) else b))(b := hd (ys @ [NULL])) \<and>
      hp m = ((hp (heap s))(hd (ys @ [NULL]) := if ys = [] then hp (heap s) (hd (ys @ [NULL])) else b))(b := last (NULL # xs))"
proof (cases "xs = []")
  case True
  let ?m' = "(if ys = [] then id else put (hd (ys @ [NULL])) (histo_prev_update (\<lambda>_. b)))
              (put b (\<lambda>x. x\<lparr>histo_next := hd (ys @ [NULL]), histo_prev := NULL\<rparr>) (heap s))"
  have "add_node_histo b s = Some (s\<lparr>heap := ?m', free_histogram := (free_histogram s)[i := b]\<rparr>)"
    using True n assms(1-6) by (cases "ys = []") (simp_all add: add_node_histo_def Let_def ld_eq upd_eq set_bin_def)
  then show ?thesis using True assms(1,2) n by (intro exI [of _ ?m']) (auto simp: same_list_def fun_upd_twist)
next
  case False
  let ?m' = "(if ys = [] then id else put (hd (ys @ [NULL])) (histo_prev_update (\<lambda>_. b)))
     (put b (histo_next_update (\<lambda>_. hd (ys @ [NULL]))) (put (last (NULL # xs)) (histo_next_update (\<lambda>_. b))
       (put b (histo_prev_update (\<lambda>_. last (NULL # xs))) (heap s))))"
  have "add_node_histo b s = Some (s\<lparr>heap := ?m'\<rparr>)"
    using False n p [OF False] pnx [OF False] assms(1,2,4-6)
    by (cases "ys = []") (simp_all add: add_node_histo_def Let_def ld_eq upd_eq)
  moreover have "(free_histogram s)[i := hd ((xs @ b # ys) @ [NULL])] = free_histogram s"
    using False hi list_update_id [of "free_histogram s" i] by (cases xs) auto
  ultimately show ?thesis using False assms(1,2) n p [OF False]
    by (intro exI [of _ ?m']) (auto simp: same_list_def fun_upd_twist)
qed

lemma add_node_histo_ok:
  fixes xs ys :: "addr list" and s
  assumes "histo_ok s H" "sz3 (heap s) b div 1024 = i" "i < BINS" "b \<in> dom (heap s)" "\<forall>j < BINS. b \<notin> set (H j)"
  defines "xs \<equiv> takeWhile (\<lambda>a. sz3 (heap s) a \<le> sz3 (heap s) b) (H i)"
    and "ys \<equiv> dropWhile (\<lambda>a. sz3 (heap s) a \<le> sz3 (heap s) b) (H i)"
  shows "\<exists>m. add_node_histo b s =
      Some (s\<lparr>heap := m, free_histogram := (free_histogram s)[i := hd ((xs @ b # ys) @ [NULL])]\<rparr>) \<and>
    same_list (heap s) m \<and>
    histo_ok (s\<lparr>heap := m, free_histogram := (free_histogram s)[i := hd ((xs @ b # ys) @ [NULL])]\<rparr>) (H(i := xs @ b # ys))"
proof -
  let ?m = "heap s" let ?p = "last (NULL # xs)" let ?n = "hd (ys @ [NULL])"
  have H: "H i = xs @ ys" by (simp add: xs_def ys_def)
  note h = histo_okD [OF assms(1,3), unfolded H]
  have nb: "b \<notin> set (xs @ ys)" using assms(3,5) H by metis
  have b: "b \<noteq> NULL" "b \<in> dom ?m" using h(2) assms(4) by metis+
  have p: "xs \<noteq> [] \<Longrightarrow> ?p \<noteq> NULL \<and> ?p \<in> dom ?m \<and> ?p \<noteq> b" and n: "ys \<noteq> [] \<Longrightarrow> ?n \<noteq> NULL \<and> ?n \<in> dom ?m \<and> ?n \<noteq> b"
    using seg_ends [of "dom ?m" xs ys b] h(2,6) nb by auto
  have hb: "bin i s = Some (hd ((xs @ ys) @ [NULL]))" using h(4) assms(3) by (simp add: bin_def)
  have place: "histo_place s (sz3 ?m b) (hd ((xs @ ys) @ [NULL])) NULL = Some ?p"
    using histo_place_ok [OF h(3,6,2), of "sz3 ?m b" NULL] H unfolding xs_def by simp
  have pnx: "hn ?m ?p = ?n" if "xs \<noteq> []" using h(3) that by (cases xs rule: rev_cases) (auto simp: dll_append)
  have hi: "free_histogram s ! i = hd ((xs @ ys) @ [NULL])" using h(4) by simp
  from add_node_histo_links [OF b assms(3,2) hb place p n pnx hi] obtain m where m: "add_node_histo b s =
      Some (s\<lparr>heap := m, free_histogram := (free_histogram s)[i := hd ((xs @ b # ys) @ [NULL])]\<rparr>)" "same_list ?m m"
      "hn m = ((hn ?m)(?p := if xs = [] then hn ?m ?p else b))(b := ?n)"
      "hp m = ((hp ?m)(?n := if ys = [] then hp ?m ?n else b))(b := ?p)" by blast
  have d: "dll (hn m) (hp m) NULL (xs @ b # ys) NULL"
    by (intro dll_insert [OF h(3,5)]) (use m(3,4) nb p n in \<open>auto simp: hd_append\<close>)
  have "histo_ok (s\<lparr>heap := m, free_histogram := (free_histogram s)[i := hd ((xs @ b # ys) @ [NULL])]\<rparr>) (H(i := xs @ b # ys))"
  proof (rule histo_ok_upd [OF assms(1,3) _ d])
    show dm: "dom m = dom ?m" using m(2) by (simp add: same_list_def)
    show "distinct (xs @ b # ys)" "set (xs @ b # ys) \<subseteq> dom m" using h(5,6) nb b dm by auto
    have q: "xs \<noteq> [] \<Longrightarrow> ?p \<in> set xs" "ys \<noteq> [] \<Longrightarrow> ?n \<in> set ys" by (simp, cases ys, simp_all)
    fix x assume "x \<notin> set (xs @ b # ys) \<union> set (H i)"
    then show "hn m x = hn ?m x" "hp m x = hp ?m x" using m(3,4) q by auto
  next
    fix j assume "j < BINS" "j \<noteq> i"
    then show "set (H j) \<inter> set (xs @ b # ys) = {}" using h(7) [of j] assms(5) by auto
  qed
  with m(1,2) show ?thesis by blast
qed

subsection \<open>The list of all blocks\<close>

definition list_ok :: "alloc3 \<Rightarrow> addr list \<Rightarrow> bool" where
  "list_ok s as \<longleftrightarrow> dll (ln (heap s)) (lp (heap s)) NULL as NULL \<and> all_list_head s = hd (as @ [NULL]) \<and>
     all_list_end s = last (NULL # as) \<and> distinct as \<and> set as \<subseteq> dom (heap s) \<and> NULL \<notin> dom (heap s)"

lemma add_node_list_ok:
  assumes "list_ok s (xs @ ys)" "xs = [] \<Longrightarrow> ys = []" "b \<in> dom (heap s)" "b \<notin> set (xs @ ys)"
  shows "\<exists>m. add_node_list b (last (NULL # xs)) s =
      Some (s\<lparr>heap := m, all_list_head := hd (xs @ [b]), all_list_end := last (b # ys)\<rparr>) \<and>
    same_histo (heap s) m \<and> list_ok (s\<lparr>heap := m, all_list_head := hd (xs @ [b]), all_list_end := last (b # ys)\<rparr>) (xs @ b # ys)"
proof -
  let ?m = "heap s" let ?p = "last (NULL # xs)" let ?n = "hd (ys @ [NULL])"
  have d: "dll (ln ?m) (lp ?m) NULL (xs @ ys) NULL" "distinct (xs @ ys)" "set (xs @ ys) \<subseteq> dom ?m" "NULL \<notin> dom ?m"
      "all_list_head s = hd (xs @ [?n])" "all_list_end s = last (NULL # xs @ ys)"
    using assms(1) by (auto simp: list_ok_def hd_append)
  have b: "b \<noteq> NULL" "b \<in> dom ?m" using d(4) assms(3) by metis+
  have pn: "xs \<noteq> [] \<Longrightarrow> ?p \<noteq> NULL \<and> ?p \<in> dom ?m \<and> ?p \<noteq> b" "ys \<noteq> [] \<Longrightarrow> ?n \<noteq> NULL \<and> ?n \<in> dom ?m \<and> ?n \<noteq> b"
    using seg_ends [of "dom ?m" xs ys b] d(3,4) assms(4) by auto
  note p = pn(1) and n = pn(2)
  have pnx: "ln ?m ?p = ?n" if "xs \<noteq> []" using d(1) that by (cases xs rule: rev_cases) (auto simp: dll_append)
  let ?s' = "\<lambda>m. s\<lparr>heap := m, all_list_head := hd (xs @ [b]), all_list_end := last (b # ys)\<rparr>"
  have "\<exists>m. add_node_list b ?p s = Some (?s' m) \<and> same_histo ?m m \<and>
      ln m = ((ln ?m)(?p := if xs = [] then ln ?m ?p else b))(b := ?n) \<and>
      lp m = ((lp ?m)(?n := if ys = [] then lp ?m ?n else b))(b := ?p)"
  proof (cases "xs = []")
    case True
    then have y: "ys = []" by (rule assms(2))
    let ?m' = "put b (list_prev_update (\<lambda>_. NULL)) (put b (\<lambda>x. x\<lparr>list_next := NULL, list_prev := NULL\<rparr>) ?m)"
    have "add_node_list b ?p s = Some (?s' ?m')"
      using True y b d(5) by (simp add: add_node_list_def Let_def ld_eq upd_eq)
    then show ?thesis using True y b by (intro exI [of _ ?m']) (auto simp: same_histo_def)
  next
    case False
    let ?m' = "(if ys = [] then id else put ?n (list_prev_update (\<lambda>_. b)))
       (put b (list_next_update (\<lambda>_. ?n)) (put ?p (list_next_update (\<lambda>_. b)) (put b (list_prev_update (\<lambda>_. ?p)) ?m)))"
    have hd: "hd (xs @ [b]) = all_list_head s" using False d(5) by (cases xs) auto
    have "add_node_list b ?p s = Some (if ys = [] then s\<lparr>heap := ?m', all_list_end := b\<rparr> else s\<lparr>heap := ?m'\<rparr>)"
      using False b n p [OF False] pnx [OF False]
      by (cases "ys = []") (simp_all add: add_node_list_def Let_def ld_eq upd_eq)
    moreover have "last (b # ys) = (if ys = [] then b else all_list_end s)" using d(6) by auto
    ultimately have "add_node_list b ?p s = Some (?s' ?m')" using hd by simp
    then show ?thesis using False b n p [OF False] by (intro exI [of _ ?m']) (auto simp: same_histo_def fun_upd_twist)
  qed
  then obtain m where m: "add_node_list b ?p s = Some (?s' m)" "same_histo ?m m"
      "ln m = ((ln ?m)(?p := if xs = [] then ln ?m ?p else b))(b := ?n)"
      "lp m = ((lp ?m)(?n := if ys = [] then lp ?m ?n else b))(b := ?p)" by blast
  have dm: "dom m = dom ?m" using m(2) by (simp add: same_histo_def)
  have "dll (ln m) (lp m) NULL (xs @ b # ys) NULL"
    by (intro dll_insert [OF d(1,2)]) (use m(3,4) assms(4) p n in \<open>auto simp: hd_append\<close>)
  then have "list_ok (?s' m) (xs @ b # ys)"
    using d(2-4) dm b assms(4) by (auto simp: list_ok_def hd_append)
  with m(1,2) show ?thesis by blast
qed

subsection \<open>The histogram as a sorted set of free blocks\<close>

text \<open>\<open>hist s F\<close>: the bins hold exactly the blocks \<open>F\<close>, each in the bin of its size, and each bin is sorted by size.\<close>

definition binned :: "mem3 \<Rightarrow> addr set \<Rightarrow> (nat \<Rightarrow> addr list) \<Rightarrow> bool" where
  "binned m F H \<longleftrightarrow> (\<forall>i < BINS. sorted (map (sz3 m) (H i)) \<and> (\<forall>b \<in> set (H i). sz3 m b div 1024 = i)) \<and>
     (\<Union>i < BINS. set (H i)) = F"

definition hist :: "alloc3 \<Rightarrow> addr set \<Rightarrow> bool" where
  "hist s F \<longleftrightarrow> (\<exists>H. histo_ok s H \<and> binned (heap s) F H)"

lemma binned_mem:
  assumes "binned m F H" "b \<in> F"
  shows "sz3 m b div 1024 < BINS" "b \<in> set (H (sz3 m b div 1024))"
  using assms by (auto simp: binned_def)

lemma binned_upd:
  assumes "binned m F H" "sorted (map (sz3 m) as)" "\<And>b. b \<in> set as \<Longrightarrow> sz3 m b div 1024 = i"
    and "(\<Union>j < BINS. set ((H(i := as)) j)) = F'"
  shows "binned m F' (H(i := as))"
proof -
  have "sorted (map (sz3 m) ((H(i := as)) j)) \<and> (\<forall>b \<in> set ((H(i := as)) j). sz3 m b div 1024 = j)" if "j < BINS" for j
  proof (cases "j = i")
    case False
    then have "(H(i := as)) j = H j" by simp
    then show ?thesis using assms(1) that unfolding binned_def by metis
  qed (use assms(2,3) in auto)
  then show ?thesis using assms(4) unfolding binned_def by blast
qed

lemma hist_dom: "hist s F \<Longrightarrow> F \<subseteq> dom (heap s)"
  unfolding hist_def binned_def using histo_okD(6) by fast

lemma hist_remove:
  assumes "hist s F" "b \<in> F" "free3 (heap s) b"
  shows "\<exists>m f. remove_node_histo b s = Some (s\<lparr>heap := m, free_histogram := f\<rparr>) \<and> same_list (heap s) m \<and>
    hist (s\<lparr>heap := m, free_histogram := f\<rparr>) (F - {b})"
proof -
  obtain H where H: "histo_ok s H" "binned (heap s) F H" using assms(1) by (auto simp: hist_def)
  let ?i = "sz3 (heap s) b div 1024"
  have i: "?i < BINS" "b \<in> set (H ?i)" using binned_mem [OF H(2) assms(2)] .
  obtain xs ys where xy: "H ?i = xs @ b # ys" using split_list [OF i(2)] by blast
  from remove_node_histo_ok [OF H(1) i(1) xy assms(3) refl] obtain m where m:
    "remove_node_histo b s = Some (s\<lparr>heap := m, free_histogram := (free_histogram s)[?i := hd ((xs @ ys) @ [NULL])]\<rparr>)"
    "same_list (heap s) m"
    "histo_ok (s\<lparr>heap := m, free_histogram := (free_histogram s)[?i := hd ((xs @ ys) @ [NULL])]\<rparr>) (H(?i := xs @ ys))"
    by blast
  have e: "sz3 m = sz3 (heap s)" using m(2) by (simp add: same_list_def)
  have nb1: "b \<notin> set (xs @ ys)" using histo_okD(5) [OF H(1) i(1)] xy by auto
  have nb2: "b \<notin> set (H j)" if "j < BINS" "j \<noteq> ?i" for j using histo_okD(7) [OF H(1) i(1) that] i(2) by blast
  have "sorted (map (sz3 (heap s)) (H ?i))" using H(2) i(1) unfolding binned_def by blast
  then have srt: "sorted (map (sz3 (heap s)) (xs @ ys))" unfolding xy by (simp add: sorted_append)
  have "(\<Union>j < BINS. set ((H(?i := xs @ ys)) j)) = F - {b}"
  proof -
    have "set ((H(?i := xs @ ys)) j) = set (H j) - {b}" if "j < BINS" for j
      using that nb1 nb2 [of j] xy by (cases "j = ?i") auto
    then show ?thesis using H(2) by (auto simp: binned_def)
  qed
  moreover have "sz3 (heap s) c div 1024 = ?i" if "c \<in> set (xs @ ys)" for c
  proof -
    have "c \<in> set (H ?i)" using that unfolding xy by auto
    then show ?thesis using H(2) i(1) unfolding binned_def by metis
  qed
  ultimately have "binned (heap s) (F - {b}) (H(?i := xs @ ys))" by (intro binned_upd [OF H(2) srt])
  then have "binned m (F - {b}) (H(?i := xs @ ys))" unfolding binned_def e .
  with m show ?thesis unfolding hist_def by (intro exI conjI) auto
qed

lemma sorted_insert_while:
  assumes "sorted (map f as)" "f b = (n :: nat)"
  shows "sorted (map f (takeWhile (\<lambda>a. f a \<le> n) as @ b # dropWhile (\<lambda>a. f a \<le> n) as))"
  using assms
proof (induction as)
  case (Cons a as)
  have st: "set (takeWhile (\<lambda>a. f a \<le> n) as) \<union> set (dropWhile (\<lambda>a. f a \<le> n) as) = set as"
    by (metis set_append takeWhile_dropWhile_id)
  have le: "\<forall>c \<in> set as. f a \<le> f c" using Cons.prems(1) by auto
  show ?case
  proof (cases "f a \<le> n")
    case True
    let ?zs = "takeWhile (\<lambda>a. f a \<le> n) as @ b # dropWhile (\<lambda>a. f a \<le> n) as"
    have "\<forall>c \<in> set ?zs. f a \<le> f c" using True le st Cons.prems(2) by auto
    moreover have "sorted (map f ?zs)" using Cons by simp
    ultimately have "sorted (map f (a # ?zs))" by (auto simp del: set_append map_append)
    then show ?thesis using True by simp
  next
    case False
    then show ?thesis using Cons.prems by auto
  qed
qed simp

lemma hist_add:
  assumes "hist s F" "b \<in> dom (heap s)" "b \<notin> F" "sz3 (heap s) b div 1024 < BINS"
  shows "\<exists>m f. add_node_histo b s = Some (s\<lparr>heap := m, free_histogram := f\<rparr>) \<and> same_list (heap s) m \<and>
    hist (s\<lparr>heap := m, free_histogram := f\<rparr>) (insert b F)"
proof -
  obtain H where H: "histo_ok s H" "binned (heap s) F H" using assms(1) by (auto simp: hist_def)
  let ?i = "sz3 (heap s) b div 1024"
  let ?xs = "takeWhile (\<lambda>a. sz3 (heap s) a \<le> sz3 (heap s) b) (H ?i)"
  let ?ys = "dropWhile (\<lambda>a. sz3 (heap s) a \<le> sz3 (heap s) b) (H ?i)"
  have nb: "\<forall>j < BINS. b \<notin> set (H j)" using H(2) assms(3) by (auto simp: binned_def)
  from add_node_histo_ok [OF H(1) refl assms(4,2) nb] obtain m where m:
    "add_node_histo b s = Some (s\<lparr>heap := m, free_histogram := (free_histogram s)[?i := hd ((?xs @ b # ?ys) @ [NULL])]\<rparr>)"
    "same_list (heap s) m"
    "histo_ok (s\<lparr>heap := m, free_histogram := (free_histogram s)[?i := hd ((?xs @ b # ?ys) @ [NULL])]\<rparr>) (H(?i := ?xs @ b # ?ys))"
    by blast
  have e: "sz3 m = sz3 (heap s)" using m(2) by (simp add: same_list_def)
  have xy: "set (H ?i) = set ?xs \<union> set ?ys" by (metis set_append takeWhile_dropWhile_id)
  have srt: "sorted (map (sz3 (heap s)) (?xs @ b # ?ys))"
    using H(2) assms(4) by (intro sorted_insert_while) (auto simp: binned_def)
  have st: "set (?xs @ b # ?ys) = insert b (set (H ?i))" unfolding xy by auto
  have "(\<Union>j < BINS. set ((H(?i := ?xs @ b # ?ys)) j)) = insert b (\<Union>j < BINS. set (H j))"
    using assms(4) st by (auto split: if_splits)
  then have "(\<Union>j < BINS. set ((H(?i := ?xs @ b # ?ys)) j)) = insert b F" using H(2) unfolding binned_def by simp
  moreover have "sz3 (heap s) c div 1024 = ?i" if "c \<in> set (?xs @ b # ?ys)" for c
  proof (cases "c = b")
    case False
    then have "c \<in> set (H ?i)" using that unfolding st by simp
    then show ?thesis using H(2) assms(4) unfolding binned_def by metis
  qed simp
  ultimately have "binned (heap s) (insert b F) (H(?i := ?xs @ b # ?ys))" by (intro binned_upd [OF H(2) srt])
  then have "binned m (insert b F) (H(?i := ?xs @ b # ?ys))" unfolding binned_def e .
  with m show ?thesis unfolding hist_def by (intro exI conjI) auto
qed

lemma hist_frame:
  assumes "hist s F" "free_histogram s' = free_histogram s" "NULL \<notin> dom (heap s')" "F \<subseteq> dom (heap s')"
    and "\<And>b. b \<in> F \<Longrightarrow> hn (heap s') b = hn (heap s) b" "\<And>b. b \<in> F \<Longrightarrow> hp (heap s') b = hp (heap s) b"
    and "\<And>b. b \<in> F \<Longrightarrow> sz3 (heap s') b = sz3 (heap s) b"
  shows "hist s' F"
proof -
  obtain H where H: "histo_ok s H" "binned (heap s) F H" using assms(1) by (auto simp: hist_def)
  have F: "set (H i) \<subseteq> F" if "i < BINS" for i using H(2) that by (auto simp: binned_def)
  have "dll (hn (heap s')) (hp (heap s')) NULL (H i) NULL" if "i < BINS" for i
  proof -
    have "dll (hn (heap s')) (hp (heap s')) NULL (H i) NULL = dll (hn (heap s)) (hp (heap s)) NULL (H i) NULL"
      using F [OF that] assms(5,6) by (intro dll_cong) auto
    then show ?thesis using histo_okD(3) [OF H(1) that] by simp
  qed
  moreover have "set (H i) \<subseteq> dom (heap s')" if "i < BINS" for i using F [OF that] assms(4) by blast
  ultimately have hk: "histo_ok s' H"
    using H(1) assms(2,3) unfolding histo_ok_def by simp
  have mp: "map (sz3 (heap s')) (H i) = map (sz3 (heap s)) (H i)" if "i < BINS" for i
    using F [OF that] assms(7) by (intro map_cong) auto
  have "sorted (map (sz3 (heap s')) (H i)) \<and> (\<forall>b \<in> set (H i). sz3 (heap s') b div 1024 = i)" if "i < BINS" for i
    using H(2) F [OF that] assms(7) that unfolding binned_def mp [OF that] by (auto simp: subset_iff)
  then have "binned (heap s') F H" using H(2) unfolding binned_def by blast
  with hk show ?thesis unfolding hist_def by blast
qed

lemma list_ok_frame:
  assumes "list_ok s as" "all_list_head s' = all_list_head s" "all_list_end s' = all_list_end s"
    and "NULL \<notin> dom (heap s')" "set as \<subseteq> dom (heap s')"
    and "\<And>b. b \<in> set as \<Longrightarrow> ln (heap s') b = ln (heap s) b" "\<And>b. b \<in> set as \<Longrightarrow> lp (heap s') b = lp (heap s) b"
  shows "list_ok s' as"
proof -
  have "dll (ln (heap s')) (lp (heap s')) NULL as NULL = dll (ln (heap s)) (lp (heap s)) NULL as NULL"
    using assms(6,7) by (intro dll_cong) auto
  then show ?thesis using assms(1-5) by (auto simp: list_ok_def)
qed

end
