(* ===== verification/Malloc_3_Safe.thy ===== *)
theory Malloc_3_Safe
  imports Histogram
begin

text \<open>
  What the third allocator guarantees: its invariant, best fit, splitting, growing the last block,
  and merging released blocks with their free neighbours.
\<close>

subsection \<open>The invariant\<close>

text \<open>
  \<open>as\<close> are the blocks by address, \<open>k\<close> counts the headers whose block could not be allocated. The list holds all blocks, the
  histogram exactly the free ones, and all are smaller than the mapping threshold.
\<close>

definition inv3 :: "alloc3 \<Rightarrow> addr list \<Rightarrow> nat \<Rightarrow> bool" where
  "inv3 s as k \<longleftrightarrow> list_ok s as \<and> sorted_wrt (<) as \<and> stack META (sz3 (heap s)) (brk s) (set as) \<and>
     hist s {b \<in> set as. free3 (heap s) b} \<and> (\<forall>b \<in> set as. sz3 (heap s) b < MMAP_SIZE) \<and>
     num_of_metadatas s = (length as + k + mmaped_blocks_num s) mod SIZE_MOD"

lemma inv3D:
  assumes "inv3 s as k"
  shows "list_ok s as" "sorted_wrt (<) as" "stack META (sz3 (heap s)) (brk s) (set as)"
    "hist s {b \<in> set as. free3 (heap s) b}" "\<And>b. b \<in> set as \<Longrightarrow> sz3 (heap s) b < MMAP_SIZE"
    "num_of_metadatas s = (length as + k + mmaped_blocks_num s) mod SIZE_MOD"
    "set as \<subseteq> dom (heap s)" "NULL \<notin> dom (heap s)" "distinct as"
  using assms by (auto simp: inv3_def list_ok_def)

lemma inv3_block:
  assumes "inv3 s as k" "b \<in> set as"
  shows "b \<noteq> NULL" "b \<in> dom (heap s)" "sz3 (heap s) b div 1024 < BINS"
proof -
  show "b \<in> dom (heap s)" using inv3D(7) [OF assms(1)] assms(2) by blast
  then show "b \<noteq> NULL" using inv3D(8) [OF assms(1)] by metis
  show "sz3 (heap s) b div 1024 < BINS" using inv3D(5) [OF assms] by (simp add: MMAP_SIZE_def BINS_def)
qed

lemma inv3_init: "0 < b \<Longrightarrow> b < SIZE_MOD \<Longrightarrow> inv3 (init3 b) [] 0"
proof -
  have "histo_ok (init3 b) (\<lambda>_. [])" by (simp add: histo_ok_def init3_def)
  moreover have "binned (heap (init3 b)) {} (\<lambda>_. [])" by (simp add: binned_def)
  ultimately have "hist (init3 b) {}" unfolding hist_def by blast
  then show "0 < b \<Longrightarrow> b < SIZE_MOD \<Longrightarrow> ?thesis"
    by (simp add: inv3_def list_ok_def stack_def init3_def META_def)
qed

subsection \<open>Best fit\<close>

lemma bin_search_ok:
  assumes "dll (hn (heap s)) (hp (heap s)) a as NULL" "set as \<subseteq> dom (heap s)" "NULL \<notin> dom (heap s)"
    and "\<forall>b \<in> set as. free3 (heap s) b"
  shows "bin_search s sz (hd (as @ [NULL])) = Some (hd (dropWhile (\<lambda>b. sz3 (heap s) b < sz) as @ [NULL]))"
  using assms
proof (induction as arbitrary: a)
  case Nil
  then show ?case by (subst bin_search.simps) simp
next
  case (Cons b as)
  have b: "b \<in> dom (heap s)" "b \<noteq> NULL" "free3 (heap s) b"
    using Cons.prems(2-4) by (metis list.set_intros(1) subsetD)+
  have "hn (heap s) b = hd (as @ [NULL])" "dll (hn (heap s)) (hp (heap s)) b as NULL" using Cons.prems(1) by auto
  then have "bin_search s sz (hn (heap s) b) = Some (hd (dropWhile (\<lambda>b. sz3 (heap s) b < sz) as @ [NULL]))"
    using Cons.IH Cons.prems by auto
  then show ?case using b by (subst bin_search.simps) (auto simp: ld_eq)
qed

lemma dropWhile_sorted_min:
  assumes "dropWhile (\<lambda>b. f b < n) as = c # cs" "sorted (map f as)"
  shows "c \<in> set as" "n \<le> f c" "\<And>a. a \<in> set as \<Longrightarrow> n \<le> f a \<Longrightarrow> f c \<le> (f a :: nat)"
proof -
  have e: "as = takeWhile (\<lambda>b. f b < n) as @ c # cs" by (metis assms(1) takeWhile_dropWhile_id)
  then show "c \<in> set as" by (metis in_set_conv_decomp)
  show "n \<le> f c" using assms(1) by (metis hd_dropWhile linorder_not_le list.discI list.sel(1))
  fix a assume a: "a \<in> set as" "n \<le> f a"
  then have "a \<in> set (c # cs)" using e set_takeWhileD by (metis UnE linorder_not_le set_append)
  moreover have "sorted (map f (takeWhile (\<lambda>b. f b < n) as) @ map f (c # cs))" using assms(2) e by (metis map_append)
  then have "sorted (map f (c # cs))" by (simp only: sorted_append)
  ultimately show "f c \<le> f a" by auto
qed

text \<open>The best of the free blocks \<open>F\<close> from bin \<open>k\<close> on, NULL if none is large enough.\<close>

definition best_from :: "mem3 \<Rightarrow> addr set \<Rightarrow> nat \<Rightarrow> sz \<Rightarrow> addr \<Rightarrow> bool" where
  "best_from m F k sz c \<longleftrightarrow>
     (if c = NULL then \<forall>a \<in> F. k \<le> sz3 m a div 1024 \<longrightarrow> sz3 m a < sz
      else c \<in> F \<and> sz \<le> sz3 m c \<and> (\<forall>a \<in> F. k \<le> sz3 m a div 1024 \<and> sz \<le> sz3 m a \<longrightarrow> sz3 m c \<le> sz3 m a))"

lemma best_from_later:
  assumes "best_from m F (Suc k) sz c" "\<And>a. a \<in> F \<Longrightarrow> sz3 m a div 1024 = k \<Longrightarrow> sz3 m a < sz"
  shows "best_from m F k sz c"
proof -
  have "Suc k \<le> sz3 m a div 1024" if "a \<in> F" "k \<le> sz3 m a div 1024" "sz \<le> sz3 m a" for a
    using that assms(2) [of a] by (cases "sz3 m a div 1024 = k") auto
  then show ?thesis using assms(1) unfolding best_from_def by (metis (mono_tags, lifting) linorder_not_le)
qed

lemma best_from_here:
  assumes "c \<noteq> NULL" "c \<in> F" "sz3 m c div 1024 = k" "sz \<le> sz3 m c"
    and "\<And>a. a \<in> F \<Longrightarrow> sz3 m a div 1024 = k \<Longrightarrow> sz \<le> sz3 m a \<Longrightarrow> sz3 m c \<le> sz3 m a"
  shows "best_from m F k sz c"
proof -
  have "sz3 m c \<le> sz3 m a" if "a \<in> F" "k \<le> sz3 m a div 1024" "sz \<le> sz3 m a" for a
  proof (cases "sz3 m a div 1024 = k")
    case False
    then have "sz3 m c div 1024 < sz3 m a div 1024" using assms(3) that(2) by simp
    then show ?thesis by (metis div_le_mono linorder_not_less nat_le_linear)
  qed (use assms(5) that in blast)
  then show ?thesis using assms(1,2,4) by (simp add: best_from_def)
qed

lemma histo_search_ok:
  assumes "histo_ok s H" "binned (heap s) F H" "\<forall>b \<in> F. free3 (heap s) b" "k \<le> BINS"
  shows "\<exists>c. histo_search s sz (drop k (free_histogram s)) = Some c \<and> best_from (heap s) F k sz c"
  using assms(4)
proof (induction k rule: inc_induct)
  case base
  have "length (free_histogram s) = BINS" using assms(1) by (simp add: histo_ok_def)
  moreover have "sz3 (heap s) a div 1024 < BINS" if "a \<in> F" for a using binned_mem(1) [OF assms(2) that] .
  ultimately show ?case by (intro exI [of _ NULL]) (auto simp: best_from_def not_le [symmetric])
next
  case (step k)
  note h = histo_okD [OF assms(1) step.hyps(2)]
  let ?d = "dropWhile (\<lambda>b. sz3 (heap s) b < sz) (H k)"
  have Fk: "set (H k) \<subseteq> F" and srt: "sorted (map (sz3 (heap s)) (H k))"
    and bk: "\<forall>b \<in> set (H k). sz3 (heap s) b div 1024 = k"
    using assms(2) step.hyps(2) unfolding binned_def by blast+
  have dr: "drop k (free_histogram s) = hd (H k @ [NULL]) # drop (Suc k) (free_histogram s)"
    using Cons_nth_drop_Suc [of k "free_histogram s"] h(1,4) step.hyps(2) by simp
  have "\<forall>b \<in> set (H k). free3 (heap s) b" using Fk assms(3) by blast
  then have bs: "bin_search s sz (hd (H k @ [NULL])) = Some (hd (?d @ [NULL]))" by (rule bin_search_ok [OF h(3,6,2)])
  have inH: "a \<in> set (H k)" if "a \<in> F" "sz3 (heap s) a div 1024 = k" for a
    using binned_mem(2) [OF assms(2) that(1)] that(2) by simp
  show ?case
  proof (cases ?d)
    case Nil
    then have small: "\<forall>b \<in> set (H k). sz3 (heap s) b < sz" by simp
    obtain c where c: "histo_search s sz (drop (Suc k) (free_histogram s)) = Some c" "best_from (heap s) F (Suc k) sz c"
      using step.IH by blast
    have "histo_search s sz (drop k (free_histogram s)) = Some c" unfolding dr using bs Nil c(1) by simp
    moreover have "best_from (heap s) F k sz c" using best_from_later [OF c(2)] small inH by blast
    ultimately show ?thesis by blast
  next
    case (Cons c cs)
    note m = dropWhile_sorted_min [OF Cons srt]
    have "c \<in> dom (heap s)" using m(1) h(6) by blast
    then have cn: "c \<noteq> NULL" using h(2) by metis
    have "histo_search s sz (drop k (free_histogram s)) = Some c" unfolding dr using bs Cons cn by simp
    moreover have "best_from (heap s) F k sz c"
      by (rule best_from_here [OF cn]) (use m Fk bk inH in auto)
    ultimately show ?thesis by blast
  qed
qed

subsection \<open>Taking, splitting and appending blocks\<close>

lemma same_listD:
  assumes "same_list m m'"
  shows "dom m' = dom m" "ln m' = ln m" "lp m' = lp m" "sz3 m' = sz3 m" "free3 m' = free3 m"
  using assms by (simp_all add: same_list_def)

lemma same_histoD:
  assumes "same_histo m m'"
  shows "dom m' = dom m" "hn m' = hn m" "hp m' = hp m" "sz3 m' = sz3 m" "free3 m' = free3 m"
  using assms by (simp_all add: same_histo_def)

text \<open>Setting size and flag of one header that is in no bin.\<close>

lemma hist_put:
  assumes "hist s F" "b \<notin> F" "b \<in> dom (heap s)"
    and "\<And>x. histo_next (f x) = histo_next x" "\<And>x. histo_prev (f x) = histo_prev x"
  shows "hist (s\<lparr>heap := put b f (heap s)\<rparr>) F"
proof (rule hist_frame [OF assms(1)])
  show "NULL \<notin> dom (heap (s\<lparr>heap := put b f (heap s)\<rparr>))" using assms(1) by (auto simp: hist_def histo_ok_def)
  show "F \<subseteq> dom (heap (s\<lparr>heap := put b f (heap s)\<rparr>))" using hist_dom [OF assms(1)] by simp
qed (use assms(2-5) in auto)

lemma list_put:
  assumes "list_ok s as" "b \<in> dom (heap s)"
    and "\<And>x. list_next (f x) = list_next x" "\<And>x. list_prev (f x) = list_prev x"
  shows "list_ok (s\<lparr>heap := put b f (heap s)\<rparr>) as"
proof (rule list_ok_frame [OF assms(1)])
  show "NULL \<notin> dom (heap (s\<lparr>heap := put b f (heap s)\<rparr>))" "set as \<subseteq> dom (heap (s\<lparr>heap := put b f (heap s)\<rparr>))"
    using assms(1) by (auto simp: list_ok_def)
qed (use assms(2-4) in auto)

lemma list_same:
  assumes "list_ok s as" "same_list (heap s) m"
  shows "list_ok (s\<lparr>heap := m, free_histogram := f\<rparr>) as"
  using assms by (simp add: list_ok_def same_list_def)

lemma hist_same:
  assumes "hist s F" "same_histo (heap s) m"
  shows "hist (s\<lparr>heap := m, all_list_head := a, all_list_end := e\<rparr>) F"
  using assms(1) same_histoD [OF assms(2)] by (simp add: hist_def histo_ok_def binned_def)

lemma sz_add_mod: "sz_add (n mod SIZE_MOD) k = (n + k) mod SIZE_MOD"
  by (simp add: sz_add_def mod_add_left_eq)

lemma sz_sub_mod: "sz_sub ((n + 1) mod SIZE_MOD) 1 = n mod SIZE_MOD"
proof -
  have "SIZE_MOD \<ge> 1" by (simp add: SIZE_MOD_def)
  then have "sz_sub ((n + 1) mod SIZE_MOD) 1 = ((n + 1) mod SIZE_MOD + (SIZE_MOD - 1)) mod SIZE_MOD"
    by (simp add: sz_sub_def)
  also have "\<dots> = (n + 1 + (SIZE_MOD - 1)) mod SIZE_MOD" by (simp only: mod_add_left_eq)
  also have "n + 1 + (SIZE_MOD - 1) = n + SIZE_MOD" using \<open>SIZE_MOD \<ge> 1\<close> by simp
  finally show ?thesis by simp
qed

lemma take_block:
  assumes "inv3 s as k" "b \<in> set as" "free3 (heap s) b"
  shows "\<exists>s'. do { s \<leftarrow> remove_node_histo b s; upd b (b_free_update (\<lambda>_. False)) s } = Some s' \<and>
    inv3 s' as k \<and> brk s' = brk s \<and> data s' = data s \<and> sz3 (heap s') = sz3 (heap s) \<and>
    free3 (heap s') = (free3 (heap s))(b := False) \<and> dom (heap s') = dom (heap s)"
proof -
  note i = inv3D [OF assms(1)] and b = inv3_block [OF assms(1,2)]
  let ?F = "{a \<in> set as. free3 (heap s) a}"
  obtain m f where m: "remove_node_histo b s = Some (s\<lparr>heap := m, free_histogram := f\<rparr>)" "same_list (heap s) m"
      "hist (s\<lparr>heap := m, free_histogram := f\<rparr>) (?F - {b})"
    using hist_remove [OF i(4)] assms(2,3) by blast
  note v = same_listD [OF m(2)]
  let ?s1 = "s\<lparr>heap := m, free_histogram := f\<rparr>"
  let ?g = "b_free_update (\<lambda>_. False)"
  let ?s2 = "?s1\<lparr>heap := put b ?g m\<rparr>"
  have bd: "b \<in> dom (heap ?s1)" using b(2) v(1) by simp
  have u: "upd b ?g ?s1 = Some ?s2" using upd_eq [of b ?s1] b(1) bd by simp
  have w: "sz3 (heap ?s2) = sz3 (heap s)" "free3 (heap ?s2) = (free3 (heap s))(b := False)" "dom (heap ?s2) = dom (heap s)"
    using bd v by simp_all
  have "hist ?s2 (?F - {b})" using hist_put [OF m(3) _ bd, of ?g] by simp
  moreover have "{a \<in> set as. free3 (heap ?s2) a} = ?F - {b}" unfolding w by auto
  moreover have "list_ok ?s2 as" using list_put [OF list_same [OF i(1) m(2), of f] bd, of ?g] by simp
  ultimately have "inv3 ?s2 as k"
    unfolding inv3_def using i(2,3,5,6) w by simp
  then show ?thesis using m(1) u w by (intro exI [of _ ?s2]) simp
qed

text \<open>The three steps of a split: a header for the rest, the old block out of its bin, and the invariant again.\<close>

lemma fresh_header:
  fixes fr :: bool and r n :: sz
  assumes "hist s F" "list_ok s as" "F \<subseteq> set as" "new \<notin> set as" "new \<noteq> NULL"
  defines "s1 \<equiv> (place_metadata new fr r s)\<lparr>num_of_metadatas := n\<rparr>"
  shows "hist s1 F" "list_ok s1 as" "dom (heap s1) = insert new (dom (heap s))"
    "sz3 (heap s1) = (sz3 (heap s))(new := r)" "free3 (heap s1) = (free3 (heap s))(new := fr)"
proof -
  show d: "dom (heap s1) = insert new (dom (heap s))" by (auto simp: s1_def place_metadata_def)
  have v: "\<And>x. x \<noteq> new \<Longrightarrow> ln (heap s1) x = ln (heap s) x \<and> lp (heap s1) x = lp (heap s) x \<and>
      hn (heap s1) x = hn (heap s) x \<and> hp (heap s1) x = hp (heap s) x"
    by (simp add: s1_def place_metadata_def ln_def lp_def hn_def hp_def)
  show w: "sz3 (heap s1) = (sz3 (heap s))(new := r)" "free3 (heap s1) = (free3 (heap s))(new := fr)"
    by (auto simp: s1_def place_metadata_def sz3_def free3_def core3_def csize_def cfree_def fun_eq_iff)
  have f: "free_histogram s1 = free_histogram s" "all_list_head s1 = all_list_head s" "all_list_end s1 = all_list_end s"
    by (simp_all add: s1_def place_metadata_def)
  have n: "NULL \<notin> dom (heap s1)" using assms(2,5) unfolding d by (auto simp: list_ok_def)
  have a: "set as \<subseteq> dom (heap s1)" "F \<subseteq> dom (heap s1)" using assms(2,3) unfolding d by (auto simp: list_ok_def)
  have ne: "a \<noteq> new" if "a \<in> set as" for a using that assms(4) by blast
  have nF: "a \<noteq> new" if "a \<in> F" for a using ne [of a] that assms(3) by blast
  show "hist s1 F" by (rule hist_frame [OF assms(1) f(1) n a(2)]) (use v w nF in \<open>simp_all\<close>)
  show "list_ok s1 as" by (rule list_ok_frame [OF assms(2) f(2,3) n a(1)]) (use v ne in \<open>simp_all\<close>)
qed

lemma hist_remove_any:
  assumes "hist s F" "b \<in> dom (heap s)" "free3 (heap s) b \<longleftrightarrow> b \<in> F"
  shows "\<exists>m f. remove_node_histo b s = Some (s\<lparr>heap := m, free_histogram := f\<rparr>) \<and> same_list (heap s) m \<and>
    hist (s\<lparr>heap := m, free_histogram := f\<rparr>) (F - {b})"
proof (cases "b \<in> F")
  case True
  then show ?thesis using hist_remove [OF assms(1)] assms(3) by blast
next
  case False
  have "b \<noteq> NULL" using assms(1,2) by (auto simp: hist_def histo_ok_def)
  then have "remove_node_histo b s = Some s" using assms(2,3) False by (simp add: remove_node_histo_def ld_eq)
  moreover have "same_list (heap s) (heap s)" by (simp add: same_list_def)
  ultimately show ?thesis using assms(1) False by (intro exI [of _ "heap s"] exI [of _ "free_histogram s"]) simp
qed

lemma inv3_split:
  assumes "inv3 s (xs @ b # ys) k" "sz3 (heap s) b = sz + META + r"
  defines "new \<equiv> b + META + sz" and "F \<equiv> {a \<in> set (xs @ b # ys). free3 (heap s) a}"
  assumes "list_ok s' (xs @ b # new # ys)" "hist s' (insert new (F - {b}))"
    and "sz3 (heap s') = (sz3 (heap s))(b := sz, new := r)" "free3 (heap s') = (free3 (heap s))(b := False, new := True)"
    and "brk s' = brk s" "mmaped_blocks_num s' = mmaped_blocks_num s" "num_of_metadatas s' = sz_add (num_of_metadatas s) 1"
  shows "inv3 s' (xs @ b # new # ys) k"
proof -
  note i = inv3D [OF assms(1)]
  have Mpos: "0 < META" by (simp add: META_def)
  have bas: "b \<in> set (xs @ b # ys)" by simp
  have nf: "new \<notin> set (xs @ b # ys)" using stack_fresh [OF i(3) bas, of new] assms(2) Mpos by (auto simp: new_def)
  have se: "set (xs @ b # new # ys) = insert new (set (xs @ b # ys))" by auto
  have "b < new" using Mpos by (simp add: new_def)
  moreover have "new < y" if "y \<in> set ys" for y
  proof -
    have "b < y" "y \<in> set (xs @ b # ys)" using i(2) that by (auto simp: sorted_wrt_append)
    then have "b + META + sz3 (heap s) b \<le> y" using stackD(7) [OF i(3) bas] by blast
    then show ?thesis using assms(2) Mpos by (simp add: new_def)
  qed
  ultimately have "sorted_wrt (<) (xs @ b # new # ys)" using i(2) by (fastforce simp: sorted_wrt_append)
  moreover have "stack META (sz3 (heap s')) (brk s') (set (xs @ b # new # ys))"
    using stack_split [OF i(3) bas assms(2)] unfolding assms(7,9) se by (simp add: new_def)
  moreover have "{a \<in> set (xs @ b # new # ys). free3 (heap s') a} = insert new (F - {b})"
    unfolding assms(8) se F_def using nf by auto
  moreover have "\<forall>a \<in> set (xs @ b # new # ys). sz3 (heap s') a < MMAP_SIZE"
    unfolding assms(7) se using i(5) [OF bas] i(5) assms(2) by auto
  moreover have "num_of_metadatas s' = (length (xs @ b # new # ys) + k + mmaped_blocks_num s') mod SIZE_MOD"
    using i(6) sz_add_mod [of "length (xs @ b # ys) + k + mmaped_blocks_num s" 1] assms(10,11) by simp
  ultimately show ?thesis unfolding inv3_def using assms(5,6) by simp
qed

lemma split_block_ok:
  assumes "inv3 s as k" "b \<in> set as" "sz3 (heap s) b = sz + META + r"
  defines "new \<equiv> b + META + sz"
  shows "\<exists>s' as'. split_block b sz s = Some (b, s') \<and> inv3 s' as' k \<and> set as' = insert new (set as) \<and> new \<notin> set as \<and>
    brk s' = brk s \<and> data s' = data s \<and>
    sz3 (heap s') = (sz3 (heap s))(b := sz, new := r) \<and> free3 (heap s') = (free3 (heap s))(b := False, new := True)"
proof -
  note i = inv3D [OF assms(1)] and b = inv3_block [OF assms(1,2)]
  let ?F = "{a \<in> set as. free3 (heap s) a}"
  obtain xs ys where as: "as = xs @ b # ys" using split_list [OF assms(2)] by blast
  have nf: "new \<notin> set as" "new \<noteq> b" "new \<noteq> NULL"
    using stack_fresh [OF i(3) assms(2), of new] assms(3) by (auto simp: new_def META_def)
  have "sz + META + r < SIZE_MOD" using stackD(5,6) [OF i(3)] assms(2,3) by fastforce
  then have rem: "sz_sub (sz_sub (sz + META + r) sz) META = r" by (simp add: sz_sub_exact)
  define s1 where "s1 = (place_metadata new True r s)\<lparr>num_of_metadatas := sz_add (num_of_metadatas s) 1\<rparr>"
  have F: "?F \<subseteq> set as" by blast
  note h1 = fresh_header [OF i(4,1) F nf(1,3), where fr = True and r = r and n = "sz_add (num_of_metadatas s) 1", folded s1_def]
  \<comment> \<open>the rest into its bin, the old block out of its bin\<close>
  have "r div 1024 < BINS" using b(3) assms(3) div_le_mono [of r "sz + META + r" 1024] by simp
  then obtain m2 f2 where m2: "add_node_histo new s1 = Some (s1\<lparr>heap := m2, free_histogram := f2\<rparr>)"
      "same_list (heap s1) m2" "hist (s1\<lparr>heap := m2, free_histogram := f2\<rparr>) (insert new ?F)"
    using hist_add [OF h1(1), of new] h1(3,4) nf(1) by auto
  let ?s2 = "s1\<lparr>heap := m2, free_histogram := f2\<rparr>"
  note v2 = same_listD [OF m2(2)]
  have bd2: "b \<in> dom (heap ?s2)" using b(2) h1(3) v2(1) by simp
  have "free3 (heap ?s2) b \<longleftrightarrow> b \<in> insert new ?F" using h1(5) v2(5) nf(2) assms(2) by auto
  from hist_remove_any [OF m2(3) bd2 this] obtain m3 f3 where m3:
      "remove_node_histo b ?s2 = Some (?s2\<lparr>heap := m3, free_histogram := f3\<rparr>)" "same_list m2 m3"
      "hist (?s2\<lparr>heap := m3, free_histogram := f3\<rparr>) (insert new ?F - {b})" by auto
  let ?s3 = "?s2\<lparr>heap := m3, free_histogram := f3\<rparr>"
  note v3 = same_listD [OF m3(2)]
  have bd3: "b \<in> dom (heap ?s3)" using bd2 v3(1) by simp
  have l3: "list_ok ?s3 as" using list_same [OF list_same [OF h1(2) m2(2), of f2], of m3 f3] m3(2) by simp
  \<comment> \<open>its new size, and the new block into the list\<close>
  let ?g = "\<lambda>m. m\<lparr>b_free := False, b_size := sz\<rparr>"
  let ?s4 = "?s3\<lparr>heap := put b ?g m3\<rparr>"
  have p4: "place_metadata b False sz ?s3 = ?s4" using bd3 by (auto simp: place_metadata_def put_def)
  have h4: "hist ?s4 (insert new (?F - {b}))" using hist_put [OF m3(3) _ bd3, of ?g] nf(2) by (simp add: insert_Diff_if)
  have l4: "list_ok ?s4 ((xs @ [b]) @ ys)" using list_put [OF l3 bd3, of ?g] as by simp
  have "new \<in> dom (heap ?s4)" "new \<notin> set ((xs @ [b]) @ ys)" using h1(3) v2(1) v3(1) nf(1) as by auto
  from add_node_list_ok [OF l4 _ this] obtain m5 h e where m5:
      "add_node_list new b ?s4 = Some (?s4\<lparr>heap := m5, all_list_head := h, all_list_end := e\<rparr>)" "same_histo (heap ?s4) m5"
      "list_ok (?s4\<lparr>heap := m5, all_list_head := h, all_list_end := e\<rparr>) (xs @ b # new # ys)"
    by auto
  let ?s5 = "?s4\<lparr>heap := m5, all_list_head := h, all_list_end := e\<rparr>"
  note v5 = same_histoD [OF m5(2)]
  have w: "sz3 (heap ?s5) = (sz3 (heap s))(b := sz, new := r)" "free3 (heap ?s5) = (free3 (heap s))(b := False, new := True)"
    using h1(4,5) v2(4,5) v3(4,5) v5(4,5) bd3 nf(2) by (simp_all add: fun_upd_twist)
  have f: "brk ?s5 = brk s" "data ?s5 = data s" "mmaped_blocks_num ?s5 = mmaped_blocks_num s"
    "num_of_metadatas ?s5 = sz_add (num_of_metadatas s) 1" by (simp_all add: s1_def place_metadata_def)
  have "inv3 ?s5 (xs @ b # new # ys) k"
    using inv3_split [OF assms(1) [unfolded as] assms(3) m5(3) [unfolded new_def]
        hist_same [OF h4 m5(2), unfolded as new_def] w [unfolded new_def] f(1,3,4)] by (simp add: new_def)
  moreover have "split_block b sz s = Some (b, ?s5)"
  proof -
    have "(place_metadata new True r s)\<lparr>num_of_metadatas := sz_add (num_of_metadatas (place_metadata new True r s)) 1\<rparr> = s1"
      by (simp add: s1_def place_metadata_def)
    then show ?thesis using b(1,2) m2(1) m3(1) p4 m5(1) rem assms(3)
      unfolding split_block_def new_def [symmetric] by (simp add: Let_def ld_eq)
  qed
  ultimately show ?thesis using w f nf(1) as by (intro exI [of _ ?s5] exI [of _ "xs @ b # new # ys"]) auto
qed

text \<open>The blocks in use.\<close>

definition used :: "mem3 \<Rightarrow> addr set \<Rightarrow> addr set" where
  "used m A = {a \<in> A. \<not> free3 m a}"

text \<open>
  What an allocation promises: \<open>b\<close> was not in use, now is, and is large enough; no other block changes,
  and every free block is a part of one that was free before.
\<close>

definition handed3 :: "mem3 \<Rightarrow> mem3 \<Rightarrow> addr set \<Rightarrow> addr set \<Rightarrow> sz \<Rightarrow> addr \<Rightarrow> bool" where
  "handed3 m m' A A' sz b \<longleftrightarrow> A \<subseteq> A' \<and> b \<notin> used m A \<and> used m' A' = insert b (used m A) \<and> sz \<le> sz3 m' b \<and>
     (\<forall>a \<in> A. a \<noteq> b \<longrightarrow> sz3 m' a = sz3 m a \<and> free3 m' a = free3 m a) \<and>
     (\<forall>a \<in> A'. free3 m' a \<longrightarrow> (\<exists>c \<in> A. free3 m c \<and> c \<le> a \<and> a + sz3 m' a \<le> c + sz3 m c))"

text \<open>
  The exact outcomes of an allocation, by where the block comes from. A free block is taken whole when less than
  128 bytes and a header would be left over, and else split; the last block, when it is free, is extended to the size asked for;
  else a header and a block are appended at the program break. \<open>sbrk\<close> can refuse, also between the
  header and the block.
\<close>

definition taken3 :: "mem3 \<Rightarrow> mem3 \<Rightarrow> addr set \<Rightarrow> addr set \<Rightarrow> sz \<Rightarrow> addr \<Rightarrow> bool" where
  "taken3 m m' A A' sz b \<longleftrightarrow>
     (let rest = b + META + sz in
      if sz3 m b - sz < 128 + META then A' = A \<and> sz3 m' = sz3 m \<and> free3 m' = (free3 m)(b := False)
      else rest \<notin> A \<and> A' = insert rest A \<and> sz3 m' = (sz3 m)(b := sz, rest := sz3 m b - sz - META) \<and>
        free3 m' = (free3 m)(b := False, rest := True))"

definition grown3 :: "grant \<Rightarrow> sz \<Rightarrow> alloc3 \<Rightarrow> addr list \<Rightarrow> addr \<Rightarrow> alloc3 \<Rightarrow> addr list \<Rightarrow> bool" where
  "grown3 grant sz s as p s' as' \<longleftrightarrow> as' = as \<and>
     (case sbrk grant (int (sz - sz3 (heap s) (last as))) (brk s) of
        (None, _) \<Rightarrow> p = NULL \<and> s' = s
      | (Some _, e) \<Rightarrow> p = last as + META \<and> brk s' = e \<and> sz3 (heap s') = (sz3 (heap s))(last as := sz) \<and>
          free3 (heap s') = (free3 (heap s))(last as := False))"

definition appended3 :: "grant \<Rightarrow> sz \<Rightarrow> alloc3 \<Rightarrow> addr list \<Rightarrow> addr \<Rightarrow> alloc3 \<Rightarrow> addr list \<Rightarrow> bool" where
  "appended3 grant sz s as p s' as' \<longleftrightarrow>
     (case sbrk grant (int META) (brk s) of
        (None, _) \<Rightarrow> p = NULL \<and> s' = s \<and> as' = as
      | (Some b, e) \<Rightarrow>
          sz3 (heap s') = (sz3 (heap s))(b := sz) \<and> free3 (heap s') = (free3 (heap s))(b := False) \<and>
          (case sbrk grant (int sz) e of
             (None, _) \<Rightarrow> p = NULL \<and> as' = as \<and> brk s' = e
           | (Some q, e') \<Rightarrow> p = b + META \<and> p = q \<and> as' = as @ [b] \<and> brk s' = e'))"

lemma to_intptr_small: "n < MMAP_SIZE \<Longrightarrow> to_intptr n = int n"
  by (simp add: to_intptr_def MMAP_SIZE_def)

lemma hist_brk [simp]: "hist (s\<lparr>brk := b\<rparr>) F = hist s F"
  by (simp add: hist_def histo_ok_def)

lemma list_brk [simp]: "list_ok (s\<lparr>brk := b\<rparr>) as = list_ok s as"
  by (simp add: list_ok_def)

lemma grow_last:
  assumes "inv3 s as k" "as \<noteq> []" "free3 (heap s) (last as)" "sz3 (heap s) (last as) \<le> sz" "sz < MMAP_SIZE"
    and "brk s + (sz - sz3 (heap s) (last as)) < SIZE_MOD"
  defines "b \<equiv> last as"
  shows "\<exists>s'. do { s \<leftarrow> remove_node_histo b (s\<lparr>brk := brk s + (sz - sz3 (heap s) b)\<rparr>);
        upd b (\<lambda>m. m\<lparr>b_size := sz, b_free := False\<rparr>) s } = Some s' \<and>
    inv3 s' as k \<and> data s' = data s \<and> all_list_end s' = all_list_end s \<and> brk s' = brk s + (sz - sz3 (heap s) b) \<and>
    sz3 (heap s') = (sz3 (heap s))(b := sz) \<and> free3 (heap s') = (free3 (heap s))(b := False)"
proof -
  note i = inv3D [OF assms(1)]
  have bs: "b \<in> set as" using assms(2) by (simp add: b_def)
  note b = inv3_block [OF assms(1) bs]
  let ?F = "{a \<in> set as. free3 (heap s) a}"
  let ?s0 = "s\<lparr>brk := brk s + (sz - sz3 (heap s) b)\<rparr>"
  have h0: "hist ?s0 ?F" using i(4) by simp
  obtain m f where m: "remove_node_histo b ?s0 = Some (?s0\<lparr>heap := m, free_histogram := f\<rparr>)" "same_list (heap s) m"
      "hist (?s0\<lparr>heap := m, free_histogram := f\<rparr>) (?F - {b})"
    using hist_remove [OF h0, of b] bs assms(3) by (auto simp: b_def)
  note v = same_listD [OF m(2)]
  let ?s1 = "?s0\<lparr>heap := m, free_histogram := f\<rparr>"
  let ?g = "\<lambda>m. m\<lparr>b_size := sz, b_free := False\<rparr>"
  let ?s2 = "?s1\<lparr>heap := put b ?g m\<rparr>"
  have bd: "b \<in> dom (heap ?s1)" using b(2) v(1) by simp
  have u: "upd b ?g ?s1 = Some ?s2" using upd_eq [of b ?s1] b(1) bd by simp
  have w: "sz3 (heap ?s2) = (sz3 (heap s))(b := sz)" "free3 (heap ?s2) = (free3 (heap s))(b := False)"
    using bd v by simp_all
  have "hist ?s2 (?F - {b})" using hist_put [OF m(3) _ bd, of ?g] by simp
  moreover have "{a \<in> set as. free3 (heap ?s2) a} = ?F - {b}" unfolding w by auto
  moreover have "list_ok ?s0 as" using i(1) by simp
  then have "list_ok ?s1 as" using list_same [of ?s0 as m f] m(2) by simp
  then have "list_ok ?s2 as" using list_put [OF _ bd, of as ?g] by simp
  moreover have "\<forall>x \<in> set as. x \<le> b"
    using i(2) assms(2) by (cases as rule: rev_cases) (auto simp: sorted_wrt_append b_def)
  then have "stack META ((sz3 (heap s))(b := sz)) (brk s + (sz - sz3 (heap s) b)) (set as)"
    using stack_grow [OF i(3) bs] assms(4,6) by (simp add: b_def)
  ultimately have "inv3 ?s2 as k"
    unfolding inv3_def using i(2,5,6) w assms(5) by simp
  then show ?thesis using m(1) u w by (intro exI [of _ ?s2]) simp
qed

lemma new_header:
  fixes sz :: sz
  assumes "inv3 s as k" "brk s + META \<le> b'" "b' < SIZE_MOD"
  defines "s1 \<equiv> s\<lparr>brk := b', heap := (heap s)(brk s \<mapsto> blank\<lparr>b_size := sz, b_free := False\<rparr>),
      num_of_metadatas := sz_add (num_of_metadatas s) 1\<rparr>"
  shows "inv3 s1 as (Suc k)" "brk s \<notin> set as" "brk s \<in> dom (heap s1)"
    "sz3 (heap s1) = (sz3 (heap s))(brk s := sz)" "free3 (heap s1) = (free3 (heap s))(brk s := False)"
proof -
  note i = inv3D [OF assms(1)]
  show nb: "brk s \<notin> set as" using stack_below [OF i(3)] by blast
  show "brk s \<in> dom (heap s1)" by (simp add: s1_def)
  have v: "\<And>x. x \<noteq> brk s \<Longrightarrow> ln (heap s1) x = ln (heap s) x \<and> lp (heap s1) x = lp (heap s) x \<and>
      hn (heap s1) x = hn (heap s) x \<and> hp (heap s1) x = hp (heap s) x"
    by (simp add: s1_def ln_def lp_def hn_def hp_def)
  show w: "sz3 (heap s1) = (sz3 (heap s))(brk s := sz)" "free3 (heap s1) = (free3 (heap s))(brk s := False)"
    by (auto simp: s1_def sz3_def free3_def core3_def csize_def cfree_def fun_eq_iff)
  have f: "free_histogram s1 = free_histogram s" "all_list_head s1 = all_list_head s" "all_list_end s1 = all_list_end s"
    "brk s1 = b'" "mmaped_blocks_num s1 = mmaped_blocks_num s" "num_of_metadatas s1 = sz_add (num_of_metadatas s) 1"
    by (simp_all add: s1_def)
  have d: "dom (heap s1) = insert (brk s) (dom (heap s))" by (simp add: s1_def)
  have n: "NULL \<notin> dom (heap s1)" using i(8) stackD(4) [OF i(3)] unfolding d by (metis insertE less_irrefl)
  have F: "{a \<in> set as. free3 (heap s) a} \<subseteq> dom (heap s1)" "set as \<subseteq> dom (heap s1)" using i(7) unfolding d by blast+
  have ne: "a \<noteq> brk s" if "a \<in> set as" for a using that nb by blast
  have "hist s1 {a \<in> set as. free3 (heap s) a}"
    by (rule hist_frame [OF i(4) f(1) n F(1)]) (use v w ne in simp_all)
  moreover have "{a \<in> set as. free3 (heap s1) a} = {a \<in> set as. free3 (heap s) a}" unfolding w using nb by auto
  moreover have "list_ok s1 as"
    by (rule list_ok_frame [OF i(1) f(2,3) n F(2)]) (use v ne in simp_all)
  moreover have "stack META (sz3 (heap s1)) b' (set as)"
  proof -
    have "stack META (sz3 (heap s1)) (brk s) (set as)"
      using i(3) stack_cong [of "set as" "sz3 (heap s1)" "sz3 (heap s)"] w(1) ne by simp
    then show ?thesis using stack_mono assms(2,3) by (metis add_leD1)
  qed
  moreover have "sz_add (num_of_metadatas s) 1 = (length as + Suc k + mmaped_blocks_num s) mod SIZE_MOD"
    using i(6) sz_add_mod [of "length as + k + mmaped_blocks_num s" 1] by simp
  ultimately show "inv3 s1 as (Suc k)"
    unfolding inv3_def f using i(2,5) w(1) ne by simp
qed

lemma append_block:
  assumes "inv3 s as k" "brk s + META + sz < SIZE_MOD" "sz < MMAP_SIZE"
  defines "s1 \<equiv> s\<lparr>brk := brk s + META + sz, heap := (heap s)(brk s \<mapsto> blank\<lparr>b_size := sz, b_free := False\<rparr>),
      num_of_metadatas := sz_add (num_of_metadatas s) 1\<rparr>"
  shows "\<exists>s'. add_node_list (brk s) (all_list_end s1) s1 = Some s' \<and> inv3 s' (as @ [brk s]) k \<and> data s' = data s \<and>
    brk s' = brk s + META + sz \<and> sz3 (heap s') = (sz3 (heap s))(brk s := sz) \<and> free3 (heap s') = (free3 (heap s))(brk s := False)"
proof -
  note i = inv3D [OF assms(1)]
  have h: "inv3 s1 as (Suc k)" "brk s \<notin> set as" "brk s \<in> dom (heap s1)"
    "sz3 (heap s1) = (sz3 (heap s))(brk s := sz)" "free3 (heap s1) = (free3 (heap s))(brk s := False)"
    using new_header(1,3-5) [where sz = sz, OF assms(1) _ assms(2)] new_header(2) [OF assms(1) _ assms(2)]
    by (simp_all add: s1_def)
  note i1 = inv3D [OF h(1)]
  have e: "all_list_end s1 = last (NULL # as)" using i1(1) by (simp add: list_ok_def)
  obtain m where m: "add_node_list (brk s) (last (NULL # as)) s1 =
      Some (s1\<lparr>heap := m, all_list_head := hd (as @ [brk s]), all_list_end := last [brk s]\<rparr>)"
      "same_histo (heap s1) m"
      "list_ok (s1\<lparr>heap := m, all_list_head := hd (as @ [brk s]), all_list_end := last [brk s]\<rparr>) (as @ [brk s])"
    using add_node_list_ok [of s1 as "[]" "brk s"] i1(1) h(2,3) by auto
  let ?s = "s1\<lparr>heap := m, all_list_head := hd (as @ [brk s]), all_list_end := last [brk s]\<rparr>"
  note v = same_histoD [OF m(2)]
  have f: "brk ?s = brk s + META + sz" "data ?s = data s" "num_of_metadatas ?s = sz_add (num_of_metadatas s) 1"
    "mmaped_blocks_num ?s = mmaped_blocks_num s" by (simp_all add: s1_def)
  have w: "sz3 (heap ?s) = (sz3 (heap s))(brk s := sz)" "free3 (heap ?s) = (free3 (heap s))(brk s := False)"
    using v h(4,5) by simp_all
  have "sorted_wrt (<) (as @ [brk s])" using i(2) stack_below [OF i(3)] by (simp add: sorted_wrt_append)
  moreover have "stack META (sz3 (heap ?s)) (brk ?s) (set (as @ [brk s]))"
    using stack_append [OF i(3) assms(2)] unfolding w f by simp
  moreover have "hist ?s {a \<in> set (as @ [brk s]). free3 (heap ?s) a}"
  proof -
    have "{a \<in> set (as @ [brk s]). free3 (heap ?s) a} = {a \<in> set as. free3 (heap s1) a}"
      unfolding w h(5) by auto
    then show ?thesis using hist_same [OF i1(4) m(2)] by simp
  qed
  moreover have "\<forall>a \<in> set (as @ [brk s]). sz3 (heap ?s) a < MMAP_SIZE" unfolding w using i(5) assms(3) by auto
  moreover have "num_of_metadatas ?s = (length (as @ [brk s]) + k + mmaped_blocks_num ?s) mod SIZE_MOD"
    unfolding f using i(6) sz_add_mod [of "length as + k + mmaped_blocks_num s" 1] by simp
  ultimately have "inv3 ?s (as @ [brk s]) k" unfolding inv3_def using m(3) by blast
  then show ?thesis using m(1) e f(1,2) w by (intro exI [of _ ?s]) simp
qed

lemma brk_first:
  "s\<lparr>heap := m, num_of_metadatas := n, brk := b\<rparr> = s\<lparr>brk := b, heap := m, num_of_metadatas := n\<rparr>"
  by simp

text \<open>\<open>sbrk_wrapper\<close> when the last block is free: it is extended.\<close>

lemma sbrk_wrapper_grows:
  assumes "inv3 s as k" "0 < sz" "sz < MMAP_SIZE" "\<And>b. b \<in> set as \<Longrightarrow> free3 (heap s) b \<Longrightarrow> sz3 (heap s) b < sz"
    and True: "as \<noteq> [] \<and> free3 (heap s) (last as)"
  shows "\<exists>p s' as' k'. sbrk_wrapper grant sz s = Some (p, s') \<and> inv3 s' as' k' \<and> data s' = data s \<and>
    (if p = NULL then as' = as \<and> (\<forall>a \<in> set as. sz3 (heap s') a = sz3 (heap s) a \<and> free3 (heap s') a = free3 (heap s) a)
     else \<exists>b. p = b + META \<and> handed3 (heap s) (heap s') (set as) (set as') sz b) \<and> grown3 grant sz s as p s' as'"
proof -
  note i = inv3D [OF assms(1)]
  let ?w = "if all_list_end s = NULL then Some None
     else do { m \<leftarrow> ld (all_list_end s) s; Some (if b_free m then Some (b_size m) else None) }"
  have en: "all_list_end s = last (NULL # as)" using i(1) by (simp add: list_ok_def)
  have Mn: "META \<noteq> 0" "\<not> META > MAX_SIZE" "META < MMAP_SIZE" by (simp_all add: META_def MAX_SIZE_def MMAP_SIZE_def)
  let ?b = "last as"
  have bs: "?b \<in> set as" using True by simp
  note b = inv3_block [OF assms(1) bs]
  have lt: "sz3 (heap s) ?b < sz" using assms(4) [OF bs] True by simp
  have eb: "all_list_end s = ?b" using en True by simp
  have w: "?w = Some (Some (sz3 (heap s) ?b))" using b True eb by (simp add: ld_eq)
  have n: "to_intptr (sz_sub sz (sz3 (heap s) ?b)) = int (sz - sz3 (heap s) ?b)"
    using lt assms(3) by (simp add: sz_sub_exact to_intptr_small MMAP_SIZE_def SIZE_MOD_def)
  show ?thesis
  proof (cases rule: sbrk_cases [of grant "int (sz - sz3 (heap s) ?b)" "brk s"])
    case 1
    then have "sbrk_wrapper grant sz s = Some (NULL, s)"
      unfolding sbrk_wrapper_def w by (simp add: n)
    with assms(1) 1 show ?thesis
      by (intro exI [of _ NULL] exI [of _ s] exI [of _ as] exI [of _ k]) (simp add: grown3_def)
  next
    case 2
    have e: "nat (int (brk s) + int (sz - sz3 (heap s) ?b)) = brk s + (sz - sz3 (heap s) ?b)" by simp
    have "brk s + (sz - sz3 (heap s) ?b) < SIZE_MOD" using 2(3) e by simp
    from grow_last [OF assms(1) _ _ _ assms(3) this] lt True obtain s' where
      s': "do { s \<leftarrow> remove_node_histo ?b (s\<lparr>brk := brk s + (sz - sz3 (heap s) ?b)\<rparr>);
          upd ?b (\<lambda>m. m\<lparr>b_size := sz, b_free := False\<rparr>) s } = Some s'"
        "inv3 s' as k" "data s' = data s" "all_list_end s' = all_list_end s"
        "sz3 (heap s') = (sz3 (heap s))(?b := sz)" "free3 (heap s') = (free3 (heap s))(?b := False)"
        "brk s' = brk s + (sz - sz3 (heap s) ?b)"
      by auto
    obtain s1 where s1: "remove_node_histo ?b (s\<lparr>brk := brk s + (sz - sz3 (heap s) ?b)\<rparr>) = Some s1"
        "upd ?b (\<lambda>m. m\<lparr>b_size := sz, b_free := False\<rparr>) s1 = Some s'"
      using s'(1) by (auto split: bind_splits)
    have "all_list_end s1 = ?b"
      using s1(2) s'(4) eb by (auto simp: upd_def split: bind_splits)
    then have "sbrk_wrapper grant sz s = Some (?b + META, s')"
      unfolding sbrk_wrapper_def w using 2(1) s1 s'(4) eb by (simp add: n e [simplified])
    moreover have "handed3 (heap s) (heap s') (set as) (set as) sz ?b"
      using bs True s'(5,6) by (auto simp: handed3_def used_def)
    moreover have "grown3 grant sz s as (?b + META) s' as" using 2(1) e s'(5-7) by (simp add: grown3_def)
    ultimately show ?thesis using s'(2,3) Mn(1)
      by (intro exI [of _ "?b + META"] exI [of _ s'] exI [of _ as] exI [of _ k]) auto
  qed
qed

text \<open>\<open>sbrk_wrapper\<close> when it is not, or there is none: a header, then the block itself, put behind it.\<close>

lemma sbrk_wrapper_new:
  assumes "inv3 s as k" "sz < MMAP_SIZE" "\<not> (as \<noteq> [] \<and> free3 (heap s) (last as))"
  defines "s1 \<equiv> \<lambda>b. s\<lparr>brk := b, heap := (heap s)(brk s \<mapsto> blank\<lparr>b_size := sz, b_free := False\<rparr>),
      num_of_metadatas := sz_add (num_of_metadatas s) 1\<rparr>"
  shows "sbrk_wrapper grant sz s = (case sbrk grant (int META) (brk s) of
       (None, _) \<Rightarrow> Some (NULL, s)
     | (Some _, _) \<Rightarrow> (case sbrk grant (int sz) (brk s + META) of
            (None, _) \<Rightarrow> Some (NULL, s1 (brk s + META))
          | (Some newptr, b) \<Rightarrow> do {
              s' \<leftarrow> add_node_list (brk s) (all_list_end (s1 b)) (s1 b);
              Some (newptr, s') }))"
proof -
  note i = inv3D [OF assms(1)]
  have en: "all_list_end s = last (NULL # as)" using i(1) by (simp add: list_ok_def)
  have Mn: "META \<noteq> 0" "\<not> META > MAX_SIZE" "META < MMAP_SIZE" by (simp_all add: META_def MAX_SIZE_def MMAP_SIZE_def)
  have pos: "0 < brk s" using stackD(4) [OF i(3)] .
  have w: "(if all_list_end s = NULL then Some None
     else do { m \<leftarrow> ld (all_list_end s) s; Some (if b_free m then Some (b_size m) else None) }) = Some None"
  proof (cases "as = []")
    case False
    then have "last as \<in> set as" by simp
    then show ?thesis using inv3_block [OF assms(1), of "last as"] en False assms(3) by (simp add: ld_eq)
  qed (use en in simp)
  show ?thesis
  proof (cases rule: sbrk_cases [of grant "int META" "brk s"])
    case 1
    then show ?thesis unfolding sbrk_wrapper_def w
      using Mn by (simp add: create_metadata_sbrk_def smalloc_naive_def to_intptr_small)
  next
    case 2
    have "nat (int (brk s) + int META) = brk s + META" by simp
    then have "create_metadata_sbrk grant sz False s = (brk s, s1 (brk s + META))"
      using 2(1) Mn pos by (simp add: create_metadata_sbrk_def smalloc_naive_def to_intptr_small s1_def)
    then show ?thesis unfolding sbrk_wrapper_def w
      using pos assms(2) 2(1) by (simp add: to_intptr_small brk_first s1_def split: prod.splits option.splits)
  qed
qed

lemma sbrk_wrapper_appends:
  assumes "inv3 s as k" "0 < sz" "sz < MMAP_SIZE" and last: "\<not> (as \<noteq> [] \<and> free3 (heap s) (last as))"
  shows "\<exists>p s' as' k'. sbrk_wrapper grant sz s = Some (p, s') \<and> inv3 s' as' k' \<and> data s' = data s \<and>
    (if p = NULL then as' = as \<and> (\<forall>a \<in> set as. sz3 (heap s') a = sz3 (heap s) a \<and> free3 (heap s') a = free3 (heap s) a)
     else \<exists>b. p = b + META \<and> handed3 (heap s) (heap s') (set as) (set as') sz b) \<and> appended3 grant sz s as p s' as'"
proof -
  note i = inv3D [OF assms(1)] and sw = sbrk_wrapper_new [OF assms(1,3,4), of grant]
  have pos: "0 < brk s" using stackD(4) [OF i(3)] .
  show ?thesis
  proof (cases rule: sbrk_cases [of grant "int META" "brk s"])
    case 1
    with sw assms(1) show ?thesis
      by (intro exI [of _ NULL] exI [of _ s] exI [of _ as] exI [of _ k]) (simp add: appended3_def)
  next
    case 2
    let ?s1 = "\<lambda>b. s\<lparr>brk := b, heap := (heap s)(brk s \<mapsto> blank\<lparr>b_size := sz, b_free := False\<rparr>),
      num_of_metadatas := sz_add (num_of_metadatas s) 1\<rparr>"
    have e: "nat (int (brk s) + int META) = brk s + META" "nat (int (brk s + META) + int sz) = brk s + META + sz" by simp_all
    show ?thesis
    proof (cases rule: sbrk_cases [of grant "int sz" "brk s + META"])
      case 1
      have b: "brk s + META \<le> brk s + META" "brk s + META < SIZE_MOD" using 2(3) e(1) by simp_all
      note h = new_header(1,4,5) [where sz = sz, OF assms(1) b] and n = new_header(2) [OF assms(1) b]
      have "sbrk_wrapper grant sz s = Some (NULL, ?s1 (brk s + META))" using sw 2(1) 1 by simp
      moreover have "appended3 grant sz s as NULL (?s1 (brk s + META)) as"
        using 2(1) 1 e(1) h(2,3) by (simp add: appended3_def)
      ultimately show ?thesis using h n
        by (intro exI [of _ NULL] exI [of _ "?s1 (brk s + META)"] exI [of _ as] exI [of _ "Suc k"]) auto
    next
      case 3: 2
      obtain s' where s': "add_node_list (brk s) (all_list_end (?s1 (brk s + META + sz))) (?s1 (brk s + META + sz)) = Some s'"
          "inv3 s' (as @ [brk s]) k" "data s' = data s" "sz3 (heap s') = (sz3 (heap s))(brk s := sz)"
          "free3 (heap s') = (free3 (heap s))(brk s := False)" "brk s' = brk s + META + sz"
        using append_block [OF assms(1) _ assms(3)] 3(3) e(2) by auto
      have "sbrk_wrapper grant sz s = Some (brk s + META, s')"
        unfolding sw 2(1) 3(1) e using s'(1) by simp
      moreover have "handed3 (heap s) (heap s') (set as) (set (as @ [brk s])) sz (brk s)"
        using s'(4,5) stack_below [OF i(3)] by (auto simp: handed3_def used_def)
      moreover have "appended3 grant sz s as (brk s + META) s' (as @ [brk s])"
        using 2(1) 3(1) e s'(4-6) by (simp add: appended3_def)
      ultimately show ?thesis using s'(2,3) pos
        by (intro exI [of _ "brk s + META"] exI [of _ s'] exI [of _ "as @ [brk s]"] exI [of _ k]) auto
    qed
  qed
qed

lemma sbrk_wrapper_ok:
  assumes "inv3 s as k" "0 < sz" "sz < MMAP_SIZE" "\<And>b. b \<in> set as \<Longrightarrow> free3 (heap s) b \<Longrightarrow> sz3 (heap s) b < sz"
  shows "\<exists>p s' as' k'. sbrk_wrapper grant sz s = Some (p, s') \<and> inv3 s' as' k' \<and> data s' = data s \<and>
    (if p = NULL then as' = as \<and> (\<forall>a \<in> set as. sz3 (heap s') a = sz3 (heap s) a \<and> free3 (heap s') a = free3 (heap s) a)
     else \<exists>b. p = b + META \<and> handed3 (heap s) (heap s') (set as) (set as') sz b)"
  using sbrk_wrapper_grows [OF assms] sbrk_wrapper_appends [OF assms(1-3)] by blast

text \<open>The search from the bin of the request on: no free block is large enough, or the best one.\<close>

lemma best_fit:
  assumes "inv3 s as k" "sz < MMAP_SIZE"
  obtains c where "histo_search s sz (drop (sz div 1024) (free_histogram s)) = Some c"
    "c = NULL \<longrightarrow> (\<forall>a \<in> set as. free3 (heap s) a \<longrightarrow> sz3 (heap s) a < sz)"
    "c \<noteq> NULL \<longrightarrow> c \<in> set as \<and> free3 (heap s) c \<and> sz \<le> sz3 (heap s) c \<and>
      (\<forall>a \<in> set as. free3 (heap s) a \<and> sz \<le> sz3 (heap s) a \<longrightarrow> sz3 (heap s) c \<le> sz3 (heap s) a)"
proof -
  let ?F = "{a \<in> set as. free3 (heap s) a}"
  obtain H where H: "histo_ok s H" "binned (heap s) ?F H" using inv3D(4) [OF assms(1)] by (auto simp: hist_def)
  have "sz div 1024 \<le> BINS" using assms(2) by (simp add: MMAP_SIZE_def BINS_def)
  then obtain c where c: "histo_search s sz (drop (sz div 1024) (free_histogram s)) = Some c"
      "best_from (heap s) ?F (sz div 1024) sz c"
    using histo_search_ok [OF H, of "sz div 1024" sz] by auto
  have le: "sz div 1024 \<le> sz3 (heap s) a div 1024 \<and> sz \<le> sz3 (heap s) a \<longleftrightarrow> sz \<le> sz3 (heap s) a" for a
    using div_le_mono by blast
  show thesis
  proof (rule that [OF c(1)])
    show "c = NULL \<longrightarrow> (\<forall>a \<in> set as. free3 (heap s) a \<longrightarrow> sz3 (heap s) a < sz)"
      using c(2) le unfolding best_from_def by (metis (mono_tags, lifting) linorder_not_le mem_Collect_eq)
  qed (use c(2) le in \<open>auto simp: best_from_def split: if_splits\<close>)
qed

text \<open>The block found is taken whole, or split when enough would be left over.\<close>

lemma use_block:
  assumes "inv3 s as k" "c \<in> set as" "free3 (heap s) c" "sz \<le> sz3 (heap s) c"
  shows "\<exists>s' as'. do {
      m \<leftarrow> ld c s;
      if sz_sub (b_size m) sz < 128 + META then do {
        s \<leftarrow> remove_node_histo c s;
        s \<leftarrow> upd c (b_free_update (\<lambda>_. False)) s;
        Some (c + META, s) }
      else do {
        (p, s) \<leftarrow> split_block c sz s;
        Some (p + META, s) } } = Some (c + META, s') \<and>
    inv3 s' as' k \<and> data s' = data s \<and> handed3 (heap s) (heap s') (set as) (set as') sz c \<and>
    taken3 (heap s) (heap s') (set as) (set as') sz c"
proof -
  note b = inv3_block [OF assms(1,2)]
  have sub: "sz_sub (sz3 (heap s) c) sz = sz3 (heap s) c - sz"
    using assms(4) inv3D(5) [OF assms(1,2)] by (simp add: sz_sub_exact MMAP_SIZE_def SIZE_MOD_def)
  show ?thesis
  proof (cases "sz3 (heap s) c - sz < 128 + META")
    case True
    obtain s1 s' where s': "remove_node_histo c s = Some s1" "upd c (b_free_update (\<lambda>_. False)) s1 = Some s'"
        "inv3 s' as k" "data s' = data s" "sz3 (heap s') = sz3 (heap s)" "free3 (heap s') = (free3 (heap s))(c := False)"
      using take_block [OF assms(1-3)] by (auto split: bind_splits)
    moreover have "handed3 (heap s) (heap s') (set as) (set as) sz c" using assms s' by (auto simp: handed3_def used_def)
    moreover have "taken3 (heap s) (heap s') (set as) (set as) sz c" using True s'(5,6) by (simp add: taken3_def)
    ultimately show ?thesis using True sub b by (intro exI [of _ s'] exI [of _ as]) (simp add: ld_eq)
  next
    case False
    then have sp: "sz3 (heap s) c = sz + META + (sz3 (heap s) c - sz - META)" using assms(4) by simp
    obtain s' as' where s': "split_block c sz s = Some (c, s')" "inv3 s' as' k"
        "set as' = insert (c + META + sz) (set as)" "c + META + sz \<notin> set as" "data s' = data s"
        "sz3 (heap s') = (sz3 (heap s))(c := sz, c + META + sz := sz3 (heap s) c - sz - META)"
        "free3 (heap s') = (free3 (heap s))(c := False, c + META + sz := True)"
      using split_block_ok [OF assms(1,2) sp] by blast
    have "c \<noteq> c + META + sz" using s'(4) assms(2) by metis
    moreover have "c + META + sz + (sz3 (heap s) c - (sz + META)) \<le> c + sz3 (heap s) c" using sp by simp
    ultimately have "handed3 (heap s) (heap s') (set as) (set as') sz c"
      using assms(2-4) s'(3,4,6,7) by (auto simp: handed3_def used_def intro: bexI [of _ c])
    moreover have "taken3 (heap s) (heap s') (set as) (set as') sz c"
      using False s'(3,4,6,7) by (simp add: taken3_def)
    ultimately show ?thesis using False sub b s'(1,2,5) by (intro exI [of _ s'] exI [of _ as']) (simp add: ld_eq)
  qed
qed

lemma smalloc3_spec:
  assumes "inv3 s as k" "sz < MMAP_SIZE"
  shows "\<exists>p s' as' k'. smalloc grant mm sz s = Some (p, s') \<and> inv3 s' as' k' \<and> data s' = data s \<and>
    (if p = NULL then as' = as \<and> (\<forall>a \<in> set as. sz3 (heap s') a = sz3 (heap s) a \<and> free3 (heap s') a = free3 (heap s) a)
     else \<exists>b. p = b + META \<and> handed3 (heap s) (heap s') (set as) (set as') sz b \<and>
       (\<forall>a \<in> set as. free3 (heap s) a \<and> sz \<le> sz3 (heap s) a \<longrightarrow>
          b \<in> set as \<and> free3 (heap s) b \<and> sz3 (heap s) b \<le> sz3 (heap s) a))"
proof (cases "sz = 0")
  case True
  with assms(1) show ?thesis
    by (intro exI [of _ NULL] exI [of _ s] exI [of _ as] exI [of _ k]) (simp add: smalloc_def)
next
  case False
  obtain c where c: "histo_search s sz (drop (sz div 1024) (free_histogram s)) = Some c"
    "c = NULL \<longrightarrow> (\<forall>a \<in> set as. free3 (heap s) a \<longrightarrow> sz3 (heap s) a < sz)"
    "c \<noteq> NULL \<longrightarrow> c \<in> set as \<and> free3 (heap s) c \<and> sz \<le> sz3 (heap s) c \<and>
      (\<forall>a \<in> set as. free3 (heap s) a \<and> sz \<le> sz3 (heap s) a \<longrightarrow> sz3 (heap s) c \<le> sz3 (heap s) a)"
    using best_fit [OF assms] .
  have limits: "\<not> sz > MAX_SIZE" "\<not> sz \<ge> MMAP_SIZE" using assms(2) by (simp_all add: MMAP_SIZE_def MAX_SIZE_def)
  show ?thesis
  proof (cases "c = NULL")
    case True
    have small: "sz3 (heap s) b < sz" if "b \<in> set as" "free3 (heap s) b" for b using c(2) True that by blast
    then have "\<not> (free3 (heap s) a \<and> sz \<le> sz3 (heap s) a)" if "a \<in> set as" for a using that by fastforce
    moreover have "smalloc grant mm sz s = sbrk_wrapper grant sz s" using False limits c(1) True by (simp add: smalloc_def)
    moreover have "0 < sz" using False by simp
    ultimately show ?thesis using sbrk_wrapper_ok [OF assms(1) \<open>0 < sz\<close> assms(2) small, of grant]
      by (metis (no_types, lifting))
  next
    case cn: False
    then have cc: "c \<in> set as" "free3 (heap s) c" "sz \<le> sz3 (heap s) c"
        "\<forall>a \<in> set as. free3 (heap s) a \<and> sz \<le> sz3 (heap s) a \<longrightarrow> sz3 (heap s) c \<le> sz3 (heap s) a"
      using c(3) by auto
    from use_block [OF assms(1) cc(1-3)] obtain s' as' where s': "smalloc grant mm sz s = Some (c + META, s')"
        "inv3 s' as' k" "data s' = data s" "handed3 (heap s) (heap s') (set as) (set as') sz c"
      using False limits c(1) cn by (auto simp: smalloc_def)
    then show ?thesis using cc cn
      by (intro exI [of _ "c + META"] exI [of _ s'] exI [of _ as'] exI [of _ k]) simp
  qed
qed

subsection \<open>Merging and releasing blocks\<close>

lemma unlink_list_ok:
  assumes "list_ok s (xs @ b # d # ys)"
  shows "\<exists>m. do {
      s \<leftarrow> upd b (list_next_update (\<lambda>_. hd (ys @ [NULL]))) s;
      s \<leftarrow> (if hd (ys @ [NULL]) \<noteq> NULL then upd (hd (ys @ [NULL])) (list_prev_update (\<lambda>_. b)) s
            else Some (s\<lparr>all_list_end := b\<rparr>));
      upd d (\<lambda>n. n\<lparr>list_prev := NULL, list_next := NULL\<rparr>) s } = Some (s\<lparr>heap := m, all_list_end := last (b # ys)\<rparr>) \<and>
    same_histo (heap s) m \<and> list_ok (s\<lparr>heap := m, all_list_end := last (b # ys)\<rparr>) (xs @ b # ys)"
proof -
  let ?m = "heap s" let ?n = "hd (ys @ [NULL])"
  have l: "dll (ln ?m) (lp ?m) NULL ((xs @ [b]) @ d # ys) NULL" "distinct ((xs @ [b]) @ d # ys)" "set (xs @ b # d # ys) \<subseteq> dom ?m"
      "NULL \<notin> dom ?m" "all_list_head s = hd ((xs @ b # d # ys) @ [NULL])" "all_list_end s = last (NULL # xs @ b # d # ys)"
    using assms by (auto simp: list_ok_def)
  have nz: "x \<noteq> NULL" if "x \<in> dom ?m" for x using l(4) that by metis
  have b: "b \<noteq> NULL" "b \<in> dom ?m" "b \<noteq> d" and d: "d \<noteq> NULL" "d \<in> dom ?m" using l(2,3) nz [of b] nz [of d] by auto
  have n: "?n \<noteq> NULL \<and> ?n \<in> dom ?m \<and> ?n \<noteq> b \<and> ?n \<noteq> d" if "ys \<noteq> []"
  proof -
    have "?n \<in> set ys" using that by (cases ys) auto
    then have "?n \<in> dom ?m" "?n \<noteq> b" "?n \<noteq> d" using l(2,3) by auto
    then show ?thesis using nz by blast
  qed
  define m1 where "m1 = put b (list_next_update (\<lambda>_. ?n)) ?m"
  define m2 where "m2 = (if ys = [] then m1 else put ?n (list_prev_update (\<lambda>_. b)) m1)"
  define m3 where "m3 = put d (\<lambda>n. n\<lparr>list_prev := NULL, list_next := NULL\<rparr>) m2"
  have e: "do {
      s \<leftarrow> upd b (list_next_update (\<lambda>_. ?n)) s;
      s \<leftarrow> (if ?n \<noteq> NULL then upd ?n (list_prev_update (\<lambda>_. b)) s else Some (s\<lparr>all_list_end := b\<rparr>));
      upd d (\<lambda>n. n\<lparr>list_prev := NULL, list_next := NULL\<rparr>) s } = Some (s\<lparr>heap := m3, all_list_end := last (b # ys)\<rparr>)"
    using b d n l(6) by (cases "ys = []") (simp_all add: upd_eq m1_def m2_def m3_def)
  have v: "ln m3 = ((ln ?m)(b := ?n))(d := NULL)" "lp m3 = ((lp ?m)(?n := if ys = [] then lp ?m ?n else b))(d := NULL)"
    "same_histo ?m m3"
    using b d n by (auto simp: m1_def m2_def m3_def same_histo_def)
  have "dll (ln m3) (lp m3) NULL ((xs @ [b]) @ ys) NULL"
    by (rule dll_remove [OF l(1,2)]) (use l(2) n v(1,2) b in \<open>auto simp: hd_append\<close>)
  then have "list_ok (s\<lparr>heap := m3, all_list_end := last (b # ys)\<rparr>) (xs @ b # ys)"
    using l(2-5) same_histoD(1) [OF v(3)] by (auto simp: list_ok_def hd_append)
  with e v(3) show ?thesis by blast
qed

lemma unite_right_none:
  assumes "inv3 s as k" "as = xs @ b # ys" "\<not> (free3 (heap s) b \<and> ys \<noteq> [] \<and> free3 (heap s) (hd ys))"
  shows "unite_right b s = Some s"
proof -
  have b: "b \<noteq> NULL" "b \<in> dom (heap s)" using inv3_block [OF assms(1), of b] assms(2) by auto
  have n: "ln (heap s) b = hd (ys @ [NULL])" using inv3D(1) [OF assms(1)] assms(2) by (auto simp: list_ok_def dll_mid)
  show ?thesis
  proof (cases ys)
    case Nil
    then show ?thesis using b n by (simp add: unite_right_def ld_eq)
  next
    case (Cons d zs)
    then have "d \<noteq> NULL" "d \<in> dom (heap s)" using inv3_block [OF assms(1), of d] assms(2) by auto
    then show ?thesis using Cons b n assms(3) by (simp add: unite_right_def ld_eq)
  qed
qed

text \<open>A merge, one call after the other.\<close>

lemma unite_right_run:
  assumes "b \<noteq> NULL" "d \<noteq> NULL" "ld b s = Some m" "b_free m" "list_next m = d" "ld d s = Some n" "b_free n"
    and "remove_node_histo d s = Some s1" "remove_node_histo b s1 = Some s2" "ld d s2 = Some n2" "list_prev n2 = b" "list_next n2 = x"
    and "upd b (list_next_update (\<lambda>_. x)) s2 = Some sa"
    and "(if x \<noteq> NULL then upd x (list_prev_update (\<lambda>_. b)) sa else Some (sa\<lparr>all_list_end := b\<rparr>)) = Some sb"
    and "upd d (\<lambda>n. n\<lparr>list_prev := NULL, list_next := NULL\<rparr>) sb = Some s3" "ld d s3 = Some n3"
    and "upd b (\<lambda>m. m\<lparr>b_size := sz_add (b_size m) (sz_add (b_size n3) META), b_free := True\<rparr>) s3 = Some s4"
    and "add_node_histo b s4 = Some s5"
  shows "unite_right b s = Some (s5\<lparr>num_of_metadatas := sz_sub (num_of_metadatas s5) 1\<rparr>)"
  using assms by (cases "x = NULL") (simp_all add: unite_right_def Let_def)

lemma inv3_merge:
  assumes "inv3 s (xs @ b # d # ys) k" "free3 (heap s) b"
  defines "F \<equiv> {a \<in> set (xs @ b # d # ys). free3 (heap s) a}"
  assumes "list_ok s' (xs @ b # ys)" "hist s' (F - {d})"
    and "sz3 (heap s') = (sz3 (heap s))(b := sz3 (heap s) b + META + sz3 (heap s) d)" "free3 (heap s') = free3 (heap s)"
    and "brk s' = brk s" "mmaped_blocks_num s' = mmaped_blocks_num s" "num_of_metadatas s' = sz_sub (num_of_metadatas s) 1"
    and "sz3 (heap s) b + META + sz3 (heap s) d < MMAP_SIZE"
  shows "inv3 s' (xs @ b # ys) k"
proof -
  note i = inv3D [OF assms(1)]
  have ba: "b \<in> set (xs @ b # d # ys)" "d \<in> set (xs @ b # d # ys)" by simp_all
  have se: "set (xs @ b # ys) = set (xs @ b # d # ys) - {d}" using i(9) by auto
  have "sorted_wrt (<) (xs @ b # ys)" using i(2) by (auto simp: sorted_wrt_append)
  moreover have "b < d" "\<forall>x \<in> set (xs @ b # d # ys). \<not> (b < x \<and> x < d)" using i(2) by (auto simp: sorted_wrt_append)
  then have "stack META (sz3 (heap s')) (brk s') (set (xs @ b # ys))"
    using stack_merge [OF i(3) ba] unfolding assms(6,8) se by blast
  moreover have "{a \<in> set (xs @ b # ys). free3 (heap s') a} = F - {d}" unfolding assms(7) se F_def by auto
  moreover have "\<forall>a \<in> set (xs @ b # ys). sz3 (heap s') a < MMAP_SIZE" unfolding assms(6) se using i(5) assms(11) by auto
  moreover have "num_of_metadatas s' = (length (xs @ b # ys) + k + mmaped_blocks_num s') mod SIZE_MOD"
    using i(6) sz_sub_mod [of "length (xs @ b # ys) + k + mmaped_blocks_num s"] assms(9,10) by simp
  ultimately show ?thesis unfolding inv3_def using assms(4,5) by simp
qed

text \<open>Both blocks out of their bins, and the right one out of the list.\<close>

lemma unite_right_unlinks:
  assumes "inv3 s (xs @ b # d # ys) k" "free3 (heap s) b" "free3 (heap s) d"
  defines "x \<equiv> hd (ys @ [NULL])" and "F \<equiv> {a \<in> set (xs @ b # d # ys). free3 (heap s) a}"
  obtains s1 s2 sa sb m f where "remove_node_histo d s = Some s1" "remove_node_histo b s1 = Some s2"
    "list_ok s2 (xs @ b # d # ys)" "upd b (list_next_update (\<lambda>_. x)) s2 = Some sa"
    "(if x \<noteq> NULL then upd x (list_prev_update (\<lambda>_. b)) sa else Some (sa\<lparr>all_list_end := b\<rparr>)) = Some sb"
    "upd d (\<lambda>n. n\<lparr>list_prev := NULL, list_next := NULL\<rparr>) sb = Some (s\<lparr>free_histogram := f, heap := m, all_list_end := last (b # ys)\<rparr>)"
    "list_ok (s\<lparr>free_histogram := f, heap := m, all_list_end := last (b # ys)\<rparr>) (xs @ b # ys)"
    "hist (s\<lparr>free_histogram := f, heap := m, all_list_end := last (b # ys)\<rparr>) (F - {d} - {b})"
    "dom m = dom (heap s)" "sz3 m = sz3 (heap s)" "free3 m = free3 (heap s)"
proof -
  note i = inv3D [OF assms(1)]
  have bd: "b \<in> F" "d \<in> F" "b \<noteq> d" using i(9) assms(2,3) by (auto simp: F_def)
  have hF: "hist s F" using i(4) by (simp add: F_def)
  obtain m1 f1 where m1: "remove_node_histo d s = Some (s\<lparr>heap := m1, free_histogram := f1\<rparr>)" "same_list (heap s) m1"
      "hist (s\<lparr>heap := m1, free_histogram := f1\<rparr>) (F - {d})"
    using hist_remove [OF hF bd(2) assms(3)] by blast
  let ?s1 = "s\<lparr>heap := m1, free_histogram := f1\<rparr>"
  note v1 = same_listD [OF m1(2)]
  obtain m2 f2 where m2: "remove_node_histo b ?s1 = Some (?s1\<lparr>heap := m2, free_histogram := f2\<rparr>)" "same_list m1 m2"
      "hist (?s1\<lparr>heap := m2, free_histogram := f2\<rparr>) (F - {d} - {b})"
    using hist_remove [OF m1(3), of b] bd assms(2) v1 by auto
  let ?s2 = "?s1\<lparr>heap := m2, free_histogram := f2\<rparr>"
  note v2 = same_listD [OF m2(2)]
  have l2: "list_ok ?s2 (xs @ b # d # ys)"
    using list_same [OF list_same [OF i(1) m1(2), of f1], of m2 f2] m2(2) by simp
  from unlink_list_ok [OF l2] obtain m3 sa sb where m3: "upd b (list_next_update (\<lambda>_. x)) ?s2 = Some sa"
      "(if x \<noteq> NULL then upd x (list_prev_update (\<lambda>_. b)) sa else Some (sa\<lparr>all_list_end := b\<rparr>)) = Some sb"
      "upd d (\<lambda>n. n\<lparr>list_prev := NULL, list_next := NULL\<rparr>) sb = Some (?s2\<lparr>heap := m3, all_list_end := last (b # ys)\<rparr>)"
      "same_histo m2 m3" "list_ok (?s2\<lparr>heap := m3, all_list_end := last (b # ys)\<rparr>) (xs @ b # ys)"
    unfolding x_def [symmetric] by (auto split: bind_splits)
  note v3 = same_histoD [OF m3(4)]
  have "NULL \<notin> dom m2" "F - {d} - {b} \<subseteq> dom m2" using i(7,8) v1(1) v2(1) by (auto simp: F_def)
  then have "hist (?s2\<lparr>heap := m3, all_list_end := last (b # ys)\<rparr>) (F - {d} - {b})"
    by (intro hist_frame [OF m2(3)]) (use v3 in simp_all)
  then show thesis
    by (intro that [OF m1(1) m2(1) l2 m3(1,2), of m3 f2]) (use m3(3,5) v1 v2 v3 in \<open>simp_all del: last.simps\<close>)
qed

lemma unite_right_ok:
  assumes "inv3 s as k" "as = xs @ b # d # ys" "free3 (heap s) b" "free3 (heap s) d"
    and "sz3 (heap s) b + META + sz3 (heap s) d < MMAP_SIZE"
  shows "\<exists>s'. unite_right b s = Some s' \<and> inv3 s' (xs @ b # ys) k \<and> brk s' = brk s \<and> data s' = data s \<and>
    sz3 (heap s') = (sz3 (heap s))(b := sz3 (heap s) b + META + sz3 (heap s) d) \<and> free3 (heap s') = free3 (heap s) \<and>
    dom (heap s') = dom (heap s)"
proof -
  note inv = assms(1) [unfolded assms(2)] and i = inv3D [OF assms(1)]
  let ?F = "{a \<in> set (xs @ b # d # ys). free3 (heap s) a}" and ?n = "hd (ys @ [NULL])"
  let ?t = "sz3 (heap s) b + META + sz3 (heap s) d"
  have b: "b \<noteq> NULL" "b \<in> dom (heap s)" and d: "d \<noteq> NULL" "d \<in> dom (heap s)"
    using inv3_block [OF inv] by auto
  have lb: "ln (heap s) b = d" using i(1) assms(2) by (auto simp: list_ok_def dll_mid)
  from unite_right_unlinks [OF inv assms(3,4)] obtain s1 s2 sa sb m f where
    u: "remove_node_histo d s = Some s1" "remove_node_histo b s1 = Some s2" "list_ok s2 (xs @ b # d # ys)"
      "upd b (list_next_update (\<lambda>_. ?n)) s2 = Some sa"
      "(if ?n \<noteq> NULL then upd ?n (list_prev_update (\<lambda>_. b)) sa else Some (sa\<lparr>all_list_end := b\<rparr>)) = Some sb"
      "upd d (\<lambda>n. n\<lparr>list_prev := NULL, list_next := NULL\<rparr>) sb = Some (s\<lparr>free_histogram := f, heap := m, all_list_end := last (b # ys)\<rparr>)"
    and h: "list_ok (s\<lparr>free_histogram := f, heap := m, all_list_end := last (b # ys)\<rparr>) (xs @ b # ys)"
      "hist (s\<lparr>free_histogram := f, heap := m, all_list_end := last (b # ys)\<rparr>) (?F - {d} - {b})"
    and v: "dom m = dom (heap s)" "sz3 m = sz3 (heap s)" "free3 m = free3 (heap s)" .
  let ?s3 = "s\<lparr>free_histogram := f, heap := m, all_list_end := last (b # ys)\<rparr>"
  \<comment> \<open>the new size, and into its bin\<close>
  let ?g = "\<lambda>m. m\<lparr>b_size := ?t, b_free := True\<rparr>"
  let ?s4 = "?s3\<lparr>heap := put b ?g m\<rparr>"
  have bd3: "b \<in> dom (heap ?s3)" using b(2) v(1) by simp
  have h4: "hist ?s4 (?F - {d} - {b})" using hist_put [OF h(2) _ bd3, of ?g] by simp
  have w4: "sz3 (heap ?s4) = (sz3 (heap s))(b := ?t)" "free3 (heap ?s4) = free3 (heap s)"
    using bd3 v assms(3) by (auto simp: fun_eq_iff)
  have "?t div 1024 < BINS" using assms(5) by (simp add: MMAP_SIZE_def BINS_def)
  then obtain m5 f5 where m5: "add_node_histo b ?s4 = Some (?s4\<lparr>heap := m5, free_histogram := f5\<rparr>)"
      "same_list (heap ?s4) m5" "hist (?s4\<lparr>heap := m5, free_histogram := f5\<rparr>) (insert b (?F - {d} - {b}))"
    using hist_add [OF h4, of b] bd3 w4(1) by auto
  let ?s6 = "?s4\<lparr>heap := m5, free_histogram := f5, num_of_metadatas := sz_sub (num_of_metadatas s) 1\<rparr>"
  note v5 = same_listD [OF m5(2)]
  have w: "sz3 (heap ?s6) = (sz3 (heap s))(b := ?t)" "free3 (heap ?s6) = free3 (heap s)" using v5 w4 by simp_all
  have "insert b (?F - {d} - {b}) = ?F - {d}" using i(9) assms(2,3) by auto
  then have h6: "hist ?s6 (?F - {d})" using m5(3) by (simp add: hist_def histo_ok_def)
  have l6: "list_ok ?s6 (xs @ b # ys)"
    using list_same [OF list_put [OF h(1) bd3, of ?g], of m5 f5] m5(2) by (simp add: list_ok_def)
  have "inv3 ?s6 (xs @ b # ys) k" by (rule inv3_merge [OF inv assms(3) l6 h6 w]) (use assms(5) in simp_all)
  moreover have "unite_right b s = Some ?s6"
  proof -
    have lk: "list_prev (the (heap s2 d)) = b" "list_next (the (heap s2 d)) = ?n"
      using u(3) the_view3 [of d "heap s2"] by (auto simp: list_ok_def dll_mid)
    have d2: "d \<in> dom (heap s2)" using u(3) by (simp add: list_ok_def)
    have "sz_add (sz3 (heap s) b) (sz_add (sz3 (heap s) d) META) = ?t"
      using assms(5) by (simp add: sz_add_exact MMAP_SIZE_def SIZE_MOD_def)
    then have "put b (\<lambda>n. n\<lparr>b_size := sz_add (b_size n) (sz_add (sz3 (heap s) d) META), b_free := True\<rparr>) m = put b ?g m"
      using bd3 v(2) view3(5) [of m b] by (auto simp: put_def)
    then have "upd b (\<lambda>n. n\<lparr>b_size := sz_add (b_size n) (sz_add (b_size (the (m d))) META), b_free := True\<rparr>) ?s3 = Some ?s4"
      using upd_eq [OF b(1) bd3] d(2) v the_view3 [of d m] by simp
    from unite_right_run [OF b(1) d(1) _ _ _ _ _ u(1,2) _ lk u(4-6) _ this m5(1)] show ?thesis
      using b d d2 v(1) assms(3,4) lb by (simp add: ld_eq)
  qed
  moreover have "dom (heap ?s6) = dom (heap s)" using v5(1) v(1) bd3 by simp
  ultimately show ?thesis using w by (intro exI [of _ ?s6]) simp
qed

lemma mark_free:
  assumes "inv3 s as k" "b \<in> set as" "\<not> free3 (heap s) b"
  shows "\<exists>s'. do { s \<leftarrow> upd b (b_free_update (\<lambda>_. True)) s; add_node_histo b s } = Some s' \<and> inv3 s' as k \<and>
    brk s' = brk s \<and> data s' = data s \<and> sz3 (heap s') = sz3 (heap s) \<and> free3 (heap s') = (free3 (heap s))(b := True) \<and>
    dom (heap s') = dom (heap s)"
proof -
  note i = inv3D [OF assms(1)] and b = inv3_block [OF assms(1,2)]
  let ?F = "{a \<in> set as. free3 (heap s) a}" and ?f = "b_free_update (\<lambda>_. True)"
  let ?s1 = "s\<lparr>heap := put b ?f (heap s)\<rparr>"
  have u: "upd b ?f s = Some ?s1" using upd_eq [OF b(1,2)] .
  have h1: "hist ?s1 ?F" using hist_put [OF i(4) _ b(2), of ?f] assms(3) by simp
  have l1: "list_ok ?s1 as" using list_put [OF i(1) b(2), of ?f] by simp
  have w1: "sz3 (heap ?s1) = sz3 (heap s)" "free3 (heap ?s1) = (free3 (heap s))(b := True)" using b(2) by auto
  have "b \<in> dom (heap ?s1)" "b \<notin> ?F" "sz3 (heap ?s1) b div 1024 < BINS" using b assms(3) w1(1) by simp_all
  from hist_add [OF h1 this] obtain m f where m: "add_node_histo b ?s1 = Some (?s1\<lparr>heap := m, free_histogram := f\<rparr>)"
      "same_list (heap ?s1) m" "hist (?s1\<lparr>heap := m, free_histogram := f\<rparr>) (insert b ?F)"
    by blast
  let ?s = "?s1\<lparr>heap := m, free_histogram := f\<rparr>"
  note v = same_listD [OF m(2)]
  have w: "sz3 (heap ?s) = sz3 (heap s)" "free3 (heap ?s) = (free3 (heap s))(b := True)" using v w1 by simp_all
  have "{a \<in> set as. free3 (heap ?s) a} = insert b ?F" unfolding w using assms(2) by auto
  then have "hist ?s {a \<in> set as. free3 (heap ?s) a}" using m(3) by simp
  moreover have "list_ok ?s as" using list_same [OF l1 m(2)] .
  ultimately have "inv3 ?s as k" using i(2,3,5,6) w(1) by (simp add: inv3_def)
  moreover have "dom (heap ?s) = dom (heap s)" using v(1) by simp
  ultimately show ?thesis using u m(1) w by (intro exI [of _ ?s]) simp
qed

text \<open>What a free neighbour adds to a block.\<close>

definition gain :: "mem3 \<Rightarrow> addr list \<Rightarrow> sz" where
  "gain m xs = (case xs of [] \<Rightarrow> 0 | a # _ \<Rightarrow> if free3 m a then META + sz3 m a else 0)"

definition eaten :: "mem3 \<Rightarrow> addr list \<Rightarrow> bool" where
  "eaten m xs \<longleftrightarrow> xs \<noteq> [] \<and> free3 m (hd xs)"

lemma unite_right_spec:
  assumes "inv3 s (xs @ b # ys) k" "free3 (heap s) b" "sz3 (heap s) b + gain (heap s) ys < MMAP_SIZE"
  shows "\<exists>s'. unite_right b s = Some s' \<and> inv3 s' (xs @ b # (if eaten (heap s) ys then tl ys else ys)) k \<and>
    brk s' = brk s \<and> data s' = data s \<and>
    sz3 (heap s') = (sz3 (heap s))(b := sz3 (heap s) b + gain (heap s) ys) \<and> free3 (heap s') = free3 (heap s)"
proof (cases "eaten (heap s) ys")
  case True
  then obtain d zs where d: "ys = d # zs" "free3 (heap s) d" by (cases ys) (auto simp: eaten_def)
  then have g: "gain (heap s) ys = META + sz3 (heap s) d" by (simp add: gain_def)
  then have "sz3 (heap s) b + META + sz3 (heap s) d < MMAP_SIZE" using assms(3) by simp
  from unite_right_ok [OF assms(1) _ assms(2) d(2) this, of xs zs] show ?thesis
    using True d(1) g by (auto simp: ac_simps)
next
  case False
  then have "gain (heap s) ys = 0" by (auto simp: gain_def eaten_def split: list.splits)
  moreover have "unite_right b s = Some s"
    using unite_right_none [OF assms(1) refl] False by (auto simp: eaten_def)
  ultimately show ?thesis using assms(1) False by (intro exI [of _ s]) simp
qed

text \<open>\<open>sfree\<close> up to its last call: the block is free and has taken in its right neighbour.\<close>

lemma sfree3_right:
  assumes "inv3 s (xs @ b # ys) k" "\<not> free3 (heap s) b" "sz3 (heap s) b + gain (heap s) ys < MMAP_SIZE"
  shows "\<exists>s'. sfree (b + META) s = unite_right (last (NULL # xs)) s' \<and>
    inv3 s' (xs @ b # (if eaten (heap s) ys then tl ys else ys)) k \<and> brk s' = brk s \<and> data s' = data s \<and>
    sz3 (heap s') = (sz3 (heap s))(b := sz3 (heap s) b + gain (heap s) ys) \<and> free3 (heap s') = (free3 (heap s))(b := True)"
proof -
  note i = inv3D [OF assms(1)]
  let ?m = "heap s" and ?ys = "if eaten (heap s) ys then tl ys else ys"
  have ba: "b \<in> set (xs @ b # ys)" "b \<in> set (xs @ b # ?ys)" by simp_all
  note b = inv3_block [OF assms(1) ba(1)]
  have nb: "b \<notin> set ys" using i(9) by auto
  obtain s0 s1 where s1: "upd b (b_free_update (\<lambda>_. True)) s = Some s0" "add_node_histo b s0 = Some s1"
      "inv3 s1 (xs @ b # ys) k" "brk s1 = brk s" "data s1 = data s" "sz3 (heap s1) = sz3 ?m"
      "free3 (heap s1) = (free3 ?m)(b := True)"
    using mark_free [OF assms(1) ba(1) assms(2)] by (auto split: bind_splits)
  have g1: "gain (heap s1) ys = gain ?m ys" "eaten (heap s1) ys = eaten ?m ys"
    using nb s1(6,7) by (cases ys; simp add: gain_def eaten_def)+
  obtain s2 where s2: "unite_right b s1 = Some s2" "inv3 s2 (xs @ b # ?ys) k" "brk s2 = brk s" "data s2 = data s"
      "sz3 (heap s2) = (sz3 ?m)(b := sz3 ?m b + gain ?m ys)" "free3 (heap s2) = (free3 ?m)(b := True)"
    using unite_right_spec [OF s1(3)] assms(3) s1(4-7) g1 by auto
  note b2 = inv3_block [OF s2(2) ba(2)]
  have "lp (heap s2) b = last (NULL # xs)" using inv3D(1) [OF s2(2)] by (auto simp: list_ok_def dll_mid)
  then have vs: "b_free (the (?m b)) = free3 ?m b" "b_size (the (?m b)) = sz3 ?m b" "list_prev (the (heap s2 b)) = last (NULL # xs)"
    using the_view3 [OF b(2)] the_view3 [OF b2(2)] by simp_all
  have "\<not> sz3 ?m b \<ge> MMAP_SIZE" using i(5) [OF ba(1)] by simp
  moreover have "ld b s = Some (the (?m b))" "ld b s2 = Some (the (heap s2 b))" using ld_eq b(1,2) b2(2) by auto
  ultimately have "sfree (b + META) s = unite_right (last (NULL # xs)) s2"
    using s1(1,2) s2(1) b(1) vs assms(2) by (simp add: sfree_def META_def)
  then show ?thesis using s2 by blast
qed

lemma sfree3_spec:
  assumes "inv3 s (xs @ b # ys) k" "\<not> free3 (heap s) b"
    and "gain (heap s) (rev xs) + sz3 (heap s) b + gain (heap s) ys < MMAP_SIZE"
  defines "l \<equiv> eaten (heap s) (rev xs)"
  defines "as' \<equiv> (if l then xs else xs @ [b]) @ (if eaten (heap s) ys then tl ys else ys)"
  shows "\<exists>s'. sfree (b + META) s = Some s' \<and> inv3 s' as' k \<and> brk s' = brk s \<and> data s' = data s \<and>
    (\<forall>a \<in> set as'. if a = (if l then last xs else b)
       then free3 (heap s') a \<and> sz3 (heap s') a = gain (heap s) (rev xs) + sz3 (heap s) b + gain (heap s) ys
       else free3 (heap s') a = free3 (heap s) a \<and> sz3 (heap s') a = sz3 (heap s) a)"
proof -
  let ?m = "heap s" and ?ys = "if eaten (heap s) ys then tl ys else ys"
  have nb: "b \<notin> set xs" "b \<notin> set ys" using inv3D(9) [OF assms(1)] by auto
  have ny: "b \<notin> set ?ys" using nb by (cases ys) auto
  have "sz3 ?m b + gain ?m ys < MMAP_SIZE" using assms(3) by simp
  from sfree3_right [OF assms(1,2) this] obtain s2 where s2: "sfree (b + META) s = unite_right (last (NULL # xs)) s2"
      "inv3 s2 (xs @ b # ?ys) k" "brk s2 = brk s" "data s2 = data s"
      "sz3 (heap s2) = (sz3 ?m)(b := sz3 ?m b + gain ?m ys)" "free3 (heap s2) = (free3 ?m)(b := True)" by blast
  show ?thesis
  proof (cases xs rule: rev_cases)
    case Nil
    then have "sfree (b + META) s = Some s2" using s2(1) by (simp add: unite_right_def)
    moreover have "gain ?m (rev xs) = 0" "\<not> l" using Nil by (simp_all add: gain_def eaten_def l_def)
    ultimately show ?thesis using s2 Nil ny by (intro exI [of _ s2]) (auto simp: as'_def)
  next
    case (snoc zs c)
    have el: "l = free3 ?m c" "gain ?m (rev xs) = (if free3 ?m c then META + sz3 ?m c else 0)"
      by (simp_all add: l_def eaten_def gain_def snoc)
    have sc: "sfree (b + META) s = unite_right c s2" using s2(1) snoc by simp
    have i2: "inv3 s2 (zs @ c # b # ?ys) k" using s2(2) snoc by simp
    have cb: "c \<noteq> b" "b \<notin> set zs" using nb snoc by auto
    have ea: "eaten (heap s2) (b # ?ys)" "gain (heap s2) (b # ?ys) = META + (sz3 ?m b + gain ?m ys)"
      using s2(5,6) by (simp_all add: eaten_def gain_def)
    show ?thesis
    proof (cases "free3 ?m c")
      case True
      have fc: "free3 (heap s2) c" "sz3 (heap s2) c + gain (heap s2) (b # ?ys) < MMAP_SIZE"
        using True cb s2(5,6) assms(3) el ea(2) by simp_all
      obtain s3 where s3: "unite_right c s2 = Some s3" "inv3 s3 (zs @ c # ?ys) k" "brk s3 = brk s" "data s3 = data s"
          "sz3 (heap s3) = (sz3 (heap s2))(c := sz3 (heap s2) c + gain (heap s2) (b # ?ys))" "free3 (heap s3) = free3 (heap s2)"
        using unite_right_spec [OF i2 fc] ea(1) s2(3,4) by auto
      have as': "as' = zs @ c # ?ys" using True el snoc by (simp add: as'_def)
      have "free3 (heap s3) a = (if a = c then True else free3 ?m a)"
        "sz3 (heap s3) a = (if a = c then gain ?m (rev xs) + sz3 ?m b + gain ?m ys else sz3 ?m a)" if "a \<in> set as'" for a
      proof -
        have "a \<noteq> b" using that as' cb ny by auto
        then show "free3 (heap s3) a = (if a = c then True else free3 ?m a)"
          "sz3 (heap s3) a = (if a = c then gain ?m (rev xs) + sz3 ?m b + gain ?m ys else sz3 ?m a)"
          using True cb s2(5,6) s3(5,6) ea(2) el(2) by auto
      qed
      then show ?thesis using True el(1) s3(1-4) sc as' snoc by (intro exI [of _ s3]) simp
    next
      case False
      have "\<not> (free3 (heap s2) c \<and> b # ?ys \<noteq> [] \<and> free3 (heap s2) (hd (b # ?ys)))" using False cb s2(6) by simp
      from unite_right_none [OF i2 refl this] have "sfree (b + META) s = Some s2" using sc by simp
      moreover have "as' = xs @ b # ?ys" "\<not> l" using False el by (simp_all add: as'_def)
      ultimately show ?thesis using s2 el(2) False nb ny by (intro exI [of _ s2]) auto
    qed
  qed
qed

end
