(* ===== verification/Malloc_3_Realloc.thy ===== *)
theory Malloc_3_Realloc
  imports Malloc_3_Safe
begin

text \<open>
  What \<open>srealloc\<close> of the third and the fourth allocator guarantees, case by case: reuse, merging with the
  left, the right and both neighbours, growing the last block, moving to a new block.
\<close>

lemma inv3_data [simp]: "inv3 (s\<lparr>data := d\<rparr>) as k = inv3 s as k"
  by (simp add: inv3_def list_ok_def hist_def histo_ok_def)

lemma memmove_apart:
  assumes "stack META n br A" "a \<in> A" "c \<in> A" "a \<noteq> c" "i < n a" "l \<le> n c"
  shows "memmove (c + META) src l D (a + META + i) = D (a + META + i)"
proof (rule memmove_frame, rule ccontr)
  assume "\<not> (a + META + i < c + META \<or> c + META + l \<le> a + META + i)"
  then have "a + META + i \<in> {a ..< a + META + n a} \<inter> {c ..< c + META + n c}" using assms(5,6) by auto
  then show False using stack_disjoint [OF assms(1-4)] by blast
qed

text \<open>After an allocation no block in use has larger free neighbours than before.\<close>

lemma around:
  assumes "inv3 s (xs @ b # ys) k"
  shows "sorted_wrt (<) xs" "sorted_wrt (<) ys" "\<forall>x \<in> set xs. x < b" "\<forall>y \<in> set ys. b < y"
  using inv3D(2) [OF assms] by (auto simp: sorted_wrt_append)

lemma handed3_inner:
  assumes "handed3 m m' A A' sz c" "a \<in> A'" "free3 m' a"
  obtains e where "e \<in> A" "free3 m e" "e \<le> a" "a + sz3 m' a \<le> e + sz3 m e"
  using assms unfolding handed3_def by blast

lemma gain_mono_right:
  assumes "inv3 s (xs @ b # ys) k" "inv3 s' (xs' @ b # ys') k'" "\<not> free3 (heap s) b"
    and "handed3 (heap s) (heap s') (set (xs @ b # ys)) (set (xs' @ b # ys')) sz c"
  shows "gain (heap s') ys' \<le> gain (heap s) ys"
proof (cases "eaten (heap s') ys'")
  case True
  note so = around [OF assms(1)] and so' = around [OF assms(2)]
  from True obtain d zs where d: "ys' = d # zs" "free3 (heap s') d" by (cases ys') (auto simp: eaten_def)
  then obtain e where e: "e \<in> set (xs @ b # ys)" "free3 (heap s) e" "e \<le> d" "d + sz3 (heap s') d \<le> e + sz3 (heap s) e"
    using handed3_inner [OF assms(4), of d] by auto
  have bd: "b < d" using so'(4) d(1) by simp
  have "\<not> e < b" using stackD(7) [OF inv3D(3) [OF assms(1)] e(1), of b] e(4) bd by auto
  moreover have "e \<noteq> b" using e(2) assms(3) by metis
  ultimately have ey: "e \<in> set ys" using e(1) so(3) by auto
  then obtain f fs where f: "ys = f # fs" by (cases ys) auto
  have "f \<in> set (xs' @ b # ys')" "b < f" using assms(4) f so(4) by (auto simp: handed3_def)
  then have "f \<in> set ys'" using so'(3) by auto
  then have "d \<le> f" using so'(2) d(1) by auto
  moreover have "f \<le> e" using ey f so(2) by auto
  ultimately have "f = d" "e = d" using e(3) by simp_all
  then show ?thesis using f d e(2,4) by (simp add: gain_def)
qed (auto simp: gain_def eaten_def split: list.splits)

lemma gain_mono_left:
  assumes "inv3 s (xs @ b # ys) k" "inv3 s' (xs' @ b # ys') k'"
    and "handed3 (heap s) (heap s') (set (xs @ b # ys)) (set (xs' @ b # ys')) sz c"
  shows "gain (heap s') (rev xs') \<le> gain (heap s) (rev xs)"
proof (cases "eaten (heap s') (rev xs')")
  case True
  note so = around [OF assms(1)] and so' = around [OF assms(2)]
  from True obtain d zs where d: "rev xs' = d # zs" "free3 (heap s') d" by (cases "rev xs'") (auto simp: eaten_def)
  then have xs': "xs' = rev zs @ [d]" by (simp add: rev_eq_Cons_iff)
  then obtain e where e: "e \<in> set (xs @ b # ys)" "free3 (heap s) e" "e \<le> d" "d + sz3 (heap s') d \<le> e + sz3 (heap s) e"
    using handed3_inner [OF assms(3), of d] d(2) by auto
  have db: "d < b" using so'(3) xs' by simp
  have ex: "e \<in> set xs" using e(1,3) db so(4) by auto
  then obtain f fs where f: "rev xs = f # fs" by (cases "rev xs") auto
  then have xs: "xs = rev fs @ [f]" by (simp add: rev_eq_Cons_iff)
  have "f \<in> set (xs' @ b # ys')" "f < b" using assms(3) xs so(3) by (auto simp: handed3_def)
  then have "f \<in> set xs'" using so'(4) by auto
  then have fd: "f \<le> d" using so'(1) xs' by (auto simp: sorted_wrt_append)
  have "e \<le> f" using ex xs so(1) by (auto simp: sorted_wrt_append)
  moreover have "\<not> e < f"
    using stackD(7) [OF inv3D(3) [OF assms(1)] e(1), of f] xs e(4) fd by (auto simp: META_def)
  ultimately have "e = f" by simp
  then show ?thesis using f d e(2,3,4) by (simp add: gain_def)
qed (auto simp: gain_def eaten_def split: list.splits)

text \<open>The end of the cases that merge.\<close>

lemma split_rest_ok:
  assumes "inv3 s as k" "b \<in> set as" "\<not> free3 (heap s) b" "sz \<le> sz3 (heap s) b"
  shows "\<exists>s' as'. split_rest b sz s = Some (b + META, s') \<and> inv3 s' as' k \<and> data s' = data s \<and>
    used (heap s') (set as') = used (heap s) (set as) \<and> sz \<le> sz3 (heap s') b \<and>
    (\<forall>a \<in> used (heap s) (set as) - {b}. sz3 (heap s') a = sz3 (heap s) a)"
proof -
  note b = inv3_block [OF assms(1,2)]
  have sub: "sz_sub (sz3 (heap s) b) sz = sz3 (heap s) b - sz"
    using assms(4) inv3D(5) [OF assms(1,2)] by (simp add: sz_sub_exact MMAP_SIZE_def SIZE_MOD_def)
  show ?thesis
  proof (cases "sz3 (heap s) b - sz \<ge> 128 + META")
    case True
    have sp: "sz3 (heap s) b = sz + META + (sz3 (heap s) b - sz - META)" using True assms(4) by simp
    obtain s' as' where s': "split_block b sz s = Some (b, s')" "inv3 s' as' k"
        "set as' = insert (b + META + sz) (set as)" "b + META + sz \<notin> set as" "data s' = data s"
        "sz3 (heap s') = (sz3 (heap s))(b := sz, b + META + sz := sz3 (heap s) b - sz - META)"
        "free3 (heap s') = (free3 (heap s))(b := False, b + META + sz := True)"
      using split_block_ok [OF assms(1,2) sp] by blast
    have "split_rest b sz s = Some (b + META, s')" using True b sub s'(1) by (simp add: split_rest_def ld_eq)
    moreover have "b \<noteq> b + META + sz" using s'(4) assms(2) by metis
    ultimately show ?thesis using s' assms(2,3) by (intro exI [of _ s'] exI [of _ as']) (auto simp: used_def)
  next
    case False
    then have "split_rest b sz s = Some (b + META, s)" using b sub by (simp add: split_rest_def ld_eq)
    then show ?thesis using assms by blast
  qed
qed

text \<open>
  What a reallocation of \<open>b\<close> to \<open>d\<close> promises: \<open>d\<close> takes the place of \<open>b\<close> among the blocks in use, is large
  enough and starts with the bytes of \<open>b\<close>; no other block in use changes, nor its bytes.
\<close>

definition moved3 :: "mem3 \<Rightarrow> mem3 \<Rightarrow> bytes \<Rightarrow> bytes \<Rightarrow> addr set \<Rightarrow> addr set \<Rightarrow> sz \<Rightarrow> addr \<Rightarrow> addr \<Rightarrow> bool" where
  "moved3 m m' D D' A A' sz b d \<longleftrightarrow>
     used m' A' = insert d (used m A - {b}) \<and> d \<notin> used m A - {b} \<and> sz \<le> sz3 m' d \<and>
     (\<forall>i < min sz (sz3 m b). D' (d + META + i) = D (b + META + i)) \<and>
     (\<forall>a \<in> used m A - {b}. sz3 m' a = sz3 m a \<and> (\<forall>i < sz3 m a. D' (a + META + i) = D (a + META + i)))"

lemma memmove_self: "memmove p p n D = D"
  by (auto simp: memmove_def)

lemma finish_move:
  assumes "inv3 s as k" "c \<in> set as" "\<not> free3 (heap s) c" "sz \<le> sz3 (heap s) c"
    and "used (heap s) (set as) = insert c (used m A - {b})" "c \<notin> used m A - {b}"
    and "\<And>a. a \<in> used m A - {b} \<Longrightarrow> sz3 (heap s) a = sz3 m a"
    and "data s = memmove (c + META) (b + META) n D" "sz3 m b \<le> n" "n \<le> sz3 (heap s) c"
  shows "\<exists>s' as'. split_rest c sz s = Some (c + META, s') \<and> inv3 s' as' k \<and>
    moved3 m (heap s') D (data s') A (set as') sz b c"
proof -
  obtain s' as' where s': "split_rest c sz s = Some (c + META, s')" "inv3 s' as' k" "data s' = data s"
      "used (heap s') (set as') = used (heap s) (set as)" "sz \<le> sz3 (heap s') c"
      "\<forall>a \<in> used (heap s) (set as) - {c}. sz3 (heap s') a = sz3 (heap s) a"
    using split_rest_ok [OF assms(1-4)] by blast
  have "sz3 (heap s') a = sz3 m a \<and> (\<forall>i < sz3 m a. data s' (a + META + i) = D (a + META + i))" if "a \<in> used m A - {b}" for a
  proof -
    have ac: "a \<noteq> c" "a \<in> used (heap s) (set as)" using that assms(5,6) by auto
    then have "a \<in> set as" by (simp add: used_def)
    from memmove_apart [OF inv3D(3) [OF assms(1)] this assms(2) ac(1) _ assms(10)]
    show ?thesis using s'(3,6) ac assms(7) [OF that] assms(8) by simp
  qed
  moreover have "data s' (c + META + i) = D (b + META + i)" if "i < min sz (sz3 m b)" for i
    using memmove_copies [of i n "c + META" "b + META" D] that assms(8,9) s'(3) by simp
  ultimately have "moved3 m (heap s') D (data s') A (set as') sz b c"
    unfolding moved3_def using s'(4,5) assms(5,6) by simp
  with s'(1,2) show ?thesis by blast
qed

text \<open>Freeing a block in use and merging it with a free right neighbour.\<close>

lemma mark_and_unite:
  assumes "inv3 s (xs @ b # d # ys) k" "\<not> free3 (heap s) b" "free3 (heap s) d"
    and "sz3 (heap s) b + META + sz3 (heap s) d < MMAP_SIZE"
  shows "\<exists>s'. unite_srealloc b b False s = Some s' \<and> inv3 s' (xs @ b # ys) k \<and> data s' = data s \<and>
    sz3 (heap s') = (sz3 (heap s))(b := sz3 (heap s) b + META + sz3 (heap s) d) \<and> free3 (heap s') = (free3 (heap s))(b := True) \<and>
    dom (heap s') = dom (heap s)"
proof -
  have bm: "b \<in> set (xs @ b # d # ys)" by simp
  obtain s1 where s1: "do { s \<leftarrow> upd b (b_free_update (\<lambda>_. True)) s; add_node_histo b s } = Some s1" "inv3 s1 (xs @ b # d # ys) k"
      "data s1 = data s" "sz3 (heap s1) = sz3 (heap s)" "free3 (heap s1) = (free3 (heap s))(b := True)" "dom (heap s1) = dom (heap s)"
    using mark_free [OF assms(1) bm assms(2)] by blast
  have fb: "free3 (heap s1) b" "free3 (heap s1) d" "sz3 (heap s1) b + META + sz3 (heap s1) d < MMAP_SIZE"
    using s1(4,5) assms(3,4) by simp_all
  obtain s2 where s2: "unite_right b s1 = Some s2" "inv3 s2 (xs @ b # ys) k" "data s2 = data s1"
      "sz3 (heap s2) = (sz3 (heap s1))(b := sz3 (heap s1) b + META + sz3 (heap s1) d)" "free3 (heap s2) = free3 (heap s1)" "dom (heap s2) = dom (heap s1)"
    using unite_right_ok [OF s1(2) refl fb] by blast
  have "unite_srealloc b b False s = Some s2"
    using s1(1) s2(1) by (auto simp: unite_srealloc_def split: bind_splits)
  with s1(3-6) s2(2-6) show ?thesis by auto
qed

lemma merge_next_ok:
  assumes "inv3 s (xs @ b # d # ys) k" "\<not> free3 (heap s) b" "free3 (heap s) d"
    and "sz3 (heap s) b + META + sz3 (heap s) d < MMAP_SIZE" "sz \<le> sz3 (heap s) b + META + sz3 (heap s) d"
  shows "\<exists>s' as'. merge_next b sz s = Some (b + META, s') \<and> inv3 s' as' k \<and>
    moved3 (heap s) (heap s') (data s) (data s') (set (xs @ b # d # ys)) (set as') sz b b"
proof -
  let ?t = "sz3 (heap s) b + META + sz3 (heap s) d" and ?U = "used (heap s) (set (xs @ b # d # ys))"
  have bm: "b \<in> set (xs @ b # ys)" by simp
  obtain s2 where s2: "unite_srealloc b b False s = Some s2" "inv3 s2 (xs @ b # ys) k" "data s2 = data s"
      "sz3 (heap s2) = (sz3 (heap s))(b := ?t)" "free3 (heap s2) = (free3 (heap s))(b := True)"
    using mark_and_unite [OF assms(1-4)] by blast
  have "free3 (heap s2) b" using s2(5) by simp
  from take_block [OF s2(2) bm this] obtain s3 where s3: "do { s \<leftarrow> remove_node_histo b s2; upd b (b_free_update (\<lambda>_. False)) s } = Some s3"
      "inv3 s3 (xs @ b # ys) k" "data s3 = data s" "sz3 (heap s3) = (sz3 (heap s))(b := ?t)"
      "free3 (heap s3) = (free3 (heap s))(b := False)"
    using s2(3-5) by auto
  have e: "merge_next b sz s = split_rest b sz s3"
    unfolding merge_next_def s2(1) using s3(1) by (auto split: bind_splits)
  have U: "used (heap s3) (set (xs @ b # ys)) = insert b (?U - {b})" using s3(5) assms(3) by (auto simp: used_def)
  show ?thesis unfolding e
    by (rule finish_move [OF s3(2) bm _ _ U, where n = "sz3 (heap s) b"])
      (use s3(3-5) assms(5) in \<open>simp_all add: memmove_self\<close>)
qed

lemma merge_prev_ok:
  assumes "inv3 s (xs @ c # b # ys) k" "\<not> free3 (heap s) b" "free3 (heap s) c"
    and "sz3 (heap s) c + META + sz3 (heap s) b < MMAP_SIZE" "sz \<le> sz3 (heap s) c + META + sz3 (heap s) b"
  shows "\<exists>s' as'. merge_prev b c sz s = Some (c + META, s') \<and> inv3 s' as' k \<and>
    moved3 (heap s) (heap s') (data s) (data s') (set (xs @ c # b # ys)) (set as') sz b c"
proof -
  let ?t = "sz3 (heap s) c + META + sz3 (heap s) b" and ?U = "used (heap s) (set (xs @ c # b # ys))"
  let ?D = "memmove (c + META) (b + META) (sz3 (heap s) b) (data s)"
  have cm: "c \<in> set (xs @ c # ys)" and bm: "b \<in> set (xs @ c # b # ys)" by simp_all
  have nd: "c \<noteq> b" "b \<notin> set xs" "b \<notin> set ys" using inv3D(9) [OF assms(1)] by auto
  obtain s1 where s1: "do { s \<leftarrow> upd b (b_free_update (\<lambda>_. True)) s; add_node_histo b s } = Some s1" "inv3 s1 (xs @ c # b # ys) k"
      "data s1 = data s" "sz3 (heap s1) = sz3 (heap s)" "free3 (heap s1) = (free3 (heap s))(b := True)" "dom (heap s1) = dom (heap s)"
    using mark_free [OF assms(1) bm assms(2)] by blast
  have fc: "free3 (heap s1) c" "free3 (heap s1) b" "sz3 (heap s1) c + META + sz3 (heap s1) b < MMAP_SIZE"
    using s1(4,5) assms(3,4) by simp_all
  from unite_right_ok [OF s1(2) refl fc] obtain s2 where s2: "unite_right c s1 = Some s2" "inv3 s2 (xs @ c # ys) k" "data s2 = data s"
      "sz3 (heap s2) = (sz3 (heap s))(c := ?t)" "free3 (heap s2) = (free3 (heap s))(b := True)" "dom (heap s2) = dom (heap s)"
    using s1(3-6) by auto
  have un: "unite_srealloc b c False s = Some s2"
    using s1(1) s2(1) by (auto simp: unite_srealloc_def split: bind_splits)
  let ?s2 = "s2\<lparr>data := ?D\<rparr>"
  have "inv3 ?s2 (xs @ c # ys) k" "free3 (heap ?s2) c" using s2(2,5) assms(3) by simp_all
  from take_block [OF this(1) cm this(2)] obtain s3 where
      s3: "do { s \<leftarrow> remove_node_histo c ?s2; upd c (b_free_update (\<lambda>_. False)) s } = Some s3"
      "inv3 s3 (xs @ c # ys) k" "data s3 = ?D" "sz3 (heap s3) = (sz3 (heap s))(c := ?t)"
      "free3 (heap s3) = (free3 (heap s))(b := True, c := False)"
    using s2(4,5) by auto
  have e: "merge_prev b c sz s = split_rest c sz s3"
  proof -
    have cb: "b \<noteq> NULL" "b \<in> dom (heap s2)" "c \<noteq> NULL" "c \<in> dom (heap s2)"
      using inv3_block [OF assms(1), of b] inv3_block [OF assms(1), of c] s2(6) by simp_all
    then have mn: "min (b_size (the (heap s2 b))) (b_size (the (heap s2 c))) = sz3 (heap s) b" using s2(4) nd(1) by simp
    obtain sa where sa: "remove_node_histo c ?s2 = Some sa" "upd c (b_free_update (\<lambda>_. False)) sa = Some s3"
      using s3(1) by (auto split: bind_splits)
    have "ld b s2 = Some (the (heap s2 b))" "ld c s2 = Some (the (heap s2 c))" using ld_eq cb by auto
    then show ?thesis using un sa mn s2(3) by (simp add: merge_prev_def Let_def)
  qed
  have U: "used (heap s3) (set (xs @ c # ys)) = insert c (?U - {b})"
    using s3(5) assms(3) nd by (auto simp: used_def)
  show ?thesis unfolding e
    by (rule finish_move [OF s3(2) cm _ _ U, where n = "sz3 (heap s) b"])
      (use s3(3-5) assms(3,5) in \<open>auto simp: used_def\<close>)
qed

text \<open>The two merges of the case for both neighbours: the three blocks become one free block.\<close>

lemma unite_both_ok:
  assumes "inv3 s (xs @ c # b # d # ys) k" "\<not> free3 (heap s) b" "free3 (heap s) c" "free3 (heap s) d"
    and "sz3 (heap s) c + META + sz3 (heap s) b + META + sz3 (heap s) d < MMAP_SIZE"
  defines "t1 \<equiv> sz3 (heap s) b + META + sz3 (heap s) d"
  shows "\<exists>s1 s2. unite_srealloc b b False s = Some s1 \<and> unite_srealloc b c True s1 = Some s2 \<and> inv3 s2 (xs @ c # ys) k \<and>
    data s2 = data s \<and> sz3 (heap s2) = (sz3 (heap s))(b := t1, c := sz3 (heap s) c + META + t1) \<and>
    free3 (heap s2) = (free3 (heap s))(b := True) \<and> dom (heap s2) = dom (heap s)"
proof -
  let ?m = "heap s"
  have i: "inv3 s ((xs @ [c]) @ b # d # ys) k" using assms(1) by simp
  have nd: "c \<noteq> b" using inv3D(9) [OF assms(1)] by auto
  have cb: "b \<noteq> NULL" "b \<in> dom ?m" using inv3_block [OF assms(1), of b] by simp_all
  have "t1 < MMAP_SIZE" using assms(5) by (simp add: t1_def)
  from mark_and_unite [OF i assms(2,4) this [unfolded t1_def], folded t1_def] obtain s1 where
      s1: "unite_srealloc b b False s = Some s1"
      "inv3 s1 (xs @ c # b # ys) k" "data s1 = data s" "sz3 (heap s1) = (sz3 ?m)(b := t1)"
      "free3 (heap s1) = (free3 ?m)(b := True)" "dom (heap s1) = dom ?m"
    by auto
  have "put b (b_free_update (\<lambda>_. True)) (heap s1) = heap s1"
    using s1(5,6) cb(2) by (auto simp: put_def fun_eq_iff free3_def cfree_def core3_def dom_def split: option.splits)
  then have u1: "upd b (b_free_update (\<lambda>_. True)) s1 = Some s1" using upd_eq [OF cb(1), of s1] cb(2) s1(6) by simp
  have fc: "free3 (heap s1) c" "free3 (heap s1) b" "sz3 (heap s1) c + META + sz3 (heap s1) b < MMAP_SIZE"
    using s1(4,5) nd assms(3,5) by (simp_all add: t1_def)
  from unite_right_ok [OF s1(2) refl fc] obtain s2 where s2: "unite_right c s1 = Some s2" "inv3 s2 (xs @ c # ys) k" "data s2 = data s"
      "sz3 (heap s2) = (sz3 ?m)(b := t1, c := sz3 ?m c + META + t1)" "free3 (heap s2) = (free3 ?m)(b := True)" "dom (heap s2) = dom ?m"
    using s1(3-6) nd by auto
  have "unite_srealloc b c True s1 = Some s2" using u1 s2(1) by (simp add: unite_srealloc_def)
  with s1(1) s2 show ?thesis by blast
qed

text \<open>The merge with both neighbours, with the block taken out of its bin before it is handed out.\<close>

lemma merge_both_ok:
  assumes "inv3 s (xs @ c # b # d # ys) k" "\<not> free3 (heap s) b" "free3 (heap s) c" "free3 (heap s) d"
    and "sz3 (heap s) c + META + sz3 (heap s) b + META + sz3 (heap s) d < MMAP_SIZE"
    and "sz \<le> sz3 (heap s) c + META + sz3 (heap s) b + META + sz3 (heap s) d"
  shows "\<exists>s' as'. do {
       s \<leftarrow> unite_srealloc b b False s;
       s \<leftarrow> unite_srealloc b c True s;
       s \<leftarrow> remove_node_histo c s;
       s \<leftarrow> upd c (b_free_update (\<lambda>_. False)) s;
       m \<leftarrow> ld b s;
       p \<leftarrow> ld c s;
       let s = s\<lparr>data := memmove (c + META) (b + META) (min (b_size m) (b_size p)) (data s)\<rparr>;
       split_rest c sz s } = Some (c + META, s') \<and> inv3 s' as' k \<and>
    moved3 (heap s) (heap s') (data s) (data s') (set (xs @ c # b # d # ys)) (set as') sz b c"
proof -
  let ?m = "heap s"
  let ?t1 = "sz3 ?m b + META + sz3 ?m d" let ?t = "sz3 ?m c + META + ?t1"
  let ?U = "used ?m (set (xs @ c # b # d # ys))"
  let ?D = "memmove (c + META) (b + META) ?t1 (data s)"
  have cm: "c \<in> set (xs @ c # ys)" by simp
  have nd: "c \<noteq> b" "b \<notin> set xs" "b \<notin> set ys" "b \<noteq> d" using inv3D(9) [OF assms(1)] by auto
  have cb: "b \<noteq> NULL" "b \<in> dom ?m" "c \<noteq> NULL" "c \<in> dom ?m"
    using inv3_block [OF assms(1), of b] inv3_block [OF assms(1), of c] by simp_all
  from unite_both_ok [OF assms(1-5)] obtain s1 s2 where
      s2: "unite_srealloc b b False s = Some s1" "unite_srealloc b c True s1 = Some s2" "inv3 s2 (xs @ c # ys) k" "data s2 = data s"
      "sz3 (heap s2) = (sz3 ?m)(b := ?t1, c := ?t)" "free3 (heap s2) = (free3 ?m)(b := True)" "dom (heap s2) = dom ?m"
    by blast
  have "free3 (heap s2) c" using s2(6) assms(3) by simp
  from take_block [OF s2(3) cm this] obtain s3 where
      s3: "do { s \<leftarrow> remove_node_histo c s2; upd c (b_free_update (\<lambda>_. False)) s } = Some s3"
      "inv3 s3 (xs @ c # ys) k" "data s3 = data s" "sz3 (heap s3) = (sz3 ?m)(b := ?t1, c := ?t)"
      "free3 (heap s3) = (free3 ?m)(b := True, c := False)" "dom (heap s3) = dom ?m"
    using s2(4-7) by auto
  let ?s3 = "s3\<lparr>data := ?D\<rparr>"
  have e: "do {
       s \<leftarrow> unite_srealloc b b False s;
       s \<leftarrow> unite_srealloc b c True s;
       s \<leftarrow> remove_node_histo c s;
       s \<leftarrow> upd c (b_free_update (\<lambda>_. False)) s;
       m \<leftarrow> ld b s;
       p \<leftarrow> ld c s;
       let s = s\<lparr>data := memmove (c + META) (b + META) (min (b_size m) (b_size p)) (data s)\<rparr>;
       split_rest c sz s } = split_rest c sz ?s3"
  proof -
    have mn: "min (b_size (the (heap s3 b))) (b_size (the (heap s3 c))) = ?t1"
      using s3(4,6) cb nd(1) by simp
    obtain sa where sa: "remove_node_histo c s2 = Some sa" "upd c (b_free_update (\<lambda>_. False)) sa = Some s3"
      using s3(1) by (auto split: bind_splits)
    have "ld b s3 = Some (the (heap s3 b))" "ld c s3 = Some (the (heap s3 c))" using ld_eq cb s3(6) by auto
    then show ?thesis using s2(1,2) sa mn s3(3) by (simp add: Let_def)
  qed
  have U: "used (heap ?s3) (set (xs @ c # ys)) = insert c (?U - {b})"
    using s3(5) assms(3,4) nd by (auto simp: used_def)
  have i3: "inv3 ?s3 (xs @ c # ys) k" using s3(2) by simp
  show ?thesis unfolding e
    by (rule finish_move [OF i3 cm _ _ U, where n = "?t1"])
      (use s3(3-5) assms(3,6) in \<open>auto simp: used_def\<close>)
qed

text \<open>Growing the last block while it is in use.\<close>

lemma grow_used:
  assumes "inv3 s (xs @ [b]) k" "\<not> free3 (heap s) b" "sz3 (heap s) b \<le> sz" "sz < MMAP_SIZE"
    and "brk s + (sz - sz3 (heap s) b) < SIZE_MOD"
  shows "\<exists>s'. upd b (b_size_update (\<lambda>_. sz)) (s\<lparr>brk := brk s + (sz - sz3 (heap s) b)\<rparr>) = Some s' \<and> inv3 s' (xs @ [b]) k \<and>
    moved3 (heap s) (heap s') (data s) (data s') (set (xs @ [b])) (set (xs @ [b])) sz b b"
proof -
  note i = inv3D [OF assms(1)]
  have bm: "b \<in> set (xs @ [b])" by simp
  note b = inv3_block [OF assms(1) bm]
  let ?F = "{a \<in> set (xs @ [b]). free3 (heap s) a}" and ?g = "b_size_update (\<lambda>_. sz)"
  let ?s0 = "s\<lparr>brk := brk s + (sz - sz3 (heap s) b)\<rparr>" let ?s1 = "?s0\<lparr>heap := put b ?g (heap s)\<rparr>"
  have u: "upd b ?g ?s0 = Some ?s1" using upd_eq [of b ?s0] b(1,2) by simp
  have w: "sz3 (heap ?s1) = (sz3 (heap s))(b := sz)" "free3 (heap ?s1) = free3 (heap s)"
    using b(2) by (simp_all add: fun_upd_idem)
  have "hist ?s0 ?F" "list_ok ?s0 (xs @ [b])" using i(1,4) by simp_all
  then have "hist ?s1 ?F" "list_ok ?s1 (xs @ [b])"
    using hist_put [of ?s0 ?F b ?g] list_put [of ?s0 "xs @ [b]" b ?g] b(2) assms(2) by simp_all
  moreover have "\<forall>x \<in> set (xs @ [b]). x \<le> b" using i(2) by (auto simp: sorted_wrt_append)
  then have "stack META ((sz3 (heap s))(b := sz)) (brk s + (sz - sz3 (heap s) b)) (set (xs @ [b]))"
    using stack_grow [OF i(3) bm] assms(3,5) by simp
  ultimately have "inv3 ?s1 (xs @ [b]) k"
    unfolding inv3_def using i(2,5,6) w assms(4) by simp
  moreover have "moved3 (heap s) (heap ?s1) (data s) (data ?s1) (set (xs @ [b])) (set (xs @ [b])) sz b b"
    using w assms(2) by (auto simp: moved3_def used_def)
  ultimately show ?thesis using u by blast
qed

text \<open>Release in terms of the blocks in use.\<close>

lemma sfree3_used:
  assumes "inv3 s (xs @ b # ys) k" "\<not> free3 (heap s) b"
    and "gain (heap s) (rev xs) + sz3 (heap s) b + gain (heap s) ys < MMAP_SIZE"
  shows "\<exists>s' as'. sfree (b + META) s = Some s' \<and> inv3 s' as' k \<and> data s' = data s \<and>
    used (heap s') (set as') = used (heap s) (set (xs @ b # ys)) - {b} \<and>
    (\<forall>a \<in> used (heap s) (set (xs @ b # ys)) - {b}. sz3 (heap s') a = sz3 (heap s) a)"
proof -
  let ?l = "eaten (heap s) (rev xs)" and ?ys = "if eaten (heap s) ys then tl ys else ys"
  let ?as = "(if ?l then xs else xs @ [b]) @ ?ys"
  let ?h = "if ?l then last xs else b"
  obtain s' where s': "sfree (b + META) s = Some s'" "inv3 s' ?as k" "data s' = data s"
      "\<forall>a \<in> set ?as. if a = ?h then free3 (heap s') a \<and> sz3 (heap s') a = gain (heap s) (rev xs) + sz3 (heap s) b + gain (heap s) ys
         else free3 (heap s') a = free3 (heap s) a \<and> sz3 (heap s') a = sz3 (heap s) a"
    using sfree3_spec [OF assms] by blast
  have nb: "b \<notin> set xs" "b \<notin> set ys" using inv3D(9) [OF assms(1)] by auto
  have lx: "free3 (heap s) (last xs)" if ?l using that by (auto simp: eaten_def hd_rev)
  have fy: "set ?ys \<subseteq> set ys" "\<And>a. a \<in> set ys \<Longrightarrow> \<not> free3 (heap s) a \<Longrightarrow> a \<in> set ?ys"
    by (cases ys; auto simp: eaten_def)+
  have pt: "free3 (heap s') a = (a = ?h \<or> free3 (heap s) a)" "a \<noteq> ?h \<Longrightarrow> sz3 (heap s') a = sz3 (heap s) a"
    if "a \<in> set ?as" for a using s'(4) that by (metis (no_types, lifting))+
  have mem: "a \<in> set ?as \<and> a \<noteq> ?h" if "a \<in> used (heap s) (set (xs @ b # ys)) - {b}" for a
    using that fy(2) [of a] lx by (auto simp: used_def)
  have "used (heap s') (set ?as) = used (heap s) (set (xs @ b # ys)) - {b}"
  proof (intro equalityI subsetI)
    fix a assume "a \<in> used (heap s') (set ?as)"
    then have a: "a \<in> set ?as" "\<not> free3 (heap s) a" "a \<noteq> ?h" using pt(1) [of a] by (simp_all add: used_def)
    then have "a \<noteq> b" using nb fy(1) by (auto split: if_splits)
    with a fy(1) show "a \<in> used (heap s) (set (xs @ b # ys)) - {b}" by (auto simp: used_def split: if_splits)
  next
    fix a assume a: "a \<in> used (heap s) (set (xs @ b # ys)) - {b}"
    then have "\<not> free3 (heap s) a" by (simp add: used_def)
    with mem [OF a] pt(1) [of a] show "a \<in> used (heap s') (set ?as)" by (simp add: used_def)
  qed
  moreover have "sz3 (heap s') a = sz3 (heap s) a" if "a \<in> used (heap s) (set (xs @ b # ys)) - {b}" for a
    using mem [OF that] pt(2) [of a] by blast
  ultimately show ?thesis using s'(1-3) by blast
qed

text \<open>Copying a block to one just handed out, and releasing it.\<close>

lemma copy_and_free:
  assumes "inv3 s (xs @ b # ys) k" "\<not> free3 (heap s) b"
    and "gain (heap s) (rev xs) + sz3 (heap s) b + gain (heap s) ys < MMAP_SIZE"
    and "inv3 s1 as1 k1" "data s1 = data s" "handed3 (heap s) (heap s1) (set (xs @ b # ys)) (set as1) sz d"
  defines "n \<equiv> min (sz3 (heap s) b) sz"
  shows "\<exists>s' as'. sfree (b + META) (s1\<lparr>data := memmove (d + META) (b + META) n (data s)\<rparr>) = Some s' \<and> inv3 s' as' k1 \<and>
    moved3 (heap s) (heap s') (data s) (data s') (set (xs @ b # ys)) (set as') sz b d \<and>
    b \<in> set as1 \<and> sz3 (heap s1) b = sz3 (heap s) b"
proof -
  let ?as = "xs @ b # ys" and ?U = "used (heap s) (set (xs @ b # ys))"
  let ?D = "memmove (d + META) (b + META) n (data s)" let ?s1 = "s1\<lparr>data := ?D\<rparr>"
  have hd: "set ?as \<subseteq> set as1" "d \<notin> ?U" "used (heap s1) (set as1) = insert d ?U" "sz \<le> sz3 (heap s1) d"
    using assms(6) by (simp_all add: handed3_def)
  have keep: "sz3 (heap s1) a = sz3 (heap s) a \<and> free3 (heap s1) a = free3 (heap s) a" if "a \<in> set ?as" "a \<noteq> d" for a
    using assms(6) that unfolding handed3_def by blast
  have bd: "b \<noteq> d" using hd(2) assms(2) by (auto simp: used_def)
  have b1: "sz3 (heap s1) b = sz3 (heap s) b" "\<not> free3 (heap s1) b" "b \<in> set as1"
    using keep [of b] bd assms(2) hd(1) by auto
  obtain xs1 ys1 where as1: "as1 = xs1 @ b # ys1" using split_list [OF b1(3)] by blast
  have i1: "inv3 s1 (xs1 @ b # ys1) k1" "inv3 ?s1 (xs1 @ b # ys1) k1" using assms(4) as1 by simp_all
  have "gain (heap ?s1) (rev xs1) + sz3 (heap ?s1) b + gain (heap ?s1) ys1 < MMAP_SIZE"
    using gain_mono_right [OF assms(1) i1(1) assms(2)] gain_mono_left [OF assms(1) i1(1)] assms(6) as1 b1(1) assms(3) by fastforce
  from sfree3_used [OF i1(2) _ this] obtain s' as' where s': "sfree (b + META) ?s1 = Some s'" "inv3 s' as' k1" "data s' = ?D"
      "used (heap s') (set as') = insert d ?U - {b}" "\<forall>a \<in> insert d ?U - {b}. sz3 (heap s') a = sz3 (heap s1) a"
    using b1(2) as1 hd(3) by auto
  have other: "sz3 (heap s') a = sz3 (heap s) a \<and> (\<forall>i < sz3 (heap s) a. data s' (a + META + i) = data s (a + META + i))"
    if "a \<in> ?U - {b}" for a
  proof -
    have aa: "a \<in> set ?as" "a \<noteq> d" "a \<in> set as1" using that hd(1,2) by (auto simp: used_def)
    have dd: "d \<in> set as1" "n \<le> sz3 (heap s1) d" using hd(3,4) by (auto simp: used_def n_def)
    show ?thesis
      using memmove_apart [OF inv3D(3) [OF assms(4)] aa(3) dd(1) aa(2) _ dd(2)] keep [OF aa(1,2)] s'(3,5) that by auto
  qed
  have "data s' (d + META + i) = data s (b + META + i)" if "i < min sz (sz3 (heap s) b)" for i
    using that s'(3) memmove_copies [of i n "d + META" "b + META"] by (simp add: n_def)
  moreover have "sz \<le> sz3 (heap s') d" using s'(5) bd hd(4) by simp
  ultimately have "moved3 (heap s) (heap s') (data s) (data s') (set ?as) (set as') sz b d"
    unfolding moved3_def using s'(4) bd hd(2) other by auto
  then show ?thesis using s'(1,2) b1 by blast
qed

text \<open>Moving to a block from \<open>smalloc\<close>.\<close>

lemma move_to_new_ok:
  assumes "inv3 s (xs @ b # ys) k" "\<not> free3 (heap s) b" "sz < MMAP_SIZE"
    and "gain (heap s) (rev xs) + sz3 (heap s) b + gain (heap s) ys < MMAP_SIZE"
  shows "\<exists>p s' as' k'. move_to_new grant mm (b + META) sz s = Some (p, s') \<and> inv3 s' as' k' \<and>
    (if p = NULL then data s' = data s \<and> set as' = set (xs @ b # ys) \<and>
         (\<forall>a \<in> set as'. sz3 (heap s') a = sz3 (heap s) a \<and> free3 (heap s') a = free3 (heap s) a)
     else \<exists>d. p = d + META \<and> moved3 (heap s) (heap s') (data s) (data s') (set (xs @ b # ys)) (set as') sz b d)"
proof -
  let ?as = "xs @ b # ys"
  obtain p s1 as1 k1 where s1: "smalloc grant mm sz s = Some (p, s1)" "inv3 s1 as1 k1" "data s1 = data s"
      "if p = NULL then as1 = ?as \<and> (\<forall>a \<in> set ?as. sz3 (heap s1) a = sz3 (heap s) a \<and> free3 (heap s1) a = free3 (heap s) a)
       else \<exists>d. p = d + META \<and> handed3 (heap s) (heap s1) (set ?as) (set as1) sz d \<and>
         (\<forall>a \<in> set ?as. free3 (heap s) a \<and> sz \<le> sz3 (heap s) a \<longrightarrow>
           d \<in> set ?as \<and> free3 (heap s) d \<and> sz3 (heap s) d \<le> sz3 (heap s) a)"
    using smalloc3_spec [OF assms(1,3), of grant mm] by blast
  show ?thesis
  proof (cases "p = NULL")
    case True
    then have "move_to_new grant mm (b + META) sz s = Some (NULL, s1)" using s1(1) by (simp add: move_to_new_def)
    with True s1 show ?thesis by (intro exI [of _ NULL] exI [of _ s1] exI [of _ as1] exI [of _ k1]) simp
  next
    case False
    then obtain d where d: "p = d + META" "handed3 (heap s) (heap s1) (set ?as) (set as1) sz d" using s1(4) by auto
    from copy_and_free [OF assms(1,2,4) s1(2,3) d(2)] obtain s' as' where
      s': "sfree (b + META) (s1\<lparr>data := memmove (d + META) (b + META) (min (sz3 (heap s) b) sz) (data s)\<rparr>) = Some s'"
        "inv3 s' as' k1" "moved3 (heap s) (heap s') (data s) (data s') (set ?as) (set as') sz b d"
        "b \<in> set as1" "sz3 (heap s1) b = sz3 (heap s) b"
      by blast
    note b = inv3_block [OF s1(2) s'(4)]
    have "ld b s1 = Some (the (heap s1 b))" using ld_eq b by auto
    then have "move_to_new grant mm (b + META) sz s = Some (p, s')"
      using s1(1,3) s'(1,5) b d(1) by (simp add: move_to_new_def META_def)
    then show ?thesis using s'(2,3) d(1) False by (intro exI [of _ p] exI [of _ s'] exI [of _ as'] exI [of _ k1]) auto
  qed
qed

text \<open>
  \<open>srealloc\<close> with the code of the merge of three blocks as an argument: the fourth allocator differs from
  the third one there.
\<close>

definition srealloc_by ::
  "(addr \<Rightarrow> addr \<Rightarrow> sz \<Rightarrow> alloc3 \<Rightarrow> (addr \<times> alloc3) option) \<Rightarrow> grant \<Rightarrow> addr option \<Rightarrow> addr \<Rightarrow> sz \<Rightarrow> alloc3 \<Rightarrow> (addr \<times> alloc3) option" where
  "srealloc_by mboth grant mm oldp sz s =
     (if sz = 0 \<or> sz > MAX_SIZE then Some (NULL, s)
      else if oldp = NULL then smalloc grant mm sz s
      else do {
        let oldp_metadata = oldp - META;
        if sz \<ge> MMAP_SIZE then move_to_new grant mm oldp sz s
        else do {
          m \<leftarrow> ld oldp_metadata s;
          if b_size m \<ge> sz then
            (if sz_sub (b_size m) sz \<ge> 128 + META then do {
               (p, s) \<leftarrow> split_block oldp_metadata sz s;
               Some (p + META, s) }
             else Some (oldp, s))
          else do {
            let oldp_prev = list_prev m;
            let oldp_next = list_next m;
            prv \<leftarrow> neighbour oldp_prev s;
            if fits_with prv (b_size m) sz then merge_prev oldp_metadata oldp_prev sz s
            else do {
            nxt \<leftarrow> neighbour oldp_next s;
            if fits_with nxt (b_size m) sz then merge_next oldp_metadata sz s
            else if fits_both prv nxt (b_size m) sz then mboth oldp_metadata oldp_prev sz s
            else if oldp_next = NULL \<and> all_list_end s = oldp_metadata then
              (case sbrk grant (to_intptr (sz_sub sz (b_size m))) (brk s) of
                 (None, _) \<Rightarrow> Some (NULL, s)
               | (Some _, b) \<Rightarrow> do {
                   s \<leftarrow> upd (all_list_end s) (b_size_update (\<lambda>_. sz)) (s\<lparr>brk := b\<rparr>);
                   Some (oldp, s) })
            else move_to_new grant mm oldp sz s } } } })"

lemma srealloc_by3: "srealloc = srealloc_by merge_both"
  by (intro ext) (simp only: srealloc_def srealloc_by_def)

lemma neighbour_ok:
  assumes "inv3 s as k" "c \<in> set as"
  shows "neighbour c s = Some (Some (sz3 (heap s) c, free3 (heap s) c))"
  using inv3_block [OF assms] by (simp add: neighbour_def ld_eq)

lemma neighbour_NULL: "neighbour NULL s = Some None"
  by (simp add: neighbour_def)

lemma fits_exact:
  "n < MMAP_SIZE \<Longrightarrow> old < MMAP_SIZE \<Longrightarrow> fits_with (Some (n, f)) old sz \<longleftrightarrow> sz \<le> n + old + META \<and> f"
  "n < MMAP_SIZE \<Longrightarrow> l < MMAP_SIZE \<Longrightarrow> old < MMAP_SIZE \<Longrightarrow>
    fits_both (Some (n, f)) (Some (l, g)) old sz \<longleftrightarrow> sz \<le> n + l + old + 2 * META \<and> f \<and> g"
  by (auto simp: fits_with_def fits_both_def sz_add_def SIZE_MOD_def MMAP_SIZE_def META_def)

text \<open>What a reallocation of block \<open>b\<close> may return: \<open>NULL\<close> with all blocks as before, or a block with the bytes of \<open>b\<close>.\<close>

definition realloc3 :: "alloc3 \<Rightarrow> addr list \<Rightarrow> addr \<Rightarrow> sz \<Rightarrow> (addr \<times> alloc3) option \<Rightarrow> bool" where
  "realloc3 s as b sz r \<longleftrightarrow> (\<exists>p s' as' k'. r = Some (p, s') \<and> inv3 s' as' k' \<and>
    (if p = NULL then data s' = data s \<and> set as' = set as \<and>
         (\<forall>a \<in> set as'. sz3 (heap s') a = sz3 (heap s) a \<and> free3 (heap s') a = free3 (heap s) a)
     else \<exists>d. p = d + META \<and> moved3 (heap s) (heap s') (data s) (data s') (set as) (set as') sz b d))"

lemma realloc3I:
  assumes "\<exists>s' as'. r = Some (d + META, s') \<and> inv3 s' as' k \<and>
    moved3 (heap s) (heap s') (data s) (data s') (set as) (set as') sz b d"
  shows "realloc3 s as b sz r"
proof -
  obtain s' as' where "r = Some (d + META, s')" "inv3 s' as' k" "moved3 (heap s) (heap s') (data s) (data s') (set as) (set as') sz b d"
    using assms by blast
  then show ?thesis unfolding realloc3_def
    by (intro exI [of _ "d + META"] exI [of _ s'] exI [of _ as'] exI [of _ k]) (auto simp: META_def)
qed

text \<open>Growing the last block in place.\<close>

definition grow_wild :: "grant \<Rightarrow> addr \<Rightarrow> sz \<Rightarrow> alloc3 \<Rightarrow> (addr \<times> alloc3) option" where
  "grow_wild grant b sz s =
     (case sbrk grant (to_intptr (sz_sub sz (sz3 (heap s) b))) (brk s) of
        (None, _) \<Rightarrow> Some (NULL, s)
      | (Some _, b') \<Rightarrow> do {
          s \<leftarrow> upd (all_list_end s) (b_size_update (\<lambda>_. sz)) (s\<lparr>brk := b'\<rparr>);
          Some (b + META, s) })"

lemma grow_wild_ok:
  assumes "inv3 s (xs @ [b]) k" "\<not> free3 (heap s) b" "sz3 (heap s) b < sz" "sz < MMAP_SIZE"
  shows "realloc3 s (xs @ [b]) b sz (grow_wild grant b sz s)"
proof -
  let ?n = "int (sz - sz3 (heap s) b)"
  have n: "to_intptr (sz_sub sz (sz3 (heap s) b)) = ?n"
    using assms(3,4) by (simp add: sz_sub_exact to_intptr_small MMAP_SIZE_def SIZE_MOD_def)
  have eb: "all_list_end s = b" using inv3D(1) [OF assms(1)] by (simp add: list_ok_def)
  show ?thesis
  proof (cases rule: sbrk_cases [of grant ?n "brk s"])
    case 1
    then have "grow_wild grant b sz s = Some (NULL, s)" using n by (simp add: grow_wild_def)
    with assms(1) show ?thesis unfolding realloc3_def
      by (intro exI [of _ NULL] exI [of _ s] exI [of _ "xs @ [b]"] exI [of _ k]) simp
  next
    case 2
    have e2: "nat (int (brk s) + ?n) = brk s + (sz - sz3 (heap s) b)" by simp
    have le: "sz3 (heap s) b \<le> sz" "brk s + (sz - sz3 (heap s) b) < SIZE_MOD" using assms(3) 2(3) e2 by simp_all
    obtain s' where s': "upd b (b_size_update (\<lambda>_. sz)) (s\<lparr>brk := brk s + (sz - sz3 (heap s) b)\<rparr>) = Some s'" "inv3 s' (xs @ [b]) k"
        "moved3 (heap s) (heap s') (data s) (data s') (set (xs @ [b])) (set (xs @ [b])) sz b b"
      using grow_used [OF assms(1,2) le(1) assms(4) le(2)] by blast
    have "grow_wild grant b sz s = Some (b + META, s')" unfolding grow_wild_def n using eb 2(1) [unfolded e2] s'(1) by simp
    then show ?thesis using s'(2,3) by (intro realloc3I [where k = k]) blast
  qed
qed

text \<open>The order in which \<open>srealloc\<close> tries its cases, with the guards as facts about the neighbours.\<close>

lemma srealloc_by_run:
  assumes "inv3 s (xs @ b # ys) k" "sz3 (heap s) b < sz" "sz < MMAP_SIZE"
  shows "srealloc_by mboth grant mm (b + META) sz s =
    (if xs \<noteq> [] \<and> free3 (heap s) (last xs) \<and> sz \<le> sz3 (heap s) (last xs) + sz3 (heap s) b + META then merge_prev b (last xs) sz s
     else if ys \<noteq> [] \<and> free3 (heap s) (hd ys) \<and> sz \<le> sz3 (heap s) (hd ys) + sz3 (heap s) b + META then merge_next b sz s
     else if xs \<noteq> [] \<and> ys \<noteq> [] \<and> free3 (heap s) (last xs) \<and> free3 (heap s) (hd ys) \<and>
       sz \<le> sz3 (heap s) (last xs) + sz3 (heap s) (hd ys) + sz3 (heap s) b + 2 * META then mboth b (last xs) sz s
     else if ys = [] then grow_wild grant b sz s
     else move_to_new grant mm (b + META) sz s)"
proof -
  let ?m = "heap s"
  note i = inv3D [OF assms(1)]
  have bm: "b \<in> set (xs @ b # ys)" by simp
  note b = inv3_block [OF assms(1) bm] and bs = i(5) [OF bm]
  define prv where "prv = (if xs = [] then None else Some (sz3 ?m (last xs), free3 ?m (last xs)))"
  define nxt where "nxt = (if ys = [] then None else Some (sz3 ?m (hd ys), free3 ?m (hd ys)))"
  have lk: "ln ?m b = hd (ys @ [NULL])" "lp ?m b = last (NULL # xs)" using i(1) by (auto simp: list_ok_def dll_mid)
  have nb: "neighbour (last (NULL # xs)) s = Some prv" "neighbour (hd (ys @ [NULL])) s = Some nxt"
    using neighbour_ok [OF assms(1), of "last xs"] neighbour_ok [OF assms(1), of "hd ys"]
    by (cases "xs = []"; cases "ys = []"; simp add: prv_def nxt_def neighbour_NULL)+
  have "hd ys \<noteq> NULL" if "ys \<noteq> []" using inv3_block(1) [OF assms(1), of "hd ys"] that by simp
  then have en: "hd (ys @ [NULL]) = NULL \<and> all_list_end s = b \<longleftrightarrow> ys = []" using i(1) by (auto simp: list_ok_def)
  have ran: "sz \<noteq> 0" "\<not> sz > MAX_SIZE" "\<not> sz \<ge> MMAP_SIZE" "b + META \<noteq> NULL" "\<not> sz3 ?m b \<ge> sz"
    using assms(2,3) b(1) by (simp_all add: MMAP_SIZE_def MAX_SIZE_def)
  have ld: "ld b s = Some (the (?m b))" "b_size (the (?m b)) = sz3 ?m b" "list_prev (the (?m b)) = lp ?m b" "list_next (the (?m b)) = ln ?m b"
    using ld_eq b by simp_all
  have pv: "fits_with prv (sz3 ?m b) sz \<longleftrightarrow> xs \<noteq> [] \<and> free3 ?m (last xs) \<and> sz \<le> sz3 ?m (last xs) + sz3 ?m b + META"
    using i(5) [of "last xs"] bs fits_exact(1) [of "sz3 ?m (last xs)" "sz3 ?m b"] by (auto simp: prv_def fits_with_def)
  have nx: "fits_with nxt (sz3 ?m b) sz \<longleftrightarrow> ys \<noteq> [] \<and> free3 ?m (hd ys) \<and> sz \<le> sz3 ?m (hd ys) + sz3 ?m b + META"
    using i(5) [of "hd ys"] bs fits_exact(1) [of "sz3 ?m (hd ys)" "sz3 ?m b"] by (auto simp: nxt_def fits_with_def)
  have bo: "fits_both prv nxt (sz3 ?m b) sz \<longleftrightarrow> xs \<noteq> [] \<and> ys \<noteq> [] \<and> free3 ?m (last xs) \<and> free3 ?m (hd ys) \<and>
      sz \<le> sz3 ?m (last xs) + sz3 ?m (hd ys) + sz3 ?m b + 2 * META"
    using i(5) [of "last xs"] i(5) [of "hd ys"] bs fits_exact(2) [of "sz3 ?m (last xs)" "sz3 ?m (hd ys)" "sz3 ?m b"]
    by (auto simp: prv_def nxt_def fits_both_def)
  have e: "srealloc_by mboth grant mm (b + META) sz s =
    (if fits_with prv (sz3 ?m b) sz then merge_prev b (last (NULL # xs)) sz s
     else if fits_with nxt (sz3 ?m b) sz then merge_next b sz s
     else if fits_both prv nxt (sz3 ?m b) sz then mboth b (last (NULL # xs)) sz s
     else if ys = [] then grow_wild grant b sz s
     else move_to_new grant mm (b + META) sz s)"
    unfolding srealloc_by_def grow_wild_def using ran
    by (simp only: if_False Let_def diff_add_inverse2 add_diff_cancel_right' ld lk nb en Option.bind.simps simp_thms)
  show ?thesis unfolding e pv nx bo by (intro if_cong refl) auto
qed

lemma gain_last: "xs \<noteq> [] \<Longrightarrow> free3 m (last xs) \<Longrightarrow> gain m (rev xs) = META + sz3 m (last xs)"
  by (cases xs rule: rev_cases) (simp_all add: gain_def)

lemma gain_hd: "ys \<noteq> [] \<Longrightarrow> free3 m (hd ys) \<Longrightarrow> gain m ys = META + sz3 m (hd ys)"
  by (cases ys) (simp_all add: gain_def)

text \<open>The sum of the sizes with which \<open>srealloc\<close> can merge \<open>b\<close> on both sides.\<close>

lemma srealloc_by_ok:
  assumes "inv3 s (xs @ b # ys) k" "\<not> free3 (heap s) b" "0 < sz" "sz < MMAP_SIZE"
    and room: "gain (heap s) (rev xs) + sz3 (heap s) b + gain (heap s) ys < MMAP_SIZE"
    and mboth: "\<And>c d us vs. xs = us @ [c] \<Longrightarrow> ys = d # vs \<Longrightarrow> free3 (heap s) c \<Longrightarrow> free3 (heap s) d \<Longrightarrow>
      sz \<le> sz3 (heap s) c + META + sz3 (heap s) b + META + sz3 (heap s) d \<Longrightarrow>
      sz3 (heap s) c + META + sz3 (heap s) b < sz \<Longrightarrow> sz3 (heap s) b + META + sz3 (heap s) d < sz \<Longrightarrow>
      \<exists>s' as'. mboth b c sz s = Some (c + META, s') \<and> inv3 s' as' k \<and>
        moved3 (heap s) (heap s') (data s) (data s') (set (xs @ b # ys)) (set as') sz b c"
  shows "realloc3 s (xs @ b # ys) b sz (srealloc_by mboth grant mm (b + META) sz s)"
proof (cases "sz \<le> sz3 (heap s) b")
  case True
  have bm: "b \<in> set (xs @ b # ys)" by simp
  note b = inv3_block [OF assms(1) bm]
  have "srealloc_by mboth grant mm (b + META) sz s = split_rest b sz s"
    using True b ld_eq [OF b(1,2)] assms(3,4) by (simp add: srealloc_by_def split_rest_def MMAP_SIZE_def MAX_SIZE_def)
  moreover have "\<exists>s' as'. split_rest b sz s = Some (b + META, s') \<and> inv3 s' as' k \<and>
      moved3 (heap s) (heap s') (data s) (data s') (set (xs @ b # ys)) (set as') sz b b"
    by (rule finish_move [OF assms(1) bm assms(2) True, where n = "sz3 (heap s) b"])
      (use assms(2) in \<open>auto simp: used_def memmove_self\<close>)
  ultimately show ?thesis by (intro realloc3I) simp
next
  case False
  let ?m = "heap s"
  define P where "P \<longleftrightarrow> xs \<noteq> [] \<and> free3 ?m (last xs) \<and> sz \<le> sz3 ?m (last xs) + sz3 ?m b + META"
  define N where "N \<longleftrightarrow> ys \<noteq> [] \<and> free3 ?m (hd ys) \<and> sz \<le> sz3 ?m (hd ys) + sz3 ?m b + META"
  define W where "W \<longleftrightarrow> xs \<noteq> [] \<and> ys \<noteq> [] \<and> free3 ?m (last xs) \<and> free3 ?m (hd ys) \<and>
    sz \<le> sz3 ?m (last xs) + sz3 ?m (hd ys) + sz3 ?m b + 2 * META"
  have run: "srealloc_by mboth grant mm (b + META) sz s =
    (if P then merge_prev b (last xs) sz s else if N then merge_next b sz s else if W then mboth b (last xs) sz s
     else if ys = [] then grow_wild grant b sz s else move_to_new grant mm (b + META) sz s)"
    unfolding P_def N_def W_def using srealloc_by_run [OF assms(1) _ assms(4)] False by simp
  have us: "xs = butlast xs @ [last xs]" if "xs \<noteq> []" using that by simp
  have vs: "ys = hd ys # tl ys" if "ys \<noteq> []" using that by simp
  consider "P" | "\<not> P" "N" | "\<not> P" "\<not> N" "W" | "\<not> P" "\<not> N" "\<not> W" "ys = []" | "\<not> P" "\<not> N" "\<not> W" "ys \<noteq> []" by blast
  then show ?thesis
  proof cases
    case 1
    then have p: "xs \<noteq> []" "free3 ?m (last xs)" "sz \<le> sz3 ?m (last xs) + META + sz3 ?m b" by (auto simp: P_def)
    have as: "xs @ b # ys = butlast xs @ last xs # b # ys" using us [OF p(1)] by (metis append.assoc append_Cons append_Nil)
    have "sz3 ?m (last xs) + META + sz3 ?m b < MMAP_SIZE" using room gain_last [OF p(1,2)] by simp
    from merge_prev_ok [OF assms(1) [unfolded as] assms(2) p(2) this p(3)] show ?thesis
      using 1 run by (intro realloc3I [where d = "last xs" and k = k]) (simp add: as)
  next
    case 2
    then have p: "ys \<noteq> []" "free3 ?m (hd ys)" "sz \<le> sz3 ?m b + META + sz3 ?m (hd ys)" by (auto simp: N_def)
    have as: "xs @ b # ys = xs @ b # hd ys # tl ys" using vs [OF p(1)] by simp
    have "sz3 ?m b + META + sz3 ?m (hd ys) < MMAP_SIZE" using room gain_hd [OF p(1,2)] by simp
    from merge_next_ok [OF assms(1) [unfolded as] assms(2) p(2) this p(3)] show ?thesis
      using 2 run by (intro realloc3I [where d = b and k = k]) (simp add: as)
  next
    case 3
    then have p: "xs \<noteq> []" "ys \<noteq> []" "free3 ?m (last xs)" "free3 ?m (hd ys)"
      "sz \<le> sz3 ?m (last xs) + META + sz3 ?m b + META + sz3 ?m (hd ys)" by (auto simp: W_def)
    have q: "sz3 ?m (last xs) + META + sz3 ?m b < sz" "sz3 ?m b + META + sz3 ?m (hd ys) < sz"
      using 3(1,2) p by (auto simp: P_def N_def)
    from mboth [OF us [OF p(1)] vs [OF p(2)] p(3-5) q] show ?thesis
      using 3 run by (intro realloc3I [where d = "last xs" and k = k]) simp
  next
    case 4
    then show ?thesis using grow_wild_ok [of s xs b k sz grant] run assms(1,2,4) False by simp
  next
    case 5
    then show ?thesis unfolding realloc3_def using move_to_new_ok [OF assms(1,2,4) room, of grant mm] run by simp
  qed
qed

lemmas srealloc_by_spec = srealloc_by_ok [unfolded realloc3_def]

subsection \<open>The third allocator's merge with both neighbours\<close>

text \<open>The nodes that are linked in the bins.\<close>

definition in_bins :: "alloc3 \<Rightarrow> addr set \<Rightarrow> bool" where
  "in_bins s A \<longleftrightarrow> (\<exists>H. histo_ok s H \<and> (\<Union>i < BINS. set (H i)) = A)"

lemma in_bins_hist: "hist s A \<Longrightarrow> in_bins s A"
  by (auto simp: hist_def in_bins_def binned_def)

lemma in_bins_links:
  assumes "in_bins s A" "free_histogram s' = free_histogram s" "dom (heap s') = dom (heap s)"
    and "hn (heap s') = hn (heap s)" "hp (heap s') = hp (heap s)"
  shows "in_bins s' A"
  using assms by (simp add: in_bins_def histo_ok_def)

lemma list_data [simp]: "list_ok (s\<lparr>data := d\<rparr>) as = list_ok s as"
  by (simp add: list_ok_def)

text \<open>Splitting a block in use that is still in a bin leaves it there.\<close>

lemma split_binned:
  assumes "hist s F" "list_ok s (xs @ c # ys)" "F \<subseteq> set (xs @ c # ys)" "\<not> free3 (heap s) c"
    and "sz3 (heap s) c = sz + META + r" "sz3 (heap s) c < MMAP_SIZE" "c + META + sz \<notin> set (xs @ c # ys)"
  defines "new \<equiv> c + META + sz"
  shows "\<exists>s'. split_block c sz s = Some (c, s') \<and> list_ok s' (xs @ c # new # ys) \<and> in_bins s' (insert new F) \<and>
    free3 (heap s') = (free3 (heap s))(c := False, new := True)"
proof -
  have c: "c \<in> dom (heap s)" "c \<noteq> NULL" using assms(2) by (auto simp: list_ok_def)
  have nf: "new \<notin> set (xs @ c # ys)" "new \<noteq> c" "new \<noteq> NULL" using assms(7) by (auto simp: new_def META_def)
  have rem: "sz_sub (sz_sub (sz + META + r) sz) META = r"
    using assms(5,6) by (simp add: sz_sub_exact MMAP_SIZE_def SIZE_MOD_def)
  define s1 where "s1 = (place_metadata new True r s)\<lparr>num_of_metadatas := sz_add (num_of_metadatas s) 1\<rparr>"
  note h1 = fresh_header [OF assms(1-3) nf(1,3), where fr = True and r = r and n = "sz_add (num_of_metadatas s) 1", folded s1_def]
  have "r div 1024 < BINS" using assms(5,6) by (simp add: MMAP_SIZE_def BINS_def)
  then obtain m2 f2 where m2: "add_node_histo new s1 = Some (s1\<lparr>heap := m2, free_histogram := f2\<rparr>)"
      "same_list (heap s1) m2" "hist (s1\<lparr>heap := m2, free_histogram := f2\<rparr>) (insert new F)"
    using hist_add [OF h1(1), of new] h1(3,4) nf(1) assms(3) by auto
  let ?s2 = "s1\<lparr>heap := m2, free_histogram := f2\<rparr>"
  note v2 = same_listD [OF m2(2)]
  have cd: "c \<in> dom (heap ?s2)" and cf: "\<not> free3 (heap ?s2) c" using c(1) h1(3,5) v2(1,5) nf(2) assms(4) by auto
  have r2: "remove_node_histo c ?s2 = Some ?s2" using ld_eq [OF c(2) cd] cf cd by (simp add: remove_node_histo_def)
  let ?g = "\<lambda>m. m\<lparr>b_free := False, b_size := sz\<rparr>"
  let ?s3 = "?s2\<lparr>heap := put c ?g m2\<rparr>"
  have p3: "place_metadata c False sz ?s2 = ?s3" using cd by (auto simp: place_metadata_def put_def)
  have l3: "list_ok ?s3 ((xs @ [c]) @ ys)" using list_put [OF list_same [OF h1(2) m2(2), of f2] cd, of ?g] by simp
  have b3: "in_bins ?s3 (insert new F)" by (rule in_bins_links [OF in_bins_hist [OF m2(3)]]) (use cd in simp_all)
  have "new \<in> dom (heap ?s3)" "new \<notin> set ((xs @ [c]) @ ys)" using h1(3) v2(1) nf(1) by auto
  from add_node_list_ok [OF l3 _ this] obtain m4 h e where
      m4: "add_node_list new c ?s3 = Some (?s3\<lparr>heap := m4, all_list_head := h, all_list_end := e\<rparr>)" "same_histo (heap ?s3) m4"
      "list_ok (?s3\<lparr>heap := m4, all_list_head := h, all_list_end := e\<rparr>) (xs @ c # new # ys)"
    by auto
  let ?s4 = "?s3\<lparr>heap := m4, all_list_head := h, all_list_end := e\<rparr>"
  note v4 = same_histoD [OF m4(2)]
  have "in_bins ?s4 (insert new F)" by (rule in_bins_links [OF b3]) (use v4 in simp_all)
  moreover have "free3 (heap ?s4) = (free3 (heap s))(c := False, new := True)"
    using v4(5) h1(5) v2(5) cd nf(2) by (simp add: fun_upd_twist)
  moreover have "split_block c sz s = Some (c, ?s4)"
  proof -
    have "(place_metadata new True r s)\<lparr>num_of_metadatas := sz_add (num_of_metadatas (place_metadata new True r s)) 1\<rparr> = s1"
      by (simp add: s1_def place_metadata_def)
    then show ?thesis using c m2(1) r2 p3 m4(1) rem assms(5)
      unfolding split_block_def new_def [symmetric] by (simp add: Let_def ld_eq)
  qed
  ultimately show ?thesis using m4(3) by blast
qed

lemma split_rest_binned:
  assumes "hist s (insert c {a \<in> set as. free3 (heap s) a})" "list_ok s as" "stack META (sz3 (heap s)) (brk s) (set as)"
    and "c \<in> set as" "\<not> free3 (heap s) c" "sz \<le> sz3 (heap s) c" "sz3 (heap s) c < MMAP_SIZE"
  shows "\<exists>s' as'. split_rest c sz s = Some (c + META, s') \<and> list_ok s' as' \<and> c \<in> set as' \<and> \<not> free3 (heap s') c \<and>
    in_bins s' (insert c {a \<in> set as'. free3 (heap s') a})"
proof -
  have c: "c \<in> dom (heap s)" "c \<noteq> NULL" using assms(2,4) by (auto simp: list_ok_def)
  have sub: "sz_sub (sz3 (heap s) c) sz = sz3 (heap s) c - sz"
    using assms(6,7) by (simp add: sz_sub_exact MMAP_SIZE_def SIZE_MOD_def)
  show ?thesis
  proof (cases "sz3 (heap s) c - sz < 128 + META")
    case True
    then have "split_rest c sz s = Some (c + META, s)" using c sub by (simp add: split_rest_def ld_eq)
    then show ?thesis using in_bins_hist [OF assms(1)] assms(2,4,5) by blast
  next
    case False
    let ?new = "c + META + sz"
    obtain xs ys where as: "as = xs @ c # ys" using split_list [OF assms(4)] by blast
    have sp: "sz3 (heap s) c = sz + META + (sz3 (heap s) c - sz - META)" using assms(6) False by simp
    have nf: "?new \<notin> set as"
      using stack_fresh [OF assms(3,4), of ?new] sp by (auto simp: META_def)
    from split_binned [OF assms(1) assms(2) [unfolded as] _ assms(5) sp assms(7) nf [unfolded as]] obtain s' where
        s': "split_block c sz s = Some (c, s')" "list_ok s' (xs @ c # ?new # ys)"
        "in_bins s' (insert ?new (insert c {a \<in> set as. free3 (heap s) a}))" "free3 (heap s') = (free3 (heap s))(c := False, ?new := True)"
      by (auto simp: as)
    have cn: "c \<noteq> ?new" using nf assms(4) by metis
    have "insert ?new (insert c {a \<in> set as. free3 (heap s) a}) = insert c {a \<in> set (xs @ c # ?new # ys). free3 (heap s') a}"
      unfolding s'(4) as using assms(5) cn by auto
    moreover have "split_rest c sz s = Some (c + META, s')" using c sub False s'(1) by (simp add: split_rest_def ld_eq)
    ultimately show ?thesis using s'(2-4) cn by (intro exI [of _ s'] exI [of _ "xs @ c # ?new # ys"]) auto
  qed
qed

lemma merge_both_binned:
  assumes "inv3 s (xs @ c # b # d # ys) k" "\<not> free3 (heap s) b" "free3 (heap s) c" "free3 (heap s) d"
    and "sz3 (heap s) c + META + sz3 (heap s) b + META + sz3 (heap s) d < MMAP_SIZE"
    and "sz \<le> sz3 (heap s) c + META + sz3 (heap s) b + META + sz3 (heap s) d"
  shows "\<exists>s' as'. merge_both b c sz s = Some (c + META, s') \<and> list_ok s' as' \<and> c \<in> set as' \<and> \<not> free3 (heap s') c \<and>
    in_bins s' (insert c {a \<in> set as'. free3 (heap s') a})"
proof -
  let ?m = "heap s" and ?as = "xs @ c # ys"
  let ?t1 = "sz3 ?m b + META + sz3 ?m d" let ?t = "sz3 ?m c + META + ?t1"
  have cm: "c \<in> set ?as" by simp
  have cb: "b \<noteq> NULL" "b \<in> dom ?m" "c \<noteq> NULL" "c \<in> dom ?m"
    using inv3_block [OF assms(1), of b] inv3_block [OF assms(1), of c] by simp_all
  from unite_both_ok [OF assms(1-5)] obtain s1 s2 where
      s2: "unite_srealloc b b False s = Some s1" "unite_srealloc b c True s1 = Some s2" "inv3 s2 ?as k"
      "sz3 (heap s2) = (sz3 ?m)(b := ?t1, c := ?t)" "free3 (heap s2) = (free3 ?m)(b := True)" "dom (heap s2) = dom ?m"
    by blast
  note i = inv3D [OF s2(3)]
  let ?g = "b_free_update (\<lambda>_. False)"
  let ?s3 = "s2\<lparr>heap := put c ?g (heap s2)\<rparr>"
  have cd: "c \<in> dom (heap s2)" "b \<in> dom (heap ?s3)" "c \<in> dom (heap ?s3)" using cb s2(6) by simp_all
  have u: "upd c ?g s2 = Some ?s3" using upd_eq [OF cb(3) cd(1)] by simp
  have w: "sz3 (heap ?s3) = sz3 (heap s2)" "free3 (heap ?s3) = (free3 (heap s2))(c := False)" using cd(1) by simp_all
  define n where "n = min (b_size (the (heap ?s3 b))) (b_size (the (heap ?s3 c)))"
  let ?s4 = "?s3\<lparr>data := memmove (c + META) (b + META) n (data ?s3)\<rparr>"
  have e: "merge_both b c sz s = split_rest c sz ?s4"
    using s2(1,2) u ld_eq [OF cb(1) cd(2)] ld_eq [OF cb(3) cd(3)] by (simp add: merge_both_def Let_def n_def)
  have F: "insert c {a \<in> set ?as. free3 (heap ?s4) a} = {a \<in> set ?as. free3 (heap s2) a}"
    using w(2) s2(5) assms(3) by auto
  have "hist ?s4 {a \<in> set ?as. free3 (heap s2) a}"
    by (rule hist_frame [OF i(4)]) (use i(7,8) cd(1) in auto)
  then have "hist ?s4 (insert c {a \<in> set ?as. free3 (heap ?s4) a})" unfolding F .
  moreover have "list_ok ?s3 ?as" using list_put [OF i(1) cd(1), of ?g] by simp
  then have "list_ok ?s4 ?as" by (simp only: list_data)
  moreover have "stack META (sz3 (heap ?s4)) (brk ?s4) (set ?as)" using i(3) w(1) by simp
  ultimately show ?thesis unfolding e
    by (rule split_rest_binned) (use cm w s2(4) assms(5,6) in auto)
qed

end
