(* ===== verification/Malloc_3_Contract.thy ===== *)
theory Malloc_3_Contract
  imports Malloc_3_Realloc Allocator
begin

text \<open>
  The third allocator against the contract of an allocator, its statistics, that released blocks merge,
  and the properties of \<open>malloc_3.cpp\<close>, among them three defects.
\<close>

subsection \<open>The allocator contract\<close>

definition heap3 :: "alloc3 \<Rightarrow> blocks \<Rightarrow> bool" where
  "heap3 s h \<longleftrightarrow> (\<exists>as k. inv3 s as k \<and> h = contents META (sz3 (heap s)) (data s) (used (heap s) (set as)))"

lemma heap3I: "inv3 s as k \<Longrightarrow> heap3 s (contents META (sz3 (heap s)) (data s) (used (heap s) (set as)))"
  by (auto simp: heap3_def)

text \<open>The block at \<open>p\<close> and its free neighbours are smaller than the mapping threshold together.\<close>

definition roomy3 :: "addr \<Rightarrow> alloc3 \<Rightarrow> bool" where
  "roomy3 p s \<longleftrightarrow> (\<forall>xs ys k. inv3 s (xs @ (p - META) # ys) k \<longrightarrow>
     gain (heap s) (rev xs) + sz3 (heap s) (p - META) + gain (heap s) ys < MMAP_SIZE)"

lemma used_block:
  assumes "inv3 s as k" "a \<in> used (heap s) (set as)"
  shows "a \<in> set as" "\<not> free3 (heap s) a" "a \<noteq> NULL" "NULL \<notin> used (heap s) (set as)"
  using assms inv3_block(1) [OF assms(1)] by (auto simp: used_def)

lemma no_null: "inv3 s as k \<Longrightarrow> NULL \<notin> used (heap s) (set as)"
  using inv3_block(1) by (auto simp: used_def)

lemma heap3_disjoint:
  assumes "heap3 s h" "h p = Some v" "h q = Some w" "p \<noteq> q"
  shows "{p ..< p + length v} \<inter> {q ..< q + length w} = {}"
proof -
  obtain as k where i: "inv3 s as k" and h: "h = contents META (sz3 (heap s)) (data s) (used (heap s) (set as))"
    using assms(1) by (auto simp: heap3_def)
  note n = no_null [OF i]
  note p = contents_Some [OF assms(2) [unfolded h] n] and q = contents_Some [OF assms(3) [unfolded h] n]
  have "p - META \<in> set as" "q - META \<in> set as" "p - META \<noteq> q - META"
    using p(1,2) q(1,2) assms(4) by (auto simp: used_def)
  from stack_disjoint [OF inv3D(3) [OF i] this] p(1) q(1)
  have "{p - META ..< p + sz3 (heap s) (p - META)} \<inter> {q - META ..< q + sz3 (heap s) (q - META)} = {}" by simp
  moreover have "{p ..< p + length v} \<subseteq> {p - META ..< p + sz3 (heap s) (p - META)}"
    "{q ..< q + length w} \<subseteq> {q - META ..< q + sz3 (heap s) (q - META)}"
    unfolding p(3) q(3) by auto
  ultimately show ?thesis by blast
qed

lemma heap3_alloc:
  assumes "heap3 s h" "n < MMAP_SIZE"
  shows "\<exists>p s' h'. smalloc grant mm n s = Some (p, s') \<and> heap3 s' h' \<and>
    (if p = NULL then h' = h else h p = None \<and> (\<exists>v. n \<le> length v \<and> h' = h(p \<mapsto> v)))"
proof -
  obtain as k where i: "inv3 s as k" and h: "h = contents META (sz3 (heap s)) (data s) (used (heap s) (set as))"
    using assms(1) by (auto simp: heap3_def)
  let ?U = "used (heap s) (set as)"
  obtain p s' as' k' where r: "smalloc grant mm n s = Some (p, s')" "inv3 s' as' k'" "data s' = data s"
      "if p = NULL then as' = as \<and> (\<forall>a \<in> set as. sz3 (heap s') a = sz3 (heap s) a \<and> free3 (heap s') a = free3 (heap s) a)
       else \<exists>b. p = b + META \<and> handed3 (heap s) (heap s') (set as) (set as') n b \<and>
         (\<forall>a \<in> set as. free3 (heap s) a \<and> n \<le> sz3 (heap s) a \<longrightarrow>
            b \<in> set as \<and> free3 (heap s) b \<and> sz3 (heap s) b \<le> sz3 (heap s) a)"
    using smalloc3_spec [OF i assms(2), of grant mm] by blast
  let ?h' = "contents META (sz3 (heap s')) (data s') (used (heap s') (set as'))"
  have h': "heap3 s' ?h'" using heap3I [OF r(2)] .
  show ?thesis
  proof (cases "p = NULL")
    case True
    then have "used (heap s') (set as') = ?U" using r(4) by (auto simp: used_def)
    moreover have "contents META (sz3 (heap s')) (data s') ?U = h"
      unfolding h r(3) by (rule contents_same [OF no_null [OF i]]) (use True r(4) in \<open>auto simp: used_def\<close>)
    ultimately show ?thesis using True r(1) h' by auto
  next
    case False
    then obtain b where b: "p = b + META" "b \<notin> ?U" "used (heap s') (set as') = insert b ?U" "n \<le> sz3 (heap s') b"
        "\<forall>a \<in> set as. a \<noteq> b \<longrightarrow> sz3 (heap s') a = sz3 (heap s) a"
      using r(4) unfolding handed3_def by auto
    have nn: "NULL \<notin> insert b ?U" using no_null [OF r(2)] b(3) by simp
    have "contents META (sz3 (heap s')) (data s') ?U = h"
      unfolding h r(3) by (rule contents_same) (use nn b(2,5) in \<open>auto simp: used_def\<close>)
    then have "?h' = h(p \<mapsto> map (data s') [p ..< p + sz3 (heap s') b])" using contents_new [OF nn] b(1,3) by simp
    moreover have "n \<le> length (map (data s') [p ..< p + sz3 (heap s') b])" using b(4) by simp
    ultimately have "\<exists>v. n \<le> length v \<and> ?h' = h(p \<mapsto> v)" by blast
    moreover have "h p = None" unfolding h using b(1,2) by (simp add: contents_def)
    ultimately show ?thesis using False r(1) h' by (intro exI [of _ p] exI [of _ s'] exI [of _ ?h']) simp
  qed
qed

lemma heap3_free:
  assumes "heap3 s h" "h p \<noteq> None" "roomy3 p s"
  shows "\<exists>s'. sfree p s = Some s' \<and> heap3 s' (h(p := None))"
proof -
  obtain as k where i: "inv3 s as k" and h: "h = contents META (sz3 (heap s)) (data s) (used (heap s) (set as))"
    using assms(1) by (auto simp: heap3_def)
  obtain v where "h p = Some v" using assms(2) by blast
  note p = contents_Some [OF this [unfolded h] no_null [OF i]]
  define b where "b = p - META"
  have pb: "p = b + META" using p(1) by (simp add: b_def)
  have b: "b \<in> set as" "\<not> free3 (heap s) b" using used_block [OF i p(2)] by (simp_all add: b_def)
  obtain xs ys where as: "as = xs @ b # ys" using split_list [OF b(1)] by blast
  have g: "gain (heap s) (rev xs) + sz3 (heap s) b + gain (heap s) ys < MMAP_SIZE"
    using assms(3) i as unfolding roomy3_def b_def by blast
  obtain s' as' where s': "sfree p s = Some s'" "inv3 s' as' k" "data s' = data s"
      "used (heap s') (set as') = used (heap s) (set as) - {b}"
      "\<forall>a \<in> used (heap s) (set as) - {b}. sz3 (heap s') a = sz3 (heap s) a"
    using sfree3_used [OF i [unfolded as] b(2) g] pb as by blast
  have "contents META (sz3 (heap s')) (data s') (used (heap s) (set as) - {b}) = h(p := None)"
    unfolding h pb s'(3) by (rule contents_del [OF no_null [OF i]]) (use s'(5) in auto)
  then show ?thesis using s'(1,2,4) unfolding heap3_def by metis
qed

interpretation m3: allocator heap3 "\<lambda>n. n < MMAP_SIZE" "smalloc grant mm" sfree roomy3 for grant mm
proof
  show "h NULL = None" if "heap3 s h" for s h
    using that no_null by (auto simp: heap3_def contents_def)
qed (rule heap3_disjoint heap3_alloc heap3_free; assumption)+

subsection \<open>Statistics\<close>

lemma walk_ok:
  assumes "dll (ln (heap s)) (lp (heap s)) a as NULL" "set as \<subseteq> dom (heap s)" "NULL \<notin> dom (heap s)"
    and "\<And>acc p. F acc p = (if p = NULL then Some acc else do { m \<leftarrow> ld p s; F (g acc m) (list_next m) })"
  shows "F acc (hd (as @ [NULL])) = Some (foldl (\<lambda>acc b. g acc (the (heap s b))) acc as)"
  using assms(1,2)
proof (induction as arbitrary: a acc)
  case Nil
  then show ?case using assms(4) by simp
next
  case (Cons b as)
  have b: "b \<in> dom (heap s)" using Cons.prems(2) by simp
  then have "b \<noteq> NULL" using assms(3) by metis
  have "F acc b = F (g acc (the (heap s b))) (ln (heap s) b)" using b \<open>b \<noteq> NULL\<close> by (subst assms(4)) (simp add: ld_eq)
  moreover have "ln (heap s) b = hd (as @ [NULL])" using Cons.prems(1) by simp
  ultimately show ?case using Cons.IH [of b] Cons.prems by simp
qed

lemma foldl_sz_add: "foldl (\<lambda>acc b. if P b then sz_add acc (n b) else acc) (x mod SIZE_MOD) as
    = (x + (\<Sum>b \<leftarrow> filter P as. n b)) mod SIZE_MOD"
  by (induction as arbitrary: x) (simp_all add: sz_add_mod add.assoc)

lemma foldl_sz_add0: "foldl (\<lambda>acc b. if P b then sz_add acc (n b) else acc) 0 as = (\<Sum>b \<leftarrow> filter P as. n b) mod SIZE_MOD"
  using foldl_sz_add [of P n 0 as] by simp

lemma sum_ones: "(\<Sum>b \<leftarrow> as. Suc 0) = length as"
  by (induction as) simp_all

lemma walk_sum:
  assumes "dll (ln (heap s)) (lp (heap s)) a as NULL" "set as \<subseteq> dom (heap s)" "NULL \<notin> dom (heap s)"
    and "\<And>acc p. F acc p = (if p = NULL then Some acc else do { m \<leftarrow> ld p s; F (if Q m then sz_add acc (n m) else acc) (list_next m) })"
    and "\<And>b. b \<in> set as \<Longrightarrow> Q (the (heap s b)) = P b" "\<And>b. b \<in> set as \<Longrightarrow> n (the (heap s b)) = l b"
  shows "F 0 (hd (as @ [NULL])) = Some ((\<Sum>b \<leftarrow> filter P as. l b) mod SIZE_MOD)"
proof -
  have "foldl (\<lambda>acc b. if Q (the (heap s b)) then sz_add acc (n (the (heap s b))) else acc) 0 as =
      foldl (\<lambda>acc b. if P b then sz_add acc (l b) else acc) 0 as"
    using assms(5,6) by (intro foldl_cong) simp_all
  then show ?thesis using walk_ok [OF assms(1-4), of 0] foldl_sz_add0 [of P l as] by simp
qed

text \<open>
  C36. Third allocator, statistics: in every state of the invariant the walks end, and report the number and the bytes of
  the free blocks, of all blocks with the mapped ones, and the bytes of the headers, those of failed
  allocations included, as \<open>size_t\<close>.
\<close>

theorem statistics3:
  assumes "inv3 s as k"
  shows "num_free_blocks s = Some (length (filter (free3 (heap s)) as) mod SIZE_MOD) \<and>
    num_free_bytes s = Some ((\<Sum>b \<leftarrow> filter (free3 (heap s)) as. sz3 (heap s) b) mod SIZE_MOD) \<and>
    num_allocated_blocks s = Some ((length as + mmaped_blocks_num s) mod SIZE_MOD) \<and>
    num_allocated_bytes s = Some (((\<Sum>b \<leftarrow> as. sz3 (heap s) b) + mmaped_bytes_num s) mod SIZE_MOD) \<and>
    num_meta_data_bytes s = ((length as + k + mmaped_blocks_num s) * META) mod SIZE_MOD"
proof -
  have l: "dll (ln (heap s)) (lp (heap s)) NULL as NULL" "set as \<subseteq> dom (heap s)" "NULL \<notin> dom (heap s)"
      "all_list_head s = hd (as @ [NULL])"
    using inv3D(1) [OF assms] by (auto simp: list_ok_def)
  have v: "b_free (the (heap s b)) = free3 (heap s) b" "b_size (the (heap s b)) = sz3 (heap s) b" if "b \<in> set as" for b
    using the_view3(5,6) [OF subsetD [OF l(2) that]] by simp_all
  note w = walk_sum [OF l(1-3)]
  have "num_free_blocks s = Some (length (filter (free3 (heap s)) as) mod SIZE_MOD)"
    using w [OF free_blocks_from.simps [of s], of "free3 (heap s)" "\<lambda>_. 1"] v(1)
    by (simp add: num_free_blocks_def l(4) sum_ones)
  moreover have "num_free_bytes s = Some ((\<Sum>b \<leftarrow> filter (free3 (heap s)) as. sz3 (heap s) b) mod SIZE_MOD)"
    using w [OF free_bytes_from.simps [of s], of "free3 (heap s)" "sz3 (heap s)"] v
    by (simp add: num_free_bytes_def l(4))
  moreover have bf: "blocks_from s acc p = (if p = NULL then Some acc
      else do { m \<leftarrow> ld p s; blocks_from s (if True then sz_add acc 1 else acc) (list_next m) })"
    "bytes_from s acc p = (if p = NULL then Some acc
      else do { m \<leftarrow> ld p s; bytes_from s (if True then sz_add acc (b_size m) else acc) (list_next m) })" for acc p
    by (subst blocks_from.simps bytes_from.simps, simp)+
  have "blocks_from s 0 (all_list_head s) = Some (length as mod SIZE_MOD)"
    using w [OF bf(1), of "\<lambda>_. True" "\<lambda>_. 1"] by (simp add: l(4) sum_ones)
  then have "num_allocated_blocks s = Some ((length as + mmaped_blocks_num s) mod SIZE_MOD)"
    by (simp add: num_allocated_blocks_def sz_add_mod)
  moreover have "bytes_from s 0 (all_list_head s) = Some ((\<Sum>b \<leftarrow> as. sz3 (heap s) b) mod SIZE_MOD)"
    using w [OF bf(2), of "\<lambda>_. True" "sz3 (heap s)"] v(2) by (simp add: l(4))
  then have "num_allocated_bytes s = Some (((\<Sum>b \<leftarrow> as. sz3 (heap s) b) + mmaped_bytes_num s) mod SIZE_MOD)"
    by (simp add: num_allocated_bytes_def sz_add_mod)
  moreover have "num_meta_data_bytes s = ((length as + k + mmaped_blocks_num s) * META) mod SIZE_MOD"
    using inv3D(6) [OF assms] by (simp add: num_meta_data_bytes_def sz_mul_def mod_mult_left_eq)
  ultimately show ?thesis by blast
qed

subsection \<open>Merging\<close>

text \<open>No two neighbours are both free.\<close>

definition coalesced :: "mem3 \<Rightarrow> addr list \<Rightarrow> bool" where
  "coalesced m as \<longleftrightarrow> successively (\<lambda>a b. \<not> (free3 m a \<and> free3 m b)) as"

lemma coalesced_append:
  "coalesced m (xs @ ys) \<longleftrightarrow> coalesced m xs \<and> coalesced m ys \<and> (xs = [] \<or> ys = [] \<or> \<not> (free3 m (last xs) \<and> free3 m (hd ys)))"
  by (auto simp: coalesced_def successively_append_iff)

lemma coalesced_Cons:
  "coalesced m (b # ys) \<longleftrightarrow> coalesced m ys \<and> (ys = [] \<or> \<not> (free3 m b \<and> free3 m (hd ys)))"
  by (auto simp: coalesced_def successively_Cons)

lemma coalesced_cong: "(\<And>a. a \<in> set as \<Longrightarrow> free3 m a = free3 m' a) \<Longrightarrow> coalesced m as = coalesced m' as"
  unfolding coalesced_def by (intro successively_cong) auto

lemma coalesced_merged:
  assumes "coalesced m (xs @ b # ys)" "\<not> free3 m b" "b \<notin> set xs" "b \<notin> set ys" "distinct (xs @ ys)"
  defines "l \<equiv> eaten m (rev xs)"
  defines "as' \<equiv> (if l then xs else xs @ [b]) @ (if eaten m ys then tl ys else ys)"
  assumes "\<And>a. a \<in> set as' \<Longrightarrow> free3 m' a = (a = (if l then last xs else b) \<or> free3 m a)"
  shows "coalesced m' as'"
proof -
  let ?ys = "if eaten m ys then tl ys else ys"
  have c: "coalesced m xs" "coalesced m ys" using assms(1) by (simp_all add: coalesced_append coalesced_Cons)
  have hy: "coalesced m ?ys" "?ys = [] \<or> \<not> free3 m (hd ?ys)" "set ?ys \<subseteq> set ys"
    using c(2) by (cases ys; auto simp: eaten_def coalesced_Cons)+
  have y': "free3 m' a = free3 m a" if "a \<in> set ?ys" for a
  proof -
    have ay: "a \<in> set ys" using that hy(3) by blast
    have "a \<noteq> last xs" if l
    proof -
      have "xs \<noteq> []" using that by (simp add: l_def eaten_def)
      then show ?thesis using ay assms(5) last_in_set [of xs] by (metis disjoint_iff distinct_append)
    qed
    then have "a \<noteq> (if l then last xs else b)" using ay assms(4) by auto
    then show ?thesis using assms(8) [of a] that by (simp add: as'_def)
  qed
  have cy: "coalesced m' ?ys" "?ys = [] \<or> \<not> free3 m' (hd ?ys)"
    using hy(1,2) y' coalesced_cong [of ?ys m' m] by auto
  show ?thesis
  proof (cases l)
    case True
    then have fl: "xs \<noteq> []" "free3 m (last xs)" by (auto simp: l_def eaten_def hd_rev)
    have "free3 m' a = free3 m a" if "a \<in> set xs" for a using assms(8) [of a] True fl that by (auto simp: as'_def)
    then have "coalesced m' xs" using c(1) coalesced_cong [of xs m' m] by blast
    then show ?thesis using True cy by (auto simp: as'_def coalesced_append)
  next
    case False
    then have fl: "xs = [] \<or> \<not> free3 m (last xs)" by (auto simp: l_def eaten_def hd_rev)
    have x': "free3 m' a = free3 m a" if "a \<in> set xs" for a using assms(8) [of a] False assms(3) that by (auto simp: as'_def)
    then have "coalesced m' xs" "xs = [] \<or> \<not> free3 m' (last xs)" using c(1) fl coalesced_cong [of xs m' m] by auto
    then show ?thesis using False cy by (auto simp: as'_def coalesced_append coalesced_Cons)
  qed
qed

text \<open>
  C5. Third allocator, release: where no two neighbours are free, \<open>sfree\<close> of a block in use ends, keeps the
  invariant and the bytes, and takes exactly that block from the blocks in use. The block is merged with its free
  neighbours into one free block, and again no two neighbours are free. The bound is the one of the
  histogram: the merged block must stay below 128 KB.
\<close>

theorem sfree3_merges:
  assumes "inv3 s (xs @ b # ys) k" "\<not> free3 (heap s) b" "coalesced (heap s) (xs @ b # ys)"
    and "gain (heap s) (rev xs) + sz3 (heap s) b + gain (heap s) ys < MMAP_SIZE"
  shows "\<exists>s' as' c. sfree (b + META) s = Some s' \<and> inv3 s' as' k \<and> coalesced (heap s') as' \<and> data s' = data s \<and>
    used (heap s') (set as') = used (heap s) (set (xs @ b # ys)) - {b} \<and>
    c \<in> set as' \<and> free3 (heap s') c \<and> sz3 (heap s') c = gain (heap s) (rev xs) + sz3 (heap s) b + gain (heap s) ys \<and>
    (if eaten (heap s) (rev xs) then c = last xs else c = b)"
proof -
  let ?l = "eaten (heap s) (rev xs)"
  let ?as = "(if ?l then xs else xs @ [b]) @ (if eaten (heap s) ys then tl ys else ys)"
  let ?h = "if ?l then last xs else b"
  have di: "distinct (xs @ b # ys)" by (rule inv3D(9) [OF assms(1)])
  obtain s' where s': "sfree (b + META) s = Some s'" "inv3 s' ?as k" "data s' = data s"
      "\<forall>a \<in> set ?as. if a = ?h then free3 (heap s') a \<and> sz3 (heap s') a = gain (heap s) (rev xs) + sz3 (heap s) b + gain (heap s) ys
         else free3 (heap s') a = free3 (heap s) a \<and> sz3 (heap s') a = sz3 (heap s) a"
    using sfree3_spec [OF assms(1,2,4)] by blast
  obtain as2 where u: "inv3 s' as2 k" "used (heap s') (set as2) = used (heap s) (set (xs @ b # ys)) - {b}"
    using sfree3_used [OF assms(1,2,4)] s'(1) by (metis option.inject)
  have "as2 = ?as"
  proof -
    have "list_ok s' as2" "list_ok s' ?as" using inv3D(1) [OF u(1)] inv3D(1) [OF s'(2)] .
    then have d: "dll (ln (heap s')) (lp (heap s')) NULL as2 NULL" "dll (ln (heap s')) (lp (heap s')) NULL ?as NULL"
        "hd (as2 @ [NULL]) = hd (?as @ [NULL])" "NULL \<notin> set as2" "NULL \<notin> set ?as"
      unfolding list_ok_def by (fastforce, fastforce, metis, blast, blast)
    show ?thesis by (rule dll_unique [OF d])
  qed
  moreover have "coalesced (heap s') ?as"
  proof (rule coalesced_merged [OF assms(3,2)])
    show "free3 (heap s') a = (a = ?h \<or> free3 (heap s) a)" if "a \<in> set ?as" for a
      using bspec [OF s'(4) that] by (cases "a = ?h") (simp_all only: if_True if_False simp_thms)
  qed (use di in simp_all)
  moreover have "?h \<in> set ?as" by (cases "xs = []") (simp_all add: eaten_def)
  moreover have "free3 (heap s') ?h \<and> sz3 (heap s') ?h = gain (heap s) (rev xs) + sz3 (heap s) b + gain (heap s) ys"
    using bspec [OF s'(4) \<open>?h \<in> set ?as\<close>] by (simp only: if_True simp_thms)
  ultimately show ?thesis using s'(1-3) u(2) by (intro exI [of _ s'] exI [of _ ?as] exI [of _ ?h]) simp
qed


subsection \<open>Example states\<close>

text \<open>A free block of 1000 bytes, one of 500 in use, a free one of 300; and two neighbours of 100000 bytes, the first one free.\<close>

definition three :: alloc3 where
  "three = (init3 2944)\<lparr>
     heap := [1000 \<mapsto> \<lparr>b_size = 1000, b_free = True, list_next = 2048, list_prev = NULL, histo_next = NULL, histo_prev = 2596\<rparr>,
              2048 \<mapsto> \<lparr>b_size = 500, b_free = False, list_next = 2596, list_prev = 1000, histo_next = NULL, histo_prev = NULL\<rparr>,
              2596 \<mapsto> \<lparr>b_size = 300, b_free = True, list_next = NULL, list_prev = 2048, histo_next = 1000, histo_prev = NULL\<rparr>],
     all_list_head := 1000, all_list_end := 2596, free_histogram := (replicate BINS NULL)[0 := 2596], num_of_metadatas := 3\<rparr>"

definition large :: alloc3 where
  "large = (init3 204192)\<lparr>
     heap := [4096 \<mapsto> \<lparr>b_size = 100000, b_free = True, list_next = 104144, list_prev = NULL, histo_next = NULL, histo_prev = NULL\<rparr>,
              104144 \<mapsto> \<lparr>b_size = 100000, b_free = False, list_next = NULL, list_prev = 4096, histo_next = NULL, histo_prev = NULL\<rparr>],
     all_list_head := 4096, all_list_end := 104144, free_histogram := (replicate BINS NULL)[97 := 4096], num_of_metadatas := 2\<rparr>"

lemmas view3_defs = ln_def lp_def hn_def hp_def sz3_def free3_def csize_def cfree_def core3_def

lemma three_inv: "inv3 three [1000, 2048, 2596] 0"
proof -
  let ?H = "(\<lambda>_. [])(0 := [2596, 1000 :: addr])"
  have "histo_ok three ?H"
    unfolding histo_ok_def by (simp add: three_def init3_def view3_defs BINS_def nth_list_update) auto
  moreover have "binned (heap three) {1000, 2596} ?H"
    unfolding binned_def by (auto simp: three_def init3_def view3_defs BINS_def)
  moreover have "{b \<in> set [1000, 2048, 2596]. free3 (heap three) b} = {1000, 2596}"
    by (auto simp: three_def view3_defs)
  ultimately have "hist three {b \<in> set [1000, 2048, 2596]. free3 (heap three) b}" unfolding hist_def by metis
  then show ?thesis
    unfolding inv3_def list_ok_def stack_def
    by (simp add: three_def init3_def view3_defs META_def MMAP_SIZE_def SIZE_MOD_def)
qed

lemma large_inv: "inv3 large [4096, 104144] 0"
proof -
  let ?H = "(\<lambda>_. [])(97 := [4096 :: addr])"
  have "histo_ok large ?H"
    unfolding histo_ok_def by (simp add: large_def init3_def view3_defs BINS_def nth_list_update) auto
  moreover have "binned (heap large) {4096} ?H"
    unfolding binned_def by (auto simp: large_def init3_def view3_defs BINS_def)
  moreover have "{b \<in> set [4096, 104144]. free3 (heap large) b} = {4096}"
    by (auto simp: large_def view3_defs)
  ultimately have "hist large {b \<in> set [4096, 104144]. free3 (heap large) b}" unfolding hist_def by metis
  then show ?thesis
    unfolding inv3_def list_ok_def stack_def
    by (simp add: large_def init3_def view3_defs META_def MMAP_SIZE_def SIZE_MOD_def)
qed

lemma three_view:
  "sz3 (heap three) 1000 = 1000" "sz3 (heap three) 2048 = 500" "sz3 (heap three) 2596 = 300"
  "free3 (heap three) 1000" "\<not> free3 (heap three) 2048" "free3 (heap three) 2596"
  by (simp_all add: three_def view3_defs)

text \<open>The witnesses evaluate these.\<close>

lemmas eval3 = srealloc_def sfree_def MAX_SIZE_def MMAP_SIZE_def META_def BINS_def ld_def upd_def bin_def set_bin_def
  neighbour_def fits_with_def fits_both_def sz_add_def sz_sub_def SIZE_MOD_def
  merge_both_def unite_srealloc_def add_node_histo_def unite_right_def
  remove_node_histo_def split_rest_def histo_place.simps init3_def

theorem statistics3_witness:
  "num_free_blocks three = Some 2 \<and> num_free_bytes three = Some 1300 \<and> num_allocated_bytes three = Some 1800"
  using statistics3 [OF three_inv] three_view by (simp add: SIZE_MOD_def three_def init3_def)

text \<open>
  C4. Third allocator, allocation: the exact outcome of \<open>smalloc\<close> for every request below the mapping threshold. It always
  ends, keeps the invariant and writes no byte of a block. A request of zero bytes gives \<open>NULL\<close> and changes
  nothing. When some free block is large enough, a smallest such block is handed out (best fit): whole, with its size, when less
  than 128 bytes and a header are left over, and else with exactly the size asked for and the rest a free block
  behind it. When none is and the last block is free, that block is extended to exactly the size asked for, or the answer is
  \<open>NULL\<close> and nothing changes when \<open>sbrk\<close> refuses. Else a block of that size is appended at the
  break, or the answer is \<open>NULL\<close> when one of the two calls of \<open>sbrk\<close> refuses. No other block changes.
\<close>

theorem smalloc3_best_fit:
  assumes "inv3 s as k" "sz < MMAP_SIZE"
  shows "\<exists>p s' as' k'. smalloc grant mm sz s = Some (p, s') \<and> inv3 s' as' k' \<and> data s' = data s \<and>
    (if sz = 0 then p = NULL \<and> s' = s
     else if \<exists>a \<in> set as. free3 (heap s) a \<and> sz \<le> sz3 (heap s) a
     then \<exists>b \<in> set as. p = b + META \<and> free3 (heap s) b \<and> sz \<le> sz3 (heap s) b \<and>
       (\<forall>a \<in> set as. free3 (heap s) a \<and> sz \<le> sz3 (heap s) a \<longrightarrow> sz3 (heap s) b \<le> sz3 (heap s) a) \<and>
       taken3 (heap s) (heap s') (set as) (set as') sz b
     else if as \<noteq> [] \<and> free3 (heap s) (last as) then grown3 grant sz s as p s' as'
     else appended3 grant sz s as p s' as')"
proof (cases "sz = 0")
  case True
  with assms(1) show ?thesis
    by (intro exI [of _ NULL] exI [of _ s] exI [of _ as] exI [of _ k]) (simp add: smalloc_def)
next
  case False
  obtain c where c: "histo_search s sz (drop (sz div 1024) (free_histogram s)) = Some c"
    "c = NULL \<longrightarrow> (\<forall>a \<in> set as. free3 (heap s) a \<longrightarrow> sz3 (heap s) a < sz)"
    "c \<noteq> NULL \<longrightarrow> c \<in> set as \<and> free3 (heap s) c \<and> sz \<le> sz3 (heap s) c \<and>
      (\<forall>a \<in> set as. free3 (heap s) a \<and> sz \<le> sz3 (heap s) a \<longrightarrow> sz3 (heap s) c \<le> sz3 (heap s) a)"
    using best_fit [OF assms] .
  have limits: "\<not> sz > MAX_SIZE" "\<not> sz \<ge> MMAP_SIZE" using assms(2) by (simp_all add: MMAP_SIZE_def MAX_SIZE_def)
  show ?thesis
  proof (cases "c = NULL")
    case True
    have small: "sz3 (heap s) b < sz" if "b \<in> set as" "free3 (heap s) b" for b using c(2) True that by blast
    then have none: "\<not> (\<exists>a \<in> set as. free3 (heap s) a \<and> sz \<le> sz3 (heap s) a)" by (meson not_le)
    have sm: "smalloc grant mm sz s = sbrk_wrapper grant sz s" using False limits c(1) True by (simp add: smalloc_def)
    have pos: "0 < sz" using False by simp
    show ?thesis
      using sbrk_wrapper_grows [OF assms(1) pos assms(2) small, of grant] sbrk_wrapper_appends [OF assms(1) pos assms(2), of grant]
        False none unfolding sm by (simp only: if_False) (metis (no_types, lifting))
  next
    case cn: False
    then have cc: "c \<in> set as" "free3 (heap s) c" "sz \<le> sz3 (heap s) c"
        "\<forall>a \<in> set as. free3 (heap s) a \<and> sz \<le> sz3 (heap s) a \<longrightarrow> sz3 (heap s) c \<le> sz3 (heap s) a"
      using c(3) by auto
    from use_block [OF assms(1) cc(1-3)] obtain s' as' where s': "smalloc grant mm sz s = Some (c + META, s')"
        "inv3 s' as' k" "data s' = data s" "taken3 (heap s) (heap s') (set as) (set as') sz c"
      using False limits c(1) cn by (auto simp: smalloc_def)
    then show ?thesis using cc False
      by (intro exI [of _ "c + META"] exI [of _ s'] exI [of _ as'] exI [of _ k]) auto
  qed
qed

theorem smalloc3_best_fit_witness:
  "\<exists>s' as' k'. smalloc (\<lambda>_ _. True) None 700 three = Some (1048, s') \<and> inv3 s' as' k' \<and>
     sz3 (heap s') 1000 = 700 \<and> sz3 (heap s') 1748 = 252 \<and> free3 (heap s') 1748"
proof -
  have "(700 :: sz) < MMAP_SIZE" by (simp add: MMAP_SIZE_def)
  from smalloc3_best_fit [OF three_inv this, of "\<lambda>_ _. True" None] obtain p s' as' k' b where
    r: "smalloc (\<lambda>_ _. True) None 700 three = Some (p, s')" "inv3 s' as' k'" "b \<in> set [1000, 2048, 2596]" "p = b + META"
      "free3 (heap three) b" "700 \<le> sz3 (heap three) b" "taken3 (heap three) (heap s') (set [1000, 2048, 2596]) (set as') 700 b"
    using three_view by (auto split: if_splits)
  have "b = 1000" using r(3,5,6) three_view by auto
  then show ?thesis using r(1,2,4,7) three_view by (auto simp: taken3_def META_def Let_def)
qed

theorem sfree3_merges_witness:
  "\<exists>s' as'. sfree 2096 three = Some s' \<and> inv3 s' as' 0 \<and> coalesced (heap s') as' \<and> sz3 (heap s') 1000 = 1896"
proof -
  have "inv3 three ([1000] @ 2048 # [2596]) 0" using three_inv by simp
  moreover have "coalesced (heap three) ([1000] @ 2048 # [2596])" by (simp add: coalesced_def three_view)
  moreover have g: "gain (heap three) (rev [1000]) = 1048" "gain (heap three) [2596] = 348" "eaten (heap three) (rev [1000])"
    by (simp_all add: gain_def eaten_def three_view META_def)
  moreover have "gain (heap three) (rev [1000]) + sz3 (heap three) 2048 + gain (heap three) [2596] < MMAP_SIZE"
    by (simp only: g three_view) (simp add: MMAP_SIZE_def)
  ultimately obtain s' as' c where r: "sfree (2048 + META) three = Some s'" "inv3 s' as' 0" "coalesced (heap s') as'"
      "sz3 (heap s') c = gain (heap three) (rev [1000]) + sz3 (heap three) 2048 + gain (heap three) [2596]" "c = last [1000]"
    using sfree3_merges [of three "[1000]" 2048 "[2596]" 0] three_view(5) by metis
  then show ?thesis by (simp only: g three_view) (auto simp: META_def)
qed

text \<open>
  C24. Third allocator, mapped blocks: a request of 128 KB and more, up to the limit, is mapped; releasing
  the block gives back the state before the request, statistics included.
\<close>

theorem mmap_roundtrip:
  assumes "MMAP_SIZE \<le> sz" "sz \<le> MAX_SIZE" "heap s a = None" "a \<noteq> NULL"
    and "num_of_metadatas s < SIZE_MOD" "mmaped_blocks_num s < SIZE_MOD" "mmaped_bytes_num s < SIZE_MOD"
  shows "\<exists>s'. smalloc grant (Some a) sz s = Some (a + META, s') \<and>
    mmaped_bytes_num s' = sz_add (mmaped_bytes_num s) sz \<and> sfree (a + META) s' = Some s"
proof -
  have sz: "sz < SIZE_MOD" "sz \<noteq> 0" using assms(1,2) by (auto simp: MAX_SIZE_def MMAP_SIZE_def SIZE_MOD_def)
  have inv: "sz_sub (sz_add x y) y = x" if "x < SIZE_MOD" "y < SIZE_MOD" for x y
    using that by (auto simp: sz_sub_def sz_add_def SIZE_MOD_def mod_if split: if_splits)
  have "(heap s)(a := None) = heap s" using assms(3) by (rule fun_upd_idem)
  then show ?thesis
    using sz assms inv [of _ 1] inv [OF assms(7) sz(1)]
    by (simp add: smalloc_def mmap_wrapper_def sfree_def ld_def deallocate_mmap_def META_def SIZE_MOD_def)
qed

theorem mmap_roundtrip_witness:
  "\<exists>s'. smalloc (\<lambda>_ _. True) (Some 8000000) 200000 three = Some (8000048, s') \<and> sfree 8000048 s' = Some three"
proof -
  have "MMAP_SIZE \<le> 200000" "200000 \<le> MAX_SIZE" "heap three 8000000 = None" "(8000000 :: addr) \<noteq> NULL"
    "num_of_metadatas three < SIZE_MOD" "mmaped_blocks_num three < SIZE_MOD" "mmaped_bytes_num three < SIZE_MOD"
    by (simp_all add: MMAP_SIZE_def MAX_SIZE_def three_def init3_def SIZE_MOD_def)
  from mmap_roundtrip [OF this, of "\<lambda>_ _. True"] show ?thesis by (auto simp: META_def)
qed

text \<open>
  C38. Third allocator, a defect of \<open>srealloc\<close>: whenever it grows a block by merging it with both
  neighbours (both free, neither large enough alone, together large enough and below the mapping threshold), it hands out the
  merged block while that is still linked in the histogram. The bins then hold all free blocks and, with them, exactly
  this block, which is in use; also when the rest was split off.
\<close>

theorem srealloc3_stays_binned:
  assumes "inv3 s (xs @ c # b # d # ys) k" "\<not> free3 (heap s) b" "free3 (heap s) c" "free3 (heap s) d"
    and "sz3 (heap s) c + META + sz3 (heap s) b < sz" "sz3 (heap s) b + META + sz3 (heap s) d < sz"
    and "sz \<le> sz3 (heap s) c + META + sz3 (heap s) b + META + sz3 (heap s) d"
    and "sz3 (heap s) c + META + sz3 (heap s) b + META + sz3 (heap s) d < MMAP_SIZE"
  shows "\<exists>s' as'. srealloc grant mm (b + META) sz s = Some (c + META, s') \<and> list_ok s' as' \<and> c \<in> set as' \<and>
    \<not> free3 (heap s') c \<and> in_bins s' (insert c {a \<in> set as'. free3 (heap s') a})"
proof -
  have i: "inv3 s ((xs @ [c]) @ b # d # ys) k" using assms(1) by simp
  have "sz3 (heap s) b < sz" "sz < MMAP_SIZE" using assms(5,7,8) by simp_all
  then have "srealloc grant mm (b + META) sz s = merge_both b c sz s"
    unfolding srealloc_by3 using assms(3-7) by (simp add: srealloc_by_run [OF i])
  with merge_both_binned [OF assms(1-4,8,7)] show ?thesis by simp
qed

theorem srealloc3_stays_binned_witness:
  "\<exists>s' as'. srealloc (\<lambda>_ _. True) None 2096 1800 three = Some (1048, s') \<and> list_ok s' as' \<and> 1000 \<in> set as' \<and>
    \<not> free3 (heap s') 1000 \<and> in_bins s' (insert 1000 {a \<in> set as'. free3 (heap s') a})"
proof -
  have "inv3 three ([] @ 1000 # 2048 # 2596 # []) 0" using three_inv by simp
  from srealloc3_stays_binned [OF this three_view(5,4,6), of 1800 "\<lambda>_ _. True" None] show ?thesis
    unfolding three_view by (simp add: META_def MMAP_SIZE_def)
qed

text \<open>
  Third allocator, a defect of \<open>sfree\<close>: merging two neighbours of 100000 bytes each, both legal, gives a
  block that no bin is for: the code writes past the end of the histogram.
\<close>

theorem sfree3_past_histogram:
  "inv3 large [4096, 104144] 0 \<and> sfree (104144 + META) large = None"
  using large_inv by (simp add: large_def eval3 Let_def)

text \<open>
  Third allocator, a defect of \<open>srealloc\<close>: shrinking a mapped block to a size below the mapping threshold
  splits it as if it were a block of the heap. When 128 KB or more are left over, the code indexes past the
  end of the histogram.
\<close>

theorem srealloc3_splits_mapped:
  assumes "heap s p = Some m" "p \<noteq> NULL" "0 < sz" "sz < MMAP_SIZE" "sz + META + MMAP_SIZE \<le> b_size m" "b_size m < SIZE_MOD"
  shows "srealloc grant mm (p + META) sz s = None"
proof -
  let ?r = "b_size m - sz - META"
  have r: "sz_sub (b_size m) sz = b_size m - sz" "sz_sub (b_size m - sz) META = ?r"
    using assms(5,6) by (simp_all add: sz_sub_exact)
  have "128 + META \<le> b_size m - sz" "sz \<le> b_size m" "\<not> ?r div 1024 < BINS"
    using assms(5) by (simp_all add: META_def MMAP_SIZE_def BINS_def)
  moreover have "add_node_histo q (s\<lparr>heap := h, num_of_metadatas := n\<rparr>) = None"
    if "h q = Some x" "b_size x = ?r" for q h n x
    using that \<open>\<not> ?r div 1024 < BINS\<close> by (simp add: add_node_histo_def ld_def bin_def Let_def)
  ultimately show ?thesis
    using assms r by (simp add: srealloc_def split_block_def place_metadata_def ld_def MAX_SIZE_def MMAP_SIZE_def Let_def META_def)
qed

theorem srealloc3_splits_mapped_witness:
  "srealloc (\<lambda>_ _. True) None 8000048 1000
     (three\<lparr>heap := (heap three)(8000000 \<mapsto> blank\<lparr>b_size := 200000\<rparr>)\<rparr>) = None"
proof -
  let ?s = "three\<lparr>heap := (heap three)(8000000 \<mapsto> blank\<lparr>b_size := 200000\<rparr>)\<rparr>"
  have "heap ?s 8000000 = Some (blank\<lparr>b_size := 200000\<rparr>)" "(8000000 :: addr) \<noteq> NULL" "(0 :: sz) < 1000" "(1000 :: sz) < MMAP_SIZE"
    "1000 + META + MMAP_SIZE \<le> b_size (blank\<lparr>b_size := 200000\<rparr>)" "b_size (blank\<lparr>b_size := 200000\<rparr>) < SIZE_MOD"
    by (simp_all add: MMAP_SIZE_def META_def SIZE_MOD_def)
  from srealloc3_splits_mapped [OF this, of "\<lambda>_ _. True" None] show ?thesis by (simp add: META_def)
qed

text \<open>
  C3. Third allocator, refinement: seen by a client the heap is a collection of disjoint blocks of bytes, and any
  sequence of requests below the mapping threshold behaves like allocations there. All requests are answered;
  the blocks that were in use keep their place and bytes; the pointers that are not \<open>NULL\<close> are new, different from each other,
  and lead to blocks of at least the requested size.
\<close>

theorem smalloc3_refines:
  assumes "heap3 s h" "list_all (\<lambda>n. n < MMAP_SIZE) ns"
  shows "\<exists>ps s' h'. allocs (smalloc grant mm) ns s = Some (ps, s') \<and> heap3 s' h' \<and> h \<subseteq>\<^sub>m h' \<and>
    distinct (filter (\<lambda>p. p \<noteq> NULL) ps) \<and> dom h' = dom h \<union> (set ps - {NULL}) \<and> dom h \<inter> set ps = {} \<and>
    list_all2 (\<lambda>n p. p = NULL \<or> (\<exists>v. h' p = Some v \<and> n \<le> length v)) ns ps"
  using assms by (rule m3.allocs_ok)

theorem smalloc3_refines_witness:
  "\<exists>h ps s' h'. heap3 three h \<and> allocs (smalloc (\<lambda>_ _. True) None) [10, 20, 30] three = Some (ps, s') \<and> heap3 s' h' \<and> h \<subseteq>\<^sub>m h'"
proof -
  note h = heap3I [OF three_inv]
  have "list_all (\<lambda>n. n < MMAP_SIZE) [10, 20, 30 :: sz]" by (simp add: MMAP_SIZE_def)
  from smalloc3_refines [OF h this, of "\<lambda>_ _. True" None] obtain ps s' h' where
    "allocs (smalloc (\<lambda>_ _. True) None) [10, 20, 30] three = Some (ps, s')" "heap3 s' h'"
    "contents META (sz3 (heap three)) (data three) (used (heap three) (set [1000, 2048, 2596])) \<subseteq>\<^sub>m h'" by auto
  with h show ?thesis by (intro exI conjI)
qed

end
