(* ===== verification/Malloc_3_Debug.thy ===== *)
theory Malloc_3_Debug
  imports Malloc_3_Contract C_Strings
begin

text \<open>
  The functions of \<open>malloc_3.cpp\<close> that show its lists: \<open>print_all_list\<close>, \<open>print_histogram\<close> and \<open>found_93\<close>. What is
  printed is a list of lines; how the stream writes a pointer is the argument \<open>sp\<close>.
\<close>

subsection \<open>Definitions\<close>

definition block_line :: "(addr \<Rightarrow> string) \<Rightarrow> nat \<Rightarrow> addr \<Rightarrow> meta3 \<Rightarrow> string" where
  "block_line sp count p m =
     ''['' @ show_int (int count) @ '']'' @ '' address: '' @ sp (p + META) @ '' size: '' @ show_lu (int (b_size m)) @
     '' is_free: '' @ show_flag (b_free m) @ '' prev: '' @ sp (list_prev m) @ '' next: '' @ sp (list_next m)"

partial_function (option) print_all_from :: "(addr \<Rightarrow> string) \<Rightarrow> alloc3 \<Rightarrow> nat \<Rightarrow> addr \<Rightarrow> string list option" where
  "print_all_from sp s count populate =
     (if populate = NULL then Some []
      else do {
        m \<leftarrow> ld populate s;
        rest \<leftarrow> print_all_from sp s (Suc count) (list_next m);
        Some (block_line sp (Suc count) populate m # rest) })"

declare print_all_from.simps [code]

definition print_all_list :: "(addr \<Rightarrow> string) \<Rightarrow> alloc3 \<Rightarrow> string list option" where
  "print_all_list sp s =
     do {
       out \<leftarrow> print_all_from sp s 0 (all_list_head s);
       Some (''printing all_list:'' # (if all_list_head s = NULL then [''list is empty!''] else []) @ out) }"

partial_function (option) found_from :: "alloc3 \<Rightarrow> addr \<Rightarrow> bool option" where
  "found_from s populate =
     (if populate = NULL then Some False
      else do { m \<leftarrow> ld populate s; if b_size m = 93 then Some True else found_from s (histo_next m) })"

declare found_from.simps [code]

fun found_bins :: "alloc3 \<Rightarrow> addr list \<Rightarrow> bool option" where
  "found_bins s [] = Some False"
| "found_bins s (p # ps) = do { b \<leftarrow> found_from s p; if b then Some True else found_bins s ps }"

definition found_93 :: "alloc3 \<Rightarrow> bool option" where
  "found_93 s = found_bins s (free_histogram s)"

definition bin_line :: "nat \<Rightarrow> meta3 \<Rightarrow> string" where
  "bin_line i m = ''i='' @ show_int (int i) @ '' size: '' @ show_lu (int (b_size m)) @ '' is_free: '' @ show_flag (b_free m)"

partial_function (option) print_bin :: "alloc3 \<Rightarrow> nat \<Rightarrow> addr \<Rightarrow> string list option" where
  "print_bin s i populate =
     (if populate = NULL then Some []
      else do {
        m \<leftarrow> ld populate s;
        rest \<leftarrow> print_bin s i (histo_next m);
        Some (bin_line i m # rest) })"

declare print_bin.simps [code]

fun print_bins :: "alloc3 \<Rightarrow> nat \<Rightarrow> addr list \<Rightarrow> string list option" where
  "print_bins s i [] = Some []"
| "print_bins s i (p # ps) = do { out \<leftarrow> print_bin s i p; rest \<leftarrow> print_bins s (Suc i) ps; Some (out @ rest) }"

definition print_histogram :: "alloc3 \<Rightarrow> string list option" where
  "print_histogram s = do { out \<leftarrow> print_bins s 0 (free_histogram s); Some (''printing histogram:'' # out) }"

subsection \<open>Walks\<close>

lemma print_all_from_ok:
  assumes "dll (ln (heap s)) (lp (heap s)) a as NULL" "set as \<subseteq> dom (heap s)" "NULL \<notin> dom (heap s)"
  shows "print_all_from sp s n (hd (as @ [NULL])) =
    Some (map (\<lambda>(i, b). block_line sp (Suc i) b (the (heap s b))) (enumerate n as))"
  using assms(1,2)
proof (induction as arbitrary: a n)
  case Nil
  then show ?case by (subst print_all_from.simps) simp
next
  case (Cons b as)
  have b: "b \<in> dom (heap s)" "b \<noteq> NULL" using Cons.prems(2) assms(3) by auto
  moreover have "ln (heap s) b = hd (as @ [NULL])" using Cons.prems(1) by simp
  ultimately show ?case using Cons.IH [of b "Suc n"] Cons.prems by (subst print_all_from.simps) (simp add: ld_eq)
qed

text \<open>A chain of bins, followed from its first block.\<close>

lemma bin_walk:
  assumes "dll (hn (heap s)) (hp (heap s)) a as NULL" "set as \<subseteq> dom (heap s)" "NULL \<notin> dom (heap s)"
  shows "found_from s (hd (as @ [NULL])) = Some (\<exists>b \<in> set as. sz3 (heap s) b = 93)"
    "print_bin s i (hd (as @ [NULL])) = Some (map (\<lambda>b. bin_line i (the (heap s b))) as)"
  using assms(1,2)
proof (induction as arbitrary: a)
  case Nil
  {
    case 1
    then show ?case by (subst found_from.simps) simp
  next
    case 2
    then show ?case by (subst print_bin.simps) simp
  }
next
  case (Cons b as)
  {
    case 1
    then have b: "b \<in> dom (heap s)" "b \<noteq> NULL" "hn (heap s) b = hd (as @ [NULL])" using assms(3) by auto
    then show ?case using Cons.IH(1) [of b] 1 by (subst found_from.simps) (auto simp: ld_eq)
  next
    case 2
    then have b: "b \<in> dom (heap s)" "b \<noteq> NULL" "hn (heap s) b = hd (as @ [NULL])" using assms(3) by auto
    then show ?case using Cons.IH(2) [of b] 2 by (subst print_bin.simps) (auto simp: ld_eq)
  }
qed

text \<open>All bins, from a given one on.\<close>

lemma found_bins_ok:
  assumes "\<And>i. i \<in> set is \<Longrightarrow> dll (hn (heap s)) (hp (heap s)) NULL (H i) NULL \<and> set (H i) \<subseteq> dom (heap s)" "NULL \<notin> dom (heap s)"
  shows "found_bins s (map (\<lambda>i. hd (H i @ [NULL])) is) = Some (\<exists>i \<in> set is. \<exists>b \<in> set (H i). sz3 (heap s) b = 93)"
  using assms(1)
proof (induction "is")
  case (Cons i "is")
  have "found_from s (hd (H i @ [NULL])) = Some (\<exists>b \<in> set (H i). sz3 (heap s) b = 93)"
    using bin_walk(1) [OF _ _ assms(2)] Cons.prems [of i] by (meson list.set_intros(1))
  then show ?case using Cons by auto
qed simp

lemma print_bins_ok:
  assumes "\<And>i. i \<in> {k ..< n} \<Longrightarrow> dll (hn (heap s)) (hp (heap s)) NULL (H i) NULL \<and> set (H i) \<subseteq> dom (heap s)" "NULL \<notin> dom (heap s)"
  shows "print_bins s k (map (\<lambda>i. hd (H i @ [NULL])) [k ..< n]) =
    Some (concat (map (\<lambda>i. map (\<lambda>b. bin_line i (the (heap s b))) (H i)) [k ..< n]))"
  using assms(1)
proof (induction "n - k" arbitrary: k)
  case (Suc m)
  have "print_bin s k (hd (H k @ [NULL])) = Some (map (\<lambda>b. bin_line k (the (heap s b))) (H k))"
    by (rule bin_walk(2) [where a = NULL, OF _ _ assms(2)]) (use Suc.prems [of k] Suc.hyps(2) in auto)
  moreover have "[k ..< n] = k # [Suc k ..< n]" using Suc.hyps(2) by (simp add: upt_conv_Cons)
  ultimately show ?case using Suc.hyps(1) [of "Suc k"] Suc.hyps(2) Suc.prems by simp
qed simp

lemma histogram_bins:
  assumes "histo_ok s H"
  shows "free_histogram s = map (\<lambda>i. hd (H i @ [NULL])) [0 ..< BINS]"
    "found_93 s = Some (\<exists>b \<in> set (concat (map H [0 ..< BINS])). sz3 (heap s) b = 93)"
    "print_histogram s = Some (''printing histogram:'' #
       concat (map (\<lambda>i. map (\<lambda>b. bin_line i (the (heap s b))) (H i)) [0 ..< BINS]))"
proof -
  note h = histo_okD [OF assms]
  show e: "free_histogram s = map (\<lambda>i. hd (H i @ [NULL])) [0 ..< BINS]"
    using assms h(4) by (intro nth_equalityI) (simp_all add: histo_ok_def)
  have w: "NULL \<notin> dom (heap s)" using assms by (simp add: histo_ok_def)
  show "found_93 s = Some (\<exists>b \<in> set (concat (map H [0 ..< BINS])). sz3 (heap s) b = 93)"
    unfolding found_93_def e using found_bins_ok [of "[0 ..< BINS]" s H] h(3,6) w by auto
  show "print_histogram s = Some (''printing histogram:'' #
      concat (map (\<lambda>i. map (\<lambda>b. bin_line i (the (heap s b))) (H i)) [0 ..< BINS]))"
    unfolding print_histogram_def e using print_bins_ok [of 0 BINS s H] h(3,6) w by auto
qed

text \<open>Bins that hold the sizes of their kilobyte, each in order, hold all sizes in order.\<close>

lemma sorted_bins:
  assumes "\<And>i. i \<in> set is \<Longrightarrow> sorted (map f (H i)) \<and> (\<forall>b \<in> set (H i). f b div 1024 = i)" "sorted_wrt (<) is"
  shows "sorted (map (f :: 'a \<Rightarrow> nat) (concat (map H is)))"
  using assms
proof (induction "is")
  case (Cons i "is")
  have "f a \<le> f b" if "a \<in> set (H i)" "j \<in> set is" "b \<in> set (H j)" for a b j
  proof -
    have "f a div 1024 < f b div 1024" using Cons.prems(1) [of i] Cons.prems(1) [of j] Cons.prems(2) that by auto
    then show ?thesis by (meson div_le_mono leD linorder_le_cases)
  qed
  then show ?case using Cons by (auto simp: sorted_append)
qed simp

lemma binned_concat:
  assumes "histo_ok s H" "binned (heap s) F H"
  shows "set (concat (map H [0 ..< BINS])) = F" "distinct (concat (map H [0 ..< BINS]))"
    "sorted (map (sz3 (heap s)) (concat (map H [0 ..< BINS])))"
proof -
  show "set (concat (map H [0 ..< BINS])) = F" using assms(2) by (auto simp: binned_def)
  show "sorted (map (sz3 (heap s)) (concat (map H [0 ..< BINS])))"
    using assms(2) by (intro sorted_bins) (auto simp: binned_def)
  have "distinct (concat (map H is))" if "set is \<subseteq> {..< BINS}" "distinct is" for "is"
    using that histo_okD(5,7) [OF assms(1)] by (induction "is") auto
  then show "distinct (concat (map H [0 ..< BINS]))" by (simp add: subset_eq)
qed

lemma bin_lines:
  assumes "histo_ok s H" "binned (heap s) F H" "F \<subseteq> {b. free3 (heap s) b}"
  shows "concat (map (\<lambda>i. map (\<lambda>b. bin_line i (the (heap s b))) (H i)) [0 ..< BINS]) =
    map (\<lambda>b. ''i='' @ show_int (int (sz3 (heap s) b div 1024)) @ '' size: '' @ show_lu (int (sz3 (heap s) b)) @ '' is_free: 1'')
      (concat (map H [0 ..< BINS]))"
proof -
  have "bin_line i (the (heap s b)) =
      ''i='' @ show_int (int (sz3 (heap s) b div 1024)) @ '' size: '' @ show_lu (int (sz3 (heap s) b)) @ '' is_free: 1''"
    if "i < BINS" "b \<in> set (H i)" for i b
  proof -
    have b: "b \<in> F" "sz3 (heap s) b div 1024 = i" using assms(2) that by (auto simp: binned_def)
    moreover have "b \<in> dom (heap s)" using histo_okD(6) [OF assms(1) that(1)] that(2) by blast
    ultimately show ?thesis using the_view3(5,6) [of b "heap s"] subsetD [OF assms(3), of b]
      by (simp add: bin_line_def show_flag_def)
  qed
  then show ?thesis unfolding map_concat map_map comp_def by (intro arg_cong [of _ _ concat] map_cong) auto
qed

subsection \<open>Properties\<close>

text \<open>
  C37. Third allocator, the histogram as printed: in every state of the invariant \<open>print_histogram\<close> ends and prints one line
  for every free block and for no other block, each once, in ascending order of size, with the bin of its size;
  \<open>found_93\<close> tells whether a free block has 93 bytes.
\<close>

theorem histogram_printed:
  assumes "inv3 s as k"
  shows "found_93 s = Some (\<exists>b \<in> set as. free3 (heap s) b \<and> sz3 (heap s) b = 93)
    \<and> (\<exists>bs. distinct bs \<and> set bs = {b \<in> set as. free3 (heap s) b} \<and> sorted (map (sz3 (heap s)) bs) \<and>
         print_histogram s = Some (''printing histogram:'' # map (\<lambda>b. ''i='' @ show_int (int (sz3 (heap s) b div 1024)) @
           '' size: '' @ show_lu (int (sz3 (heap s) b)) @ '' is_free: 1'') bs))"
proof -
  obtain H where H: "histo_ok s H" "binned (heap s) {b \<in> set as. free3 (heap s) b} H"
    using inv3D(4) [OF assms] unfolding hist_def by blast
  note c = binned_concat [OF H]
  have "found_93 s = Some (\<exists>b \<in> set as. free3 (heap s) b \<and> sz3 (heap s) b = 93)"
    unfolding histogram_bins(2) [OF H(1)] c(1) by auto
  moreover have "print_histogram s = Some (''printing histogram:'' # map (\<lambda>b. ''i='' @ show_int (int (sz3 (heap s) b div 1024)) @
      '' size: '' @ show_lu (int (sz3 (heap s) b)) @ '' is_free: 1'') (concat (map H [0 ..< BINS])))"
    unfolding histogram_bins(3) [OF H(1)] bin_lines [OF H Collect_mono, simplified] by simp
  ultimately show ?thesis using c by blast
qed

theorem histogram_printed_witness:
  "found_93 three = Some False \<and> (\<exists>ls. length ls = 2 \<and> print_histogram three = Some (''printing histogram:'' # ls))"
proof -
  have f: "{b \<in> set [1000, 2048, 2596]. free3 (heap three) b} = {1000, 2596}" using three_view by auto
  note p = histogram_printed [OF three_inv, unfolded f]
  obtain bs ls where b: "distinct bs" "set bs = {1000, 2596 :: addr}" "length ls = length bs"
      "print_histogram three = Some (''printing histogram:'' # ls)"
    using conjunct2 [OF p] length_map by blast
  have "length bs = 2" using distinct_card [OF b(1)] b(2) by simp
  moreover have "found_93 three = Some False" using conjunct1 [OF p] three_view by simp
  ultimately show ?thesis using b(3,4) by simp
qed

text \<open>
  The list of all blocks as printed: one line for every block, numbered from 1, in the order of their addresses, and
  a line that says so when there is none.
\<close>

lemma all_list_printed:
  assumes "inv3 s as k"
  shows "sorted_wrt (<) as \<and> print_all_list sp s = Some (''printing all_list:'' # (if as = [] then [''list is empty!''] else
    map (\<lambda>(i, b). block_line sp (Suc i) b (the (heap s b))) (enumerate 0 as)))"
proof -
  have l: "dll (ln (heap s)) (lp (heap s)) NULL as NULL" "all_list_head s = hd (as @ [NULL])"
    using inv3D(1) [OF assms] by (auto simp: list_ok_def)
  have "all_list_head s = NULL \<longleftrightarrow> as = []" using l(2) inv3_block(1) [OF assms, of "hd as"] by (cases as) auto
  then show ?thesis
    using print_all_from_ok [OF l(1) inv3D(7,8) [OF assms], of sp 0] inv3D(2) [OF assms] l(2)
    by (auto simp: print_all_list_def)
qed

end
