(* ===== verification/Malloc_4.thy ===== *)
theory Malloc_4
  imports Malloc_3_Contract
begin

text \<open>
  The fourth allocator (\<open>HW4Wet/malloc_4.cpp\<close>): the third one with sizes rounded up to a multiple of 8 on
  entry, and with the block taken out of the histogram when \<open>srealloc\<close> merges three blocks. The
  header, the globals and the loops are those of the third allocator (\<open>meta3\<close>, \<open>alloc3\<close>, \<open>histo_place\<close>,
  \<open>bin_search\<close>, \<open>histo_search\<close>, and the walks of the statistics); the functions are translated again, from
  their own file, and compared with those of the third allocator.
\<close>

text \<open>\<open>size += 8 - size % 8\<close> wraps at \<open>2^64\<close>.\<close>

definition round_up :: "sz \<Rightarrow> sz" where
  "round_up sz = (if sz = 0 then 0 else if sz mod 8 \<noteq> 0 then sz_add sz (8 - sz mod 8) else sz)"

subsection \<open>Headers and lists\<close>

definition smalloc_naive :: "grant \<Rightarrow> sz \<Rightarrow> alloc3 \<Rightarrow> addr \<times> alloc3" where
  "smalloc_naive grant sz s =
     (if sz = 0 \<or> sz > MAX_SIZE then (NULL, s)
      else case sbrk grant (to_intptr sz) (brk s) of
        (None, _) \<Rightarrow> (NULL, s)
      | (Some old_prog_brk, b) \<Rightarrow> (old_prog_brk, s\<lparr>brk := b\<rparr>))"

definition create_metadata_sbrk :: "grant \<Rightarrow> sz \<Rightarrow> bool \<Rightarrow> alloc3 \<Rightarrow> addr \<times> alloc3" where
  "create_metadata_sbrk grant size_in free s =
     (let (p, s) = smalloc_naive grant META s in
      if p = NULL then (NULL, s)
      else (p, s\<lparr>heap := (heap s)(p \<mapsto> blank\<lparr>b_size := size_in, b_free := free\<rparr>),
                 num_of_metadatas := sz_add (num_of_metadatas s) 1\<rparr>))"

definition remove_node_histo :: "addr \<Rightarrow> alloc3 \<Rightarrow> alloc3 option" where
  "remove_node_histo ptr s =
     (if ptr = NULL then Some s
      else do {
        m \<leftarrow> ld ptr s;
        if \<not> b_free m then Some s
        else do {
          let i = b_size m div 1024;
          first \<leftarrow> bin i s;
          if first = NULL then Some s
          else do {
            let prev_ptr = histo_prev m;
            let next_ptr = histo_next m;
            s \<leftarrow> (if prev_ptr = NULL then do {
                   s \<leftarrow> set_bin i next_ptr s;
                   if next_ptr \<noteq> NULL then upd next_ptr (histo_prev_update (\<lambda>_. NULL)) s else Some s }
                 else do {
                   s \<leftarrow> upd prev_ptr (histo_next_update (\<lambda>_. next_ptr)) s;
                   if next_ptr \<noteq> NULL then upd next_ptr (histo_prev_update (\<lambda>_. prev_ptr)) s else Some s });
            upd ptr (\<lambda>m. m\<lparr>histo_prev := NULL, histo_next := NULL\<rparr>) s } } })"

definition add_node_list :: "addr \<Rightarrow> addr \<Rightarrow> alloc3 \<Rightarrow> alloc3 option" where
  "add_node_list node_to_add ptr_prev s =
     (if ptr_prev = NULL then do {
        s \<leftarrow> upd node_to_add (\<lambda>m. m\<lparr>list_next := all_list_head s, list_prev := NULL\<rparr>) s;
        let s = s\<lparr>all_list_head := node_to_add\<rparr>;
        s \<leftarrow> upd (all_list_head s) (list_prev_update (\<lambda>_. NULL)) s;
        m \<leftarrow> ld node_to_add s;
        Some (if list_next m = NULL then s\<lparr>all_list_end := node_to_add\<rparr> else s) }
      else do {
        m \<leftarrow> ld ptr_prev s;
        let ptr_next = list_next m;
        s \<leftarrow> upd node_to_add (list_prev_update (\<lambda>_. ptr_prev)) s;
        s \<leftarrow> upd ptr_prev (list_next_update (\<lambda>_. node_to_add)) s;
        s \<leftarrow> upd node_to_add (list_next_update (\<lambda>_. ptr_next)) s;
        s \<leftarrow> (if ptr_next \<noteq> NULL then upd ptr_next (list_prev_update (\<lambda>_. node_to_add)) s else Some s);
        m \<leftarrow> ld node_to_add s;
        Some (if list_next m = NULL then s\<lparr>all_list_end := node_to_add\<rparr> else s) })"

definition add_node_histo :: "addr \<Rightarrow> alloc3 \<Rightarrow> alloc3 option" where
  "add_node_histo node_to_add s =
     (if node_to_add = NULL then Some s else do {
       m \<leftarrow> ld node_to_add s;
       let i = b_size m div 1024;
       ptr \<leftarrow> bin i s;
       ptr_prev \<leftarrow> histo_place s (b_size m) ptr NULL;
       if ptr_prev = NULL then do {
         s \<leftarrow> upd node_to_add (\<lambda>m. m\<lparr>histo_next := ptr, histo_prev := NULL\<rparr>) s;
         s \<leftarrow> (if ptr \<noteq> NULL then upd ptr (histo_prev_update (\<lambda>_. node_to_add)) s else Some s);
         set_bin i node_to_add s }
       else do {
         q \<leftarrow> ld ptr_prev s;
         let ptr_next = histo_next q;
         s \<leftarrow> upd node_to_add (histo_prev_update (\<lambda>_. ptr_prev)) s;
         s \<leftarrow> upd ptr_prev (histo_next_update (\<lambda>_. node_to_add)) s;
         s \<leftarrow> upd node_to_add (histo_next_update (\<lambda>_. ptr_next)) s;
         if ptr_next \<noteq> NULL then upd ptr_next (histo_prev_update (\<lambda>_. node_to_add)) s else Some s } })"

definition place_metadata :: "addr \<Rightarrow> bool \<Rightarrow> sz \<Rightarrow> alloc3 \<Rightarrow> alloc3" where
  "place_metadata ptr free sz s =
     s\<lparr>heap := (heap s)(ptr \<mapsto> (case heap s ptr of None \<Rightarrow> blank | Some m \<Rightarrow> m)\<lparr>b_free := free, b_size := sz\<rparr>)\<rparr>"

definition split_block :: "addr \<Rightarrow> sz \<Rightarrow> alloc3 \<Rightarrow> (addr \<times> alloc3) option" where
  "split_block current sz s =
     do {
       m \<leftarrow> ld current s;
       let remaining_size = sz_sub (sz_sub (b_size m) sz) META;
       let new_meta_free = current + META + sz;
       let s = place_metadata new_meta_free True remaining_size s;
       let s = s\<lparr>num_of_metadatas := sz_add (num_of_metadatas s) 1\<rparr>;
       s \<leftarrow> add_node_histo new_meta_free s;
       s \<leftarrow> remove_node_histo current s;
       let s = place_metadata current False sz s;
       s \<leftarrow> add_node_list new_meta_free current s;
       Some (current, s) }"

subsection \<open>Allocation\<close>

definition sbrk_wrapper :: "grant \<Rightarrow> sz \<Rightarrow> alloc3 \<Rightarrow> (addr \<times> alloc3) option" where
  "sbrk_wrapper grant sz s =
     do {
       wilderness \<leftarrow> (if all_list_end s = NULL then Some None
                      else do { m \<leftarrow> ld (all_list_end s) s; Some (if b_free m then Some (b_size m) else None) });
       case wilderness of
         Some wilderness_size \<Rightarrow>
           (case sbrk grant (to_intptr (sz_sub sz wilderness_size)) (brk s) of
              (None, _) \<Rightarrow> Some (NULL, s)
            | (Some _, b) \<Rightarrow> do {
                s \<leftarrow> remove_node_histo (all_list_end s) (s\<lparr>brk := b\<rparr>);
                s \<leftarrow> upd (all_list_end s) (\<lambda>m. m\<lparr>b_size := sz, b_free := False\<rparr>) s;
                Some (all_list_end s + META, s) })
       | None \<Rightarrow>
           (let (new_metadata, s) = create_metadata_sbrk grant sz False s in
            if new_metadata = NULL then Some (NULL, s)
            else case sbrk grant (to_intptr sz) (brk s) of
              (None, _) \<Rightarrow> Some (NULL, s)
            | (Some newptr, b) \<Rightarrow> do {
                s \<leftarrow> add_node_list new_metadata (all_list_end s) (s\<lparr>brk := b\<rparr>);
                Some (newptr, s) }) }"

text \<open>\<open>mm\<close> is the answer of \<open>mmap\<close>: the address of the new mapping, or \<open>None\<close> for a failure.\<close>

definition mmap_wrapper :: "addr option \<Rightarrow> sz \<Rightarrow> alloc3 \<Rightarrow> addr \<times> alloc3" where
  "mmap_wrapper mm sz s =
     (case mm of
        None \<Rightarrow> (NULL, s)
      | Some ptr \<Rightarrow>
          (ptr + META, s\<lparr>heap := (heap s)(ptr \<mapsto> blank\<lparr>b_free := False, b_size := sz\<rparr>),
             num_of_metadatas := sz_add (num_of_metadatas s) 1,
             mmaped_blocks_num := sz_add (mmaped_blocks_num s) 1,
             mmaped_bytes_num := sz_add (mmaped_bytes_num s) sz\<rparr>))"

definition deallocate_mmap :: "addr \<Rightarrow> alloc3 \<Rightarrow> alloc3 option" where
  "deallocate_mmap ptr s =
     do {
       m \<leftarrow> ld ptr s;
       Some (s\<lparr>heap := (heap s)(ptr := None),
               mmaped_blocks_num := sz_sub (mmaped_blocks_num s) 1,
               mmaped_bytes_num := sz_sub (mmaped_bytes_num s) (b_size m),
               num_of_metadatas := sz_sub (num_of_metadatas s) 1\<rparr>) }"

definition smalloc :: "grant \<Rightarrow> addr option \<Rightarrow> sz \<Rightarrow> alloc3 \<Rightarrow> (addr \<times> alloc3) option" where
  "smalloc grant mm sz0 s =
     (let sz = round_up sz0 in
      if sz = 0 \<or> sz > MAX_SIZE then Some (NULL, s)
      else if sz \<ge> MMAP_SIZE then Some (mmap_wrapper mm sz s)
      else do {
        current \<leftarrow> histo_search s sz (drop (sz div 1024) (free_histogram s));
        if current = NULL then sbrk_wrapper grant sz s
        else do {
          m \<leftarrow> ld current s;
          if sz_sub (b_size m) sz < 128 + META then do {
            s \<leftarrow> remove_node_histo current s;
            s \<leftarrow> upd current (b_free_update (\<lambda>_. False)) s;
            Some (current + META, s) }
          else do {
            (p, s) \<leftarrow> split_block current sz s;
            Some (p + META, s) } } })"

subsection \<open>Release\<close>

definition unite_right :: "addr \<Rightarrow> alloc3 \<Rightarrow> alloc3 option" where
  "unite_right p_metadata s =
     (if p_metadata = NULL then Some s
      else do {
        m \<leftarrow> ld p_metadata s;
        if \<not> b_free m then Some s
        else do {
          let node_to_remove = list_next m;
          if node_to_remove = NULL then Some s
          else do {
            n \<leftarrow> ld node_to_remove s;
            if \<not> b_free n then Some s
            else do {
              s \<leftarrow> remove_node_histo node_to_remove s;
              s \<leftarrow> remove_node_histo p_metadata s;
              n \<leftarrow> ld node_to_remove s;
              let prev_ptr = list_prev n;
              let next_ptr = list_next n;
              s \<leftarrow> upd prev_ptr (list_next_update (\<lambda>_. next_ptr)) s;
              s \<leftarrow> (if next_ptr \<noteq> NULL then upd next_ptr (list_prev_update (\<lambda>_. prev_ptr)) s
                    else Some (s\<lparr>all_list_end := prev_ptr\<rparr>));
              s \<leftarrow> upd node_to_remove (\<lambda>n. n\<lparr>list_prev := NULL, list_next := NULL\<rparr>) s;
              n \<leftarrow> ld node_to_remove s;
              s \<leftarrow> upd p_metadata (\<lambda>m. m\<lparr>b_size := sz_add (b_size m) (sz_add (b_size n) META), b_free := True\<rparr>) s;
              s \<leftarrow> add_node_histo p_metadata s;
              Some (s\<lparr>num_of_metadatas := sz_sub (num_of_metadatas s) 1\<rparr>) } } } })"

definition sfree :: "addr \<Rightarrow> alloc3 \<Rightarrow> alloc3 option" where
  "sfree p s =
     (if p = NULL then Some s
      else do {
        let p_metadata = p - META;
        m \<leftarrow> ld p_metadata s;
        if b_free m then Some s
        else if b_size m \<ge> MMAP_SIZE then deallocate_mmap p_metadata s
        else do {
          s \<leftarrow> upd p_metadata (b_free_update (\<lambda>_. True)) s;
          s \<leftarrow> add_node_histo p_metadata s;
          s \<leftarrow> unite_right p_metadata s;
          m \<leftarrow> ld p_metadata s;
          unite_right (list_prev m) s } })"

subsection \<open>Reallocation\<close>

definition unite_srealloc :: "addr \<Rightarrow> addr \<Rightarrow> bool \<Rightarrow> alloc3 \<Rightarrow> alloc3 option" where
  "unite_srealloc oldp_metadata unite_with second_time s =
     do {
       s \<leftarrow> upd oldp_metadata (b_free_update (\<lambda>_. True)) s;
       s \<leftarrow> (if \<not> second_time then add_node_histo oldp_metadata s else Some s);
       unite_right unite_with s }"

text \<open>The end of the cases that merge: split off what is left if it is large enough.\<close>

definition split_rest :: "addr \<Rightarrow> sz \<Rightarrow> alloc3 \<Rightarrow> (addr \<times> alloc3) option" where
  "split_rest p sz s =
     do {
       m \<leftarrow> ld p s;
       if sz_sub (b_size m) sz \<ge> 128 + META then do {
         (p, s) \<leftarrow> split_block p sz s;
         Some (p + META, s) }
       else Some (p + META, s) }"

text \<open>Copying to a block from \<open>smalloc\<close>, in the case for large sizes and in the last case.\<close>

definition move_to_new :: "grant \<Rightarrow> addr option \<Rightarrow> addr \<Rightarrow> sz \<Rightarrow> alloc3 \<Rightarrow> (addr \<times> alloc3) option" where
  "move_to_new grant mm oldp sz s =
     do {
       (newp, s) \<leftarrow> smalloc grant mm sz s;
       if newp = NULL then Some (NULL, s)
       else do {
         m \<leftarrow> ld (oldp - META) s;
         let s = s\<lparr>data := memmove newp oldp (min (b_size m) sz) (data s)\<rparr>;
         s \<leftarrow> sfree oldp s;
         Some (newp, s) } }"

definition merge_prev :: "addr \<Rightarrow> addr \<Rightarrow> sz \<Rightarrow> alloc3 \<Rightarrow> (addr \<times> alloc3) option" where
  "merge_prev oldp_metadata oldp_prev sz s =
     do {
       s \<leftarrow> unite_srealloc oldp_metadata oldp_prev False s;
       m \<leftarrow> ld oldp_metadata s;
       p \<leftarrow> ld oldp_prev s;
       let s = s\<lparr>data := memmove (oldp_prev + META) (oldp_metadata + META) (min (b_size m) (b_size p)) (data s)\<rparr>;
       s \<leftarrow> remove_node_histo oldp_prev s;
       s \<leftarrow> upd oldp_prev (b_free_update (\<lambda>_. False)) s;
       split_rest oldp_prev sz s }"

definition merge_next :: "addr \<Rightarrow> sz \<Rightarrow> alloc3 \<Rightarrow> (addr \<times> alloc3) option" where
  "merge_next oldp_metadata sz s =
     do {
       s \<leftarrow> unite_srealloc oldp_metadata oldp_metadata False s;
       s \<leftarrow> remove_node_histo oldp_metadata s;
       s \<leftarrow> upd oldp_metadata (b_free_update (\<lambda>_. False)) s;
       split_rest oldp_metadata sz s }"

definition merge_both :: "addr \<Rightarrow> addr \<Rightarrow> sz \<Rightarrow> alloc3 \<Rightarrow> (addr \<times> alloc3) option" where
  "merge_both oldp_metadata oldp_prev sz s =
     do {
       s \<leftarrow> unite_srealloc oldp_metadata oldp_metadata False s;
       s \<leftarrow> unite_srealloc oldp_metadata oldp_prev True s;
       s \<leftarrow> remove_node_histo oldp_prev s;
       s \<leftarrow> upd oldp_prev (b_free_update (\<lambda>_. False)) s;
       m \<leftarrow> ld oldp_metadata s;
       p \<leftarrow> ld oldp_prev s;
       let s = s\<lparr>data := memmove (oldp_prev + META) (oldp_metadata + META) (min (b_size m) (b_size p)) (data s)\<rparr>;
       split_rest oldp_prev sz s }"

text \<open>The neighbour at \<open>p\<close>, if there is one: its size and whether it is free.\<close>

definition neighbour :: "addr \<Rightarrow> alloc3 \<Rightarrow> (sz \<times> bool) option option" where
  "neighbour p s = (if p = NULL then Some None else do { m \<leftarrow> ld p s; Some (Some (b_size m, b_free m)) })"

definition fits_with :: "(sz \<times> bool) option \<Rightarrow> sz \<Rightarrow> sz \<Rightarrow> bool" where
  "fits_with nb old sz \<longleftrightarrow>
     (case nb of None \<Rightarrow> False | Some (n, free) \<Rightarrow> sz_add (sz_add n old) META \<ge> sz \<and> free)"

definition fits_both :: "(sz \<times> bool) option \<Rightarrow> (sz \<times> bool) option \<Rightarrow> sz \<Rightarrow> sz \<Rightarrow> bool" where
  "fits_both prv nxt old sz \<longleftrightarrow>
     (case (prv, nxt) of
        (Some (n, f), Some (k, g)) \<Rightarrow> sz_add (sz_add (sz_add n k) old) (2 * META) \<ge> sz \<and> g \<and> f
      | _ \<Rightarrow> False)"

definition srealloc :: "grant \<Rightarrow> addr option \<Rightarrow> addr \<Rightarrow> sz \<Rightarrow> alloc3 \<Rightarrow> (addr \<times> alloc3) option" where
  "srealloc grant mm oldp sz0 s =
     (let sz = round_up sz0 in
      if sz = 0 \<or> sz > MAX_SIZE then Some (NULL, s)
      else if oldp = NULL then smalloc grant mm sz s
      else do {
        let oldp_metadata = oldp - META;
        if sz \<ge> MMAP_SIZE then move_to_new grant mm oldp sz s
        else do {
          m \<leftarrow> ld oldp_metadata s;
          if b_size m \<ge> sz then
            (if sz_sub (b_size m) sz \<ge> 128 + META then do {
               (p, s) \<leftarrow> split_block oldp_metadata sz s;
               Some (p + META, s) }
             else Some (oldp, s))
          else do {
            let oldp_prev = list_prev m;
            let oldp_next = list_next m;
            prv \<leftarrow> neighbour oldp_prev s;
            if fits_with prv (b_size m) sz then merge_prev oldp_metadata oldp_prev sz s
            else do {
            nxt \<leftarrow> neighbour oldp_next s;
            if fits_with nxt (b_size m) sz then merge_next oldp_metadata sz s
            else if fits_both prv nxt (b_size m) sz then merge_both oldp_metadata oldp_prev sz s
            else if oldp_next = NULL \<and> all_list_end s = oldp_metadata then
              (case sbrk grant (to_intptr (sz_sub sz (b_size m))) (brk s) of
                 (None, _) \<Rightarrow> Some (NULL, s)
               | (Some _, b) \<Rightarrow> do {
                   s \<leftarrow> upd (all_list_end s) (b_size_update (\<lambda>_. sz)) (s\<lparr>brk := b\<rparr>);
                   Some (oldp, s) })
            else move_to_new grant mm oldp sz s } } } })"

definition scalloc :: "grant \<Rightarrow> addr option \<Rightarrow> sz \<Rightarrow> sz \<Rightarrow> alloc3 \<Rightarrow> (addr \<times> alloc3) option" where
  "scalloc grant mm num sz s =
     do {
       (p, s) \<leftarrow> smalloc grant mm (sz_mul num sz) s;
       if p = NULL then Some (NULL, s)
       else Some (p, s\<lparr>data := memset0 p (sz_mul num sz) (data s)\<rparr>) }"


subsection \<open>Statistics\<close>

definition num_meta_data_bytes :: "alloc3 \<Rightarrow> sz" where
  "num_meta_data_bytes s = sz_mul (num_of_metadatas s) META"

definition size_meta_data :: sz where
  "size_meta_data = META"

definition num_free_blocks :: "alloc3 \<Rightarrow> sz option" where
  "num_free_blocks s = free_blocks_from s 0 (all_list_head s)"

definition num_allocated_blocks :: "alloc3 \<Rightarrow> sz option" where
  "num_allocated_blocks s =
     do { count \<leftarrow> blocks_from s 0 (all_list_head s); Some (sz_add count (mmaped_blocks_num s)) }"

definition num_free_bytes :: "alloc3 \<Rightarrow> sz option" where
  "num_free_bytes s = free_bytes_from s 0 (all_list_head s)"

definition num_allocated_bytes :: "alloc3 \<Rightarrow> sz option" where
  "num_allocated_bytes s =
     do { res \<leftarrow> bytes_from s 0 (all_list_head s); Some (sz_add res (mmaped_bytes_num s)) }"

subsection \<open>Comparison with the third allocator\<close>

lemma round_up_dvd: "8 dvd round_up sz"
proof -
  have "8 dvd sz + (8 - sz mod 8)" by presburger
  moreover have "8 dvd SIZE_MOD" by (simp add: SIZE_MOD_def)
  ultimately have "8 dvd sz_add sz (8 - sz mod 8)" unfolding sz_add_def by (rule dvd_mod)
  then show ?thesis by (auto simp: round_up_def)
qed

lemma round_up_idem [simp]: "round_up (round_up sz) = round_up sz"
  using round_up_dvd [of sz] by (auto simp: round_up_def [of "round_up sz"])

lemma same_naive: "smalloc_naive = Malloc_3.smalloc_naive"
  by (intro ext) (simp add: smalloc_naive_def Malloc_3.smalloc_naive_def)

lemma same_create: "create_metadata_sbrk = Malloc_3.create_metadata_sbrk"
  by (intro ext) (simp add: create_metadata_sbrk_def Malloc_3.create_metadata_sbrk_def same_naive)

lemma same_remove: "remove_node_histo = Malloc_3.remove_node_histo"
  by (intro ext) (simp only: remove_node_histo_def Malloc_3.remove_node_histo_def)

lemma same_add_list: "add_node_list = Malloc_3.add_node_list"
  by (intro ext) (simp only: add_node_list_def Malloc_3.add_node_list_def)

lemma same_add_histo: "b \<noteq> NULL \<Longrightarrow> add_node_histo b s = Malloc_3.add_node_histo b s"
  by (simp only: add_node_histo_def Malloc_3.add_node_histo_def if_False)

lemma same_place: "place_metadata = Malloc_3.place_metadata"
  by (intro ext) (simp only: place_metadata_def Malloc_3.place_metadata_def)

lemma same_split: "split_block = Malloc_3.split_block"
proof (intro ext)
  fix b sz s
  have n: "b + META + sz \<noteq> NULL" by (simp add: META_def)
  show "split_block b sz s = Malloc_3.split_block b sz s"
    by (simp only: split_block_def Malloc_3.split_block_def Let_def same_place same_add_histo [OF n] same_remove same_add_list)
qed

lemmas same4 = same_naive same_create same_remove same_add_list same_place same_split

lemma same_sbrk: "sbrk_wrapper = Malloc_3.sbrk_wrapper"
  by (intro ext) (simp only: sbrk_wrapper_def Malloc_3.sbrk_wrapper_def same4)

lemma same_mmap: "mmap_wrapper = Malloc_3.mmap_wrapper" "deallocate_mmap = Malloc_3.deallocate_mmap"
  by (intro ext, simp only: mmap_wrapper_def Malloc_3.mmap_wrapper_def deallocate_mmap_def Malloc_3.deallocate_mmap_def)+

lemma same_smalloc: "smalloc grant mm sz s = Malloc_3.smalloc grant mm (round_up sz) s"
  by (simp only: smalloc_def Malloc_3.smalloc_def Let_def same4 same_sbrk same_mmap)

lemma same_unite: "unite_right = Malloc_3.unite_right"
proof (intro ext)
  fix b s
  show "unite_right b s = Malloc_3.unite_right b s"
    by (cases "b = NULL") (simp_all only: unite_right_def Malloc_3.unite_right_def same4 same_add_histo if_False if_True refl not_False_eq_True)
qed

lemma same_free: "sfree = Malloc_3.sfree"
proof (intro ext)
  fix p s
  show "sfree p s = Malloc_3.sfree p s"
  proof (cases "p - META = NULL")
    case True
    then show ?thesis by (simp add: sfree_def Malloc_3.sfree_def ld_def)
  next
    case False
    show ?thesis
      by (simp only: sfree_def Malloc_3.sfree_def Let_def same_mmap same_unite same_add_histo [OF False])
  qed
qed

lemma same_unite_srealloc: "unite_srealloc = Malloc_3.unite_srealloc"
proof (intro ext)
  fix b c f s
  show "unite_srealloc b c f s = Malloc_3.unite_srealloc b c f s"
  proof (cases "b = NULL")
    case True
    then show ?thesis by (simp add: unite_srealloc_def Malloc_3.unite_srealloc_def upd_def ld_def)
  next
    case False
    show ?thesis
      by (simp only: unite_srealloc_def Malloc_3.unite_srealloc_def same_unite same_add_histo [OF False])
  qed
qed

lemma same_split_rest: "split_rest = Malloc_3.split_rest"
  by (intro ext) (simp only: split_rest_def Malloc_3.split_rest_def same4)

lemma same_merge: "merge_prev = Malloc_3.merge_prev" "merge_next = Malloc_3.merge_next"
  by (intro ext, simp only: merge_prev_def Malloc_3.merge_prev_def merge_next_def Malloc_3.merge_next_def
      same_unite_srealloc same4 same_split_rest)+

lemma same_guards: "neighbour = Malloc_3.neighbour" "fits_with = Malloc_3.fits_with" "fits_both = Malloc_3.fits_both"
  by (intro ext, simp only: neighbour_def Malloc_3.neighbour_def fits_with_def Malloc_3.fits_with_def
      fits_both_def Malloc_3.fits_both_def)+

lemma same_move: "move_to_new grant mm p (round_up sz) s = Malloc_3.move_to_new grant mm p (round_up sz) s"
  by (simp only: move_to_new_def Malloc_3.move_to_new_def same_smalloc same_free round_up_idem)

lemma same_srealloc: "srealloc grant mm p sz s = srealloc_by merge_both grant mm p (round_up sz) s"
  by (simp only: srealloc_def srealloc_by_def Let_def same_move same_smalloc same4 same_guards same_merge round_up_idem)

end
