(* ===== verification/Malloc_4_Safe.thy ===== *)
theory Malloc_4_Safe
  imports Malloc_4
begin

text \<open>
  What the fourth allocator guarantees: the contract of an allocator with reallocation, and that every pointer it
  hands out is a multiple of 8.
\<close>

text \<open>A reallocation, seen by the client.\<close>

lemma heap3_moved:
  assumes "inv3 s as k" "inv3 s' as' k'" "b \<in> used (heap s) (set as)"
    and "moved3 (heap s) (heap s') (data s) (data s') (set as) (set as') n b d"
  defines "h \<equiv> contents META (sz3 (heap s)) (data s) (used (heap s) (set as))"
  defines "h' \<equiv> contents META (sz3 (heap s')) (data s') (used (heap s') (set as'))"
  shows "(h(b + META := None)) (d + META) = None \<and> (\<exists>w. n \<le> length w \<and>
    take (min n (sz3 (heap s) b)) w = map (data s) [b + META ..< b + META + min n (sz3 (heap s) b)] \<and>
    h' = (h(b + META := None))(d + META \<mapsto> w))"
proof -
  let ?U = "used (heap s) (set as)" and ?w = "map (data s') [d + META ..< d + META + sz3 (heap s') d]" and ?l = "min n (sz3 (heap s) b)"
  have m: "used (heap s') (set as') = insert d (?U - {b})" "d \<notin> ?U - {b}" "n \<le> sz3 (heap s') d"
      "\<And>i. i < ?l \<Longrightarrow> data s' (d + META + i) = data s (b + META + i)"
      "\<And>a. a \<in> ?U - {b} \<Longrightarrow> sz3 (heap s') a = sz3 (heap s) a"
      "\<And>a i. a \<in> ?U - {b} \<Longrightarrow> i < sz3 (heap s) a \<Longrightarrow> data s' (a + META + i) = data s (a + META + i)"
    using assms(4) by (simp_all add: moved3_def)
  have nn: "NULL \<notin> insert d (?U - {b})" using no_null [OF assms(2)] m(1) by simp
  have c: "contents META (sz3 (heap s')) (data s') (?U - {b}) = h(b + META := None)"
    unfolding h_def by (rule contents_del [OF no_null [OF assms(1)]]) (rule m(5,6); assumption)+
  then have "h' = (h(b + META := None))(d + META \<mapsto> ?w)" unfolding h'_def m(1) contents_new [OF nn] by simp
  moreover have "(h(b + META := None)) (d + META) = None" unfolding c [symmetric] using m(2) by (simp add: contents_def)
  moreover have "take ?l ?w = map (data s) [b + META ..< b + META + ?l]"
    using m(3,4) by (intro nth_equalityI) auto
  moreover have "n \<le> length ?w" using m(3) by simp
  ultimately show ?thesis by blast
qed

lemma merge_both_spec:
  assumes "inv3 s (us @ c # b # d # vs) k" "\<not> free3 (heap s) b" "free3 (heap s) c" "free3 (heap s) d"
    and "sz3 (heap s) c + META + sz3 (heap s) b + META + sz3 (heap s) d < MMAP_SIZE"
    and "sz \<le> sz3 (heap s) c + META + sz3 (heap s) b + META + sz3 (heap s) d"
  shows "\<exists>s' as'. merge_both b c sz s = Some (c + META, s') \<and> inv3 s' as' k \<and>
    moved3 (heap s) (heap s') (data s) (data s') (set (us @ c # b # d # vs)) (set as') sz b c"
  unfolding merge_both_def same_unite_srealloc same4 same_split_rest by (rule merge_both_ok [OF assms])

lemma srealloc4_spec:
  assumes "inv3 s (xs @ b # ys) k" "\<not> free3 (heap s) b" "0 < round_up sz" "round_up sz < MMAP_SIZE"
    and "gain (heap s) (rev xs) + sz3 (heap s) b + gain (heap s) ys < MMAP_SIZE"
  shows "\<exists>p s' as' k'. srealloc grant mm (b + META) sz s = Some (p, s') \<and> inv3 s' as' k' \<and>
    (if p = NULL then data s' = data s \<and> set as' = set (xs @ b # ys) \<and>
         (\<forall>a \<in> set as'. sz3 (heap s') a = sz3 (heap s) a \<and> free3 (heap s') a = free3 (heap s) a)
     else \<exists>d. p = d + META \<and> moved3 (heap s) (heap s') (data s) (data s') (set (xs @ b # ys)) (set as') (round_up sz) b d)"
  unfolding same_srealloc
proof (rule srealloc_by_spec [OF assms])
  fix c d us vs
  assume a: "xs = us @ [c]" "ys = d # vs" "free3 (heap s) c" "free3 (heap s) d"
    "round_up sz \<le> sz3 (heap s) c + META + sz3 (heap s) b + META + sz3 (heap s) d"
  have "inv3 s (us @ c # b # d # vs) k" "set (xs @ b # ys) = set (us @ c # b # d # vs)" using assms(1) a(1,2) by auto
  moreover have "sz3 (heap s) c + META + sz3 (heap s) b + META + sz3 (heap s) d < MMAP_SIZE"
    using assms(5) a(1-4) by (simp add: gain_def)
  ultimately show "\<exists>s' as'. merge_both b c (round_up sz) s = Some (c + META, s') \<and> inv3 s' as' k \<and>
      moved3 (heap s) (heap s') (data s) (data s') (set (xs @ b # ys)) (set as') (round_up sz) b c"
    using merge_both_spec [of s us c b d vs k "round_up sz"] assms(2) a(3-5) by metis
qed

lemma round_up_bounds:
  assumes "n \<le> MMAP_SIZE - 8"
  shows "n \<le> round_up n" "round_up n < n + 8" "round_up n < MMAP_SIZE" "0 < n \<Longrightarrow> 0 < round_up n"
proof -
  have "n + (8 - n mod 8) < SIZE_MOD" using assms by (simp add: MMAP_SIZE_def SIZE_MOD_def)
  then have r: "round_up n = (if n mod 8 = 0 then n else n + (8 - n mod 8))"
    by (auto simp: round_up_def sz_add_exact)
  then show b: "n \<le> round_up n" "round_up n < n + 8" "0 < n \<Longrightarrow> 0 < round_up n" by auto
  have d: "8 dvd round_up n" "8 dvd (MMAP_SIZE :: nat)" by (simp_all add: round_up_dvd MMAP_SIZE_def)
  show "round_up n < MMAP_SIZE"
  proof (rule ccontr)
    assume "\<not> round_up n < MMAP_SIZE"
    moreover have "round_up n < MMAP_SIZE"
      using b(2) assms d by (auto simp: MMAP_SIZE_def elim!: dvdE)
    ultimately show False by simp
  qed
qed

lemma heap4_alloc:
  assumes "heap3 s h" "n \<le> MMAP_SIZE - 8"
  shows "\<exists>p s' h'. smalloc grant mm n s = Some (p, s') \<and> heap3 s' h' \<and>
    (if p = NULL then h' = h else h p = None \<and> (\<exists>v. n \<le> length v \<and> h' = h(p \<mapsto> v)))"
proof -
  note r = round_up_bounds [OF assms(2)]
  obtain p s' h' where a: "Malloc_3.smalloc grant mm (round_up n) s = Some (p, s')" "heap3 s' h'"
      "if p = NULL then h' = h else h p = None \<and> (\<exists>v. round_up n \<le> length v \<and> h' = h(p \<mapsto> v))"
    using heap3_alloc [OF assms(1) r(3), of grant mm] by blast
  have "if p = NULL then h' = h else h p = None \<and> (\<exists>v. n \<le> length v \<and> h' = h(p \<mapsto> v))"
    using a(3) r(1) le_trans by (metis (no_types, lifting))
  then show ?thesis using a(1,2) unfolding same_smalloc by blast
qed

lemma heap4_realloc:
  assumes "heap3 s h" "h p = Some v" "n \<le> MMAP_SIZE - 8" "0 < n" "roomy3 p s"
  shows "\<exists>q s' h'. srealloc grant mm p n s = Some (q, s') \<and> heap3 s' h' \<and>
      (if q = NULL then h' = h
       else (h(p := None)) q = None \<and> (\<exists>w. n \<le> length w \<and> take (min n (length v)) w = take (min n (length v)) v \<and>
         h' = (h(p := None))(q \<mapsto> w)))"
proof -
  note r = round_up_bounds [OF assms(3)]
  obtain as k where i: "inv3 s as k" and h: "h = contents META (sz3 (heap s)) (data s) (used (heap s) (set as))"
    using assms(1) by (auto simp: heap3_def)
  note p = contents_Some [OF assms(2) [unfolded h] no_null [OF i]]
  define b where "b = p - META"
  have pb: "p = b + META" and v: "v = map (data s) [p ..< p + sz3 (heap s) b]" using p(1,3) by (simp_all add: b_def)
  have b: "b \<in> set as" "\<not> free3 (heap s) b" "b \<in> used (heap s) (set as)" using used_block [OF i p(2)] p(2) by (simp_all add: b_def)
  obtain xs ys where as: "as = xs @ b # ys" using split_list [OF b(1)] by blast
  have g: "gain (heap s) (rev xs) + sz3 (heap s) b + gain (heap s) ys < MMAP_SIZE"
    using assms(5) i as unfolding roomy3_def b_def by blast
  obtain q s' as' k' where q: "srealloc grant mm p n s = Some (q, s')" "inv3 s' as' k'"
      "if q = NULL then data s' = data s \<and> set as' = set as \<and>
         (\<forall>a \<in> set as'. sz3 (heap s') a = sz3 (heap s) a \<and> free3 (heap s') a = free3 (heap s) a)
     else \<exists>d. q = d + META \<and> moved3 (heap s) (heap s') (data s) (data s') (set as) (set as') (round_up n) b d"
    using srealloc4_spec [OF i [unfolded as] b(2) r(4) [OF assms(4)] r(3) g, of grant mm] pb as by metis
  let ?h' = "contents META (sz3 (heap s')) (data s') (used (heap s') (set as'))"
  have h': "heap3 s' ?h'" using heap3I [OF q(2)] .
  show ?thesis
  proof (cases "q = NULL")
    case True
    then have c: "data s' = data s" "set as' = set as"
        "\<forall>a \<in> set as'. sz3 (heap s') a = sz3 (heap s) a \<and> free3 (heap s') a = free3 (heap s) a" using q(3) by auto
    then have "used (heap s') (set as') = used (heap s) (set as)" by (auto simp: used_def)
    moreover have "contents META (sz3 (heap s')) (data s') (used (heap s) (set as)) = h"
      unfolding h c(1) by (rule contents_same [OF no_null [OF i]]) (use c in \<open>auto simp: used_def\<close>)
    ultimately show ?thesis using True q(1) h' by auto
  next
    case False
    then obtain d where d: "q = d + META" "moved3 (heap s) (heap s') (data s) (data s') (set as) (set as') (round_up n) b d"
      using q(3) by auto
    from heap3_moved [OF i q(2) b(3) d(2)] obtain w where
      w: "(h(p := None)) q = None" "round_up n \<le> length w"
        "take (min (round_up n) (sz3 (heap s) b)) w = map (data s) [b + META ..< b + META + min (round_up n) (sz3 (heap s) b)]"
        "?h' = (h(p := None))(q \<mapsto> w)"
      unfolding h pb d(1) by blast
    have "take (min n (length v)) (take (min (round_up n) (sz3 (heap s) b)) w) =
        take (min n (length v)) (map (data s) [b + META ..< b + META + min (round_up n) (sz3 (heap s) b)])"
      unfolding w(3) ..
    then have "take (min n (length v)) w = take (min n (length v)) v"
      using r(1) by (simp add: v pb take_map min_def split: if_splits)
    moreover have "n \<le> length w" using w(2) r(1) by simp
    ultimately have "\<exists>w. n \<le> length w \<and> take (min n (length v)) w = take (min n (length v)) v \<and> ?h' = (h(p := None))(q \<mapsto> w)"
      using w(4) by blast
    then show ?thesis using False q(1) h' w(1) by (intro exI [of _ q] exI [of _ s'] exI [of _ ?h']) simp
  qed
qed

interpretation m4: reallocator heap3 "\<lambda>n. n \<le> MMAP_SIZE - 8" "smalloc grant mm" sfree roomy3 "srealloc grant mm" for grant mm
proof
  show "h NULL = None" if "heap3 s h" for s h using that by (rule m3.null_free)
qed (unfold same_free, (rule heap3_disjoint heap4_alloc heap3_free heap4_realloc; assumption)+)

subsection \<open>Alignment\<close>

definition aligned :: "alloc3 \<Rightarrow> bool" where
  "aligned s \<longleftrightarrow> 8 dvd brk s \<and> (\<forall>a m. heap s a = Some m \<longrightarrow> 8 dvd a \<and> 8 dvd b_size m)"

lemma aligned_frame [simp]:
  "aligned (s\<lparr>free_histogram := f\<rparr>) = aligned s" "aligned (s\<lparr>all_list_head := a\<rparr>) = aligned s"
  "aligned (s\<lparr>all_list_end := a\<rparr>) = aligned s" "aligned (s\<lparr>num_of_metadatas := n\<rparr>) = aligned s"
  "aligned (s\<lparr>data := d\<rparr>) = aligned s"
  "aligned (s\<lparr>mmaped_blocks_num := n\<rparr>) = aligned s" "aligned (s\<lparr>mmaped_bytes_num := n\<rparr>) = aligned s"
  by (simp_all add: aligned_def)

lemma dvd_sz: "8 dvd a \<Longrightarrow> 8 dvd b \<Longrightarrow> 8 dvd sz_add a b" "8 dvd a \<Longrightarrow> 8 dvd b \<Longrightarrow> 8 dvd sz_sub a b" "8 dvd META"
proof -
  have d: "8 dvd SIZE_MOD" by (simp add: SIZE_MOD_def)
  show "8 dvd a \<Longrightarrow> 8 dvd b \<Longrightarrow> 8 dvd sz_add a b" using d by (simp add: sz_add_def dvd_mod)
  show "8 dvd a \<Longrightarrow> 8 dvd b \<Longrightarrow> 8 dvd sz_sub a b" using d by (auto simp: sz_sub_def intro!: dvd_mod dvd_diff_nat dvd_add)
qed (simp add: META_def)

text \<open>
  What holds of the result of a computation, if it has one, with one rule per construct of the model: alignment is
  kept whatever the lists look like, so the proofs follow the text of the functions.
\<close>

definition ok :: "('a \<Rightarrow> bool) \<Rightarrow> 'a option \<Rightarrow> bool" where
  "ok P r \<longleftrightarrow> (case r of None \<Rightarrow> True | Some x \<Rightarrow> P x)"

definition ok_ptr :: "addr \<times> alloc3 \<Rightarrow> bool" where
  "ok_ptr r \<longleftrightarrow> 8 dvd fst r \<and> aligned (snd r)"

lemma ok_if: "(c \<Longrightarrow> ok P x) \<Longrightarrow> (\<not> c \<Longrightarrow> ok P y) \<Longrightarrow> ok P (if c then x else y)"
  by simp

lemma ok_state: "ok aligned x \<Longrightarrow> (\<And>s. aligned s \<Longrightarrow> ok P (f s)) \<Longrightarrow> ok P (x \<bind> f)"
  by (cases x) (simp_all add: ok_def)

lemma ok_pair: "ok ok_ptr x \<Longrightarrow> (\<And>p s. 8 dvd p \<Longrightarrow> aligned s \<Longrightarrow> ok P (f (p, s))) \<Longrightarrow> ok P (x \<bind> f)"
  by (cases x; cases "the x") (simp_all add: ok_def ok_ptr_def)

lemma ok_ld: "aligned s \<Longrightarrow> (\<And>m. p \<noteq> NULL \<Longrightarrow> 8 dvd p \<Longrightarrow> 8 dvd b_size m \<Longrightarrow> ok P (f m)) \<Longrightarrow> ok P (ld p s \<bind> f)"
  by (cases "heap s p") (auto simp: ok_def ld_def aligned_def)

lemma ok_walk: "(\<And>a. ok P (f a)) \<Longrightarrow> ok P ((x :: addr option) \<bind> f)"
  by (cases x) (simp_all add: ok_def)

lemma ok_upd: "aligned s \<Longrightarrow> (\<And>m. 8 dvd b_size m \<Longrightarrow> 8 dvd b_size (f m)) \<Longrightarrow> ok aligned (upd p f s)"
  by (cases "heap s p") (auto simp: ok_def upd_def ld_def aligned_def)

lemma ok_upd_bind:
  assumes "aligned s" "\<And>m. 8 dvd b_size m \<Longrightarrow> 8 dvd b_size (f m)"
    and "\<And>s'. aligned s' \<Longrightarrow> 8 dvd p \<Longrightarrow> all_list_end s' = all_list_end s \<Longrightarrow> ok P (g s')"
  shows "ok P (upd p f s \<bind> g)"
  using ok_upd [of s f p] assms by (auto simp: ok_def upd_def ld_def aligned_def split: bind_splits option.splits)

lemma ok_set_bin: "aligned s \<Longrightarrow> ok aligned (set_bin i p s)"
  by (simp add: ok_def set_bin_def)

lemma ok_Some: "P x \<Longrightarrow> ok P (Some x)"
  by (simp add: ok_def)

lemmas okI = ok_if ok_upd ok_set_bin ok_ld ok_state ok_walk ok_Some

lemma ok_remove: "aligned s \<Longrightarrow> ok aligned (remove_node_histo p s)"
  unfolding remove_node_histo_def Let_def by (intro okI) simp_all

lemma ok_add_list: "aligned s \<Longrightarrow> ok aligned (add_node_list p q s)"
  unfolding add_node_list_def Let_def by (intro okI) simp_all

lemma ok_add_histo: "aligned s \<Longrightarrow> ok aligned (add_node_histo p s)"
  unfolding add_node_histo_def Let_def by (intro okI) simp_all

lemma place_aligned: "aligned s \<Longrightarrow> 8 dvd p \<Longrightarrow> 8 dvd n \<Longrightarrow> aligned (place_metadata p f n s)"
  by (auto simp: aligned_def place_metadata_def)

lemma ok_split: "aligned s \<Longrightarrow> 8 dvd sz \<Longrightarrow> ok ok_ptr (split_block p sz s)"
  unfolding split_block_def Let_def
  by (intro okI ok_remove ok_add_list ok_add_histo) (simp_all add: place_aligned dvd_sz ok_ptr_def)

lemma ok_unite_right: "aligned s \<Longrightarrow> ok aligned (unite_right p s)"
  unfolding unite_right_def Let_def
  by (intro okI ok_remove ok_add_histo) (simp_all add: dvd_sz)

lemma dvd_intptr: "8 dvd n \<Longrightarrow> (8 :: int) dvd to_intptr n"
proof -
  assume "8 dvd n"
  then have "(8 :: int) dvd int n" by presburger
  moreover have "(8 :: int) dvd int SIZE_MOD" by (simp add: SIZE_MOD_def)
  ultimately show ?thesis by (simp add: to_intptr_def)
qed

lemma sbrk_dvd:
  assumes "8 dvd n" "8 dvd b" "sbrk grant (to_intptr n) b = (r, b')"
  shows "8 dvd b'" "r = Some p \<Longrightarrow> 8 dvd p"
proof -
  have "(8 :: int) dvd int b + to_intptr n" using assms(1,2) dvd_intptr [of n] by (intro dvd_add) presburger+
  then have "0 \<le> int b + to_intptr n \<Longrightarrow> 8 dvd nat (int b + to_intptr n)" by presburger
  then show "8 dvd b'" "r = Some p \<Longrightarrow> 8 dvd p" using assms(2,3) by (auto simp: sbrk_def split: if_splits)
qed

lemma brk_aligned: "aligned s \<Longrightarrow> 8 dvd b \<Longrightarrow> aligned (s\<lparr>brk := b\<rparr>)" "aligned s \<Longrightarrow> 8 dvd brk s"
  by (simp_all add: aligned_def)

lemma create_aligned:
  assumes "aligned s" "8 dvd n"
  shows "ok_ptr (create_metadata_sbrk grant n f s)"
proof (cases "sbrk grant (to_intptr META) (brk s)")
  case (Pair r b)
  note d = sbrk_dvd [OF dvd_sz(3) brk_aligned(2) [OF assms(1)] Pair]
  show ?thesis using Pair d assms
    by (cases r) (auto simp: create_metadata_sbrk_def smalloc_naive_def ok_ptr_def aligned_def blank_def split: if_splits)
qed

lemma ok_grow:
  assumes "aligned s" "8 dvd n" "\<And>q b. 8 dvd b \<Longrightarrow> 8 dvd q \<Longrightarrow> ok ok_ptr (F q b)"
  shows "ok ok_ptr (case sbrk grant (to_intptr n) (brk s) of (None, _) \<Rightarrow> Some (NULL, s) | (Some q, b) \<Rightarrow> F q b)"
proof (cases "sbrk grant (to_intptr n) (brk s)")
  case (Pair r b)
  note d = sbrk_dvd [OF assms(2) brk_aligned(2) [OF assms(1)] Pair]
  show ?thesis using Pair d assms by (cases r) (auto simp: ok_def ok_ptr_def)
qed

lemma ok_sbrk_wrapper:
  assumes "aligned s" "8 dvd sz"
  shows "ok ok_ptr (sbrk_wrapper grant sz s)"
proof -
  obtain p s1 where c: "create_metadata_sbrk grant sz False s = (p, s1)" by (cases "create_metadata_sbrk grant sz False s")
  then have p: "8 dvd p" "aligned s1" using create_aligned [OF assms, of grant False] by (simp_all add: ok_ptr_def)
  have new: "ok ok_ptr (let (new_metadata, s) = create_metadata_sbrk grant sz False s in
      if new_metadata = NULL then Some (NULL, s)
      else case sbrk grant (to_intptr sz) (brk s) of
        (None, _) \<Rightarrow> Some (NULL, s)
      | (Some newptr, b) \<Rightarrow> do {
          s \<leftarrow> add_node_list new_metadata (all_list_end s) (s\<lparr>brk := b\<rparr>);
          Some (newptr, s) })"
    unfolding c Let_def prod.case
    by (intro ok_if ok_grow okI ok_add_list) (use p assms in \<open>simp_all add: ok_ptr_def brk_aligned\<close>)
  have grow: "ok ok_ptr (case sbrk grant (to_intptr (sz_sub sz w)) (brk s) of
        (None, _) \<Rightarrow> Some (NULL, s)
      | (Some _, b) \<Rightarrow> do {
          s \<leftarrow> remove_node_histo (all_list_end s) (s\<lparr>brk := b\<rparr>);
          s \<leftarrow> upd (all_list_end s) (\<lambda>m. m\<lparr>b_size := sz, b_free := False\<rparr>) s;
          Some (all_list_end s + META, s) })" if "8 dvd w" for w
    by (intro ok_grow ok_state ok_remove ok_upd_bind okI)
      (use that assms in \<open>simp_all add: dvd_sz brk_aligned ok_ptr_def\<close>)
  show ?thesis
  proof (cases "all_list_end s = NULL")
    case True
    then show ?thesis using new unfolding sbrk_wrapper_def by simp
  next
    case False
    then show ?thesis
    proof (cases "ld (all_list_end s) s")
      case None
      then show ?thesis using False by (simp add: sbrk_wrapper_def ok_def)
    next
      case (Some m)
      then have "8 dvd b_size m" using assms(1) by (auto simp: ld_def aligned_def split: if_splits)
      then show ?thesis using False Some new grow [of "b_size m"] unfolding sbrk_wrapper_def by (cases "b_free m") simp_all
    qed
  qed
qed

lemma ok_mmap:
  assumes "aligned s" "8 dvd sz" "ok (\<lambda>a. 8 dvd a) mm"
  shows "ok_ptr (mmap_wrapper mm sz s)"
  using assms by (cases mm) (auto simp: mmap_wrapper_def ok_ptr_def ok_def aligned_def META_def blank_def)

lemma ok_dealloc: "aligned s \<Longrightarrow> ok aligned (deallocate_mmap p s)"
  by (cases "heap s p") (auto simp: deallocate_mmap_def ld_def ok_def aligned_def)

lemma ok_smalloc:
  assumes "aligned s" "ok (\<lambda>a. 8 dvd a) mm"
  shows "ok ok_ptr (smalloc grant mm sz s)"
  unfolding smalloc_def Let_def
  by (intro ok_sbrk_wrapper ok_if ok_walk ok_ld ok_state ok_remove ok_upd_bind ok_pair ok_split ok_Some)
    (use assms ok_mmap [OF assms(1) round_up_dvd assms(2)] in \<open>simp_all add: ok_ptr_def round_up_dvd dvd_sz ok_Some\<close>)

lemma ok_sfree: "aligned s \<Longrightarrow> ok aligned (sfree p s)"
  unfolding sfree_def Let_def
  by (intro ok_if ok_dealloc ok_unite_right ok_add_histo okI) simp_all

lemma ok_unite_srealloc: "aligned s \<Longrightarrow> ok aligned (unite_srealloc p q f s)"
  unfolding unite_srealloc_def by (intro ok_unite_right ok_add_histo okI) simp_all

lemma ok_split_rest: "aligned s \<Longrightarrow> 8 dvd sz \<Longrightarrow> ok ok_ptr (split_rest p sz s)"
  unfolding split_rest_def
  by (intro ok_ld ok_if ok_pair ok_split ok_Some) (simp_all add: ok_ptr_def dvd_sz ok_Some)

lemma ok_nb: "(\<And>a. ok P (f a)) \<Longrightarrow> ok P ((x :: (sz \<times> bool) option option) \<bind> f)"
  by (cases x) (simp_all add: ok_def)

lemma ok_move:
  assumes "aligned s" "ok (\<lambda>a. 8 dvd a) mm"
  shows "ok ok_ptr (move_to_new grant mm p sz s)"
  unfolding move_to_new_def Let_def
  by (intro ok_pair, rule ok_smalloc [OF assms], unfold prod.case, intro ok_if ok_ld ok_state ok_sfree ok_Some)
    (simp_all add: ok_ptr_def)

lemma ok_merge:
  assumes "aligned s" "8 dvd sz"
  shows "ok ok_ptr (merge_prev b c sz s)" "ok ok_ptr (merge_next b sz s)" "ok ok_ptr (merge_both b c sz s)"
  unfolding merge_prev_def merge_next_def merge_both_def Let_def
  by (intro ok_ld ok_state ok_unite_srealloc ok_remove ok_upd ok_split_rest; simp add: assms)+

lemma dvd_old: "8 dvd p - META \<Longrightarrow> p - META \<noteq> NULL \<Longrightarrow> 8 dvd p"
  by (simp add: META_def) presburger

lemma ok_srealloc:
  assumes "aligned s" "ok (\<lambda>a. 8 dvd a) mm"
  shows "ok ok_ptr (srealloc grant mm p sz s)"
  unfolding srealloc_def Let_def
  apply (intro ok_if ok_smalloc ok_move ok_ld ok_nb ok_merge ok_pair ok_split ok_grow ok_upd_bind ok_Some)
  apply (use assms dvd_old [of p] in \<open>simp_all add: ok_ptr_def round_up_dvd dvd_sz ok_Some brk_aligned\<close>)
  done

subsection \<open>Properties\<close>

text \<open>
  The fourth allocator beside the third one: for every state and every request \<open>smalloc\<close> does what
  \<open>malloc_3.cpp\<close> does for the size rounded up to a multiple of 8, and \<open>sfree\<close>, the splitting and the merging
  of blocks are the same functions. \<open>srealloc\<close> is not: it takes a block merged on both sides out of its bin.
\<close>

theorem malloc4_is_malloc3_rounded:
  "smalloc grant mm sz s = Malloc_3.smalloc grant mm (round_up sz) s \<and> sfree = Malloc_3.sfree \<and>
   split_block = Malloc_3.split_block \<and> unite_right = Malloc_3.unite_right"
  by (simp only: same_smalloc same_free same_split same_unite simp_thms)

text \<open>
  C7. Fourth allocator, reallocation inside the heap. Let a block of the heap (no mapped one) be in use, let the size asked for stay
  below the mapping threshold when it is rounded up, and let the block and its free neighbours together be smaller than
  128 KB (\<open>roomy3\<close>: a larger merged block has no bin in the histogram). Then \<open>srealloc\<close> ends, whichever of its cases it takes
  (shrinking, merging with one or both neighbours, extending the last block, moving). Seen by a client it returns \<open>NULL\<close> and nothing changes; or the block is replaced by one
  of at least the requested size with the old bytes in front, in a place that overlaps no other block, and
  all other blocks keep their bytes.
\<close>

theorem srealloc4_refines:
  assumes "heap3 s h" "h p = Some v" "n \<le> MMAP_SIZE - 8" "0 < n" "roomy3 p s"
  shows "\<exists>q s' h'. srealloc grant mm p n s = Some (q, s') \<and> heap3 s' h' \<and>
      (if q = NULL then h' = h
       else (h(p := None)) q = None \<and> (\<exists>w. n \<le> length w \<and> take (min n (length v)) w = take (min n (length v)) v \<and>
         h' = (h(p := None))(q \<mapsto> w)))"
  using assms by (rule m4.realloc_ok)

lemma three_roomy: "roomy3 2096 three"
  unfolding roomy3_def
proof (intro allI impI)
  fix xs ys k
  assume i: "inv3 three (xs @ (2096 - META) # ys) k"
  then have "list_ok three (xs @ 2048 # ys)" "list_ok three [1000, 2048, 2596]"
    using inv3D(1) [OF i] inv3D(1) [OF three_inv] by (simp_all add: META_def)
  then have d: "dll (ln (heap three)) (lp (heap three)) NULL (xs @ 2048 # ys) NULL"
      "dll (ln (heap three)) (lp (heap three)) NULL [1000, 2048, 2596] NULL"
      "hd ((xs @ 2048 # ys) @ [NULL]) = hd ([1000, 2048, 2596] @ [NULL])" "NULL \<notin> set (xs @ 2048 # ys)" "NULL \<notin> set [1000, 2048, 2596 :: addr]"
    unfolding list_ok_def by (fastforce, fastforce, metis, blast, simp)
  have "xs @ 2048 # ys = [1000, 2048, 2596]" by (rule dll_unique [OF d])
  then have "xs = [1000] \<and> ys = [2596]" by (auto simp: append_eq_Cons_conv Cons_eq_append_conv)
  then show "gain (heap three) (rev xs) + sz3 (heap three) (2096 - META) + gain (heap three) ys < MMAP_SIZE"
    by (simp add: gain_def three_view META_def MMAP_SIZE_def)
qed

theorem srealloc4_refines_witness:
  "\<exists>h v q s' h'. heap3 three h \<and> h 2096 = Some v \<and> srealloc (\<lambda>_ _. True) None 2096 1800 three = Some (q, s') \<and> heap3 s' h' \<and>
     (q = NULL \<or> (\<exists>w. h' q = Some w \<and> 1800 \<le> length w))"
proof -
  let ?h = "contents META (sz3 (heap three)) (data three) (used (heap three) (set [1000, 2048, 2596]))"
  have h: "heap3 three ?h" using heap3I [OF three_inv] .
  have "2048 \<in> used (heap three) (set [1000, 2048, 2596])" using three_view(5) by (simp add: used_def)
  from contents_at [OF this, of META] obtain v where v: "?h 2096 = Some v" by (simp add: META_def)
  have n: "(1800 :: sz) \<le> MMAP_SIZE - 8" "(0 :: sz) < 1800" by (simp_all add: MMAP_SIZE_def)
  from srealloc4_refines [OF h v n three_roomy, of "\<lambda>_ _. True" None] obtain q s' h' where
    r: "srealloc (\<lambda>_ _. True) None 2096 1800 three = Some (q, s')" "heap3 s' h'"
      "q = NULL \<or> (\<exists>w. 1800 \<le> length w \<and> h' = (?h(2096 := None))(q \<mapsto> w))"
    by (metis (no_types, lifting))
  then have "q = NULL \<or> (\<exists>w. h' q = Some w \<and> 1800 \<le> length w)" by (metis fun_upd_same)
  with h v r(1,2) show ?thesis by blast
qed

text \<open>
  C23. Fourth allocator, alignment: when the break starts at a multiple of 8 and \<open>mmap\<close> returns such addresses,
  every pointer that \<open>smalloc\<close> and \<open>srealloc\<close> return is a multiple of 8, whatever the state of the lists, and
  all blocks start at a multiple of 8 afterwards, after \<open>sfree\<close> too.
\<close>

theorem malloc4_aligned:
  assumes "aligned s" "ok (\<lambda>a. 8 dvd a) mm"
  shows "ok ok_ptr (smalloc grant mm sz s) \<and> ok ok_ptr (srealloc grant mm p sz s) \<and> ok aligned (sfree p s)"
  using ok_smalloc [OF assms] ok_srealloc [OF assms] ok_sfree [OF assms(1)] by blast

theorem malloc4_aligned_witness:
  "\<exists>q s'. smalloc (\<lambda>_ _. True) None 13 (init3 4096) = Some (q, s') \<and> 8 dvd q"
proof -
  have a: "aligned (init3 4096)" "ok (\<lambda>a. 8 dvd a) (None :: addr option)" by (simp_all add: aligned_def init3_def ok_def)
  have "inv3 (init3 4096) [] 0" by (rule inv3_init) (simp_all add: SIZE_MOD_def)
  moreover have "(13 :: sz) \<le> MMAP_SIZE - 8" by (simp add: MMAP_SIZE_def)
  ultimately obtain q s' where s: "smalloc (\<lambda>_ _. True) None 13 (init3 4096) = Some (q, s')"
    using heap4_alloc [OF heap3I, of "init3 4096" "[]" 0 13 "\<lambda>_ _. True" None] by blast
  then have "8 dvd q" using malloc4_aligned [OF a, of "\<lambda>_ _. True" 13 0] by (simp add: ok_def ok_ptr_def)
  then show ?thesis using s by (intro exI conjI)
qed

end
