(* ===== verification/Malloc_4_Client.thy ===== *)
theory Malloc_4_Client
  imports Malloc_4_Safe Memory_Client
begin

text \<open>
  The fourth allocator as the memory of a program whose data segment is limited to 128 KB, so that merged blocks
  never outgrow the histogram.
\<close>

subsection \<open>A small data segment\<close>

text \<open>A kernel that moves the break only between \<open>a\<close> and \<open>a + MMAP_SIZE\<close>, as under a limit on the data segment.\<close>

definition limited :: "addr \<Rightarrow> grant \<Rightarrow> grant" where
  "limited a g = (\<lambda>b n. g b n \<and> int a \<le> int b + n \<and> int b + n \<le> int (a + MMAP_SIZE))"

definition within :: "addr \<Rightarrow> alloc3 \<Rightarrow> bool" where
  "within a s \<longleftrightarrow> a \<le> brk s \<and> brk s \<le> a + MMAP_SIZE \<and> (\<forall>b \<in> dom (heap s). a \<le> b)"

lemma within_roomy:
  assumes "within a s"
  shows "roomy3 p s"
  unfolding roomy3_def
proof (intro allI impI)
  fix xs ys k
  let ?b = "p - META" and ?n = "sz3 (heap s)"
  assume i: "inv3 s (xs @ ?b # ys) k"
  note st = inv3D(3) [OF i]
  have lo: "a \<le> c" if "c \<in> set (xs @ ?b # ys)" for c using that inv3D(7) [OF i] assms by (auto simp: within_def)
  have hi: "c + META + ?n c \<le> a + MMAP_SIZE" if "c \<in> set (xs @ ?b # ys)" for c
    using stackD(6) [OF st that] assms by (simp add: within_def)
  have Mp: "0 < META" by (simp add: META_def)
  have R: "?b + META + ?n ?b + gain (heap s) ys \<le> a + MMAP_SIZE"
  proof (cases "eaten (heap s) ys")
    case True
    then obtain d zs where d: "ys = d # zs" by (cases ys) (auto simp: eaten_def)
    then have "?b < d" using around(4) [OF i] by simp
    then have "?b + META + ?n ?b \<le> d" using stackD(7) [OF st, of ?b d] d by simp
    then show ?thesis using hi [of d] d by (simp add: gain_def)
  next
    case False
    then have "gain (heap s) ys = 0" by (auto simp: gain_def eaten_def split: list.splits)
    then show ?thesis using hi [of ?b] by simp
  qed
  have L: "a + gain (heap s) (rev xs) \<le> ?b"
  proof (cases "eaten (heap s) (rev xs)")
    case True
    then obtain c zs where c: "rev xs = c # zs" by (cases "rev xs") (auto simp: eaten_def)
    then have cs: "c \<in> set xs" by (metis list.set_intros(1) set_rev)
    then have "c + META + ?n c \<le> ?b" using stackD(7) [OF st, of c ?b] around(3) [OF i] by simp
    then show ?thesis using lo [of c] cs c by (simp add: gain_def)
  next
    case False
    then have "gain (heap s) (rev xs) = 0" by (auto simp: gain_def eaten_def split: list.splits)
    then show ?thesis using lo [of ?b] by simp
  qed
  show "gain (heap s) (rev xs) + ?n ?b + gain (heap s) ys < MMAP_SIZE" using R L Mp by linarith
qed

text \<open>Every function keeps the blocks and the break in that segment, by the rules for each construct as for the alignment.\<close>

definition in_segment :: "addr \<Rightarrow> addr \<times> alloc3 \<Rightarrow> bool" where
  "in_segment a r \<longleftrightarrow> within a (snd r)"

lemma within_frame [simp]:
  "within a (s\<lparr>free_histogram := f\<rparr>) = within a s" "within a (s\<lparr>all_list_head := p\<rparr>) = within a s"
  "within a (s\<lparr>all_list_end := p\<rparr>) = within a s" "within a (s\<lparr>num_of_metadatas := n\<rparr>) = within a s"
  "within a (s\<lparr>data := d\<rparr>) = within a s"
  "within a (s\<lparr>mmaped_blocks_num := n\<rparr>) = within a s" "within a (s\<lparr>mmaped_bytes_num := n\<rparr>) = within a s"
  by (simp_all add: within_def)

lemma w_state: "ok (within a) x \<Longrightarrow> (\<And>s. within a s \<Longrightarrow> ok P (f s)) \<Longrightarrow> ok P (x \<bind> f)"
  by (cases x) (simp_all add: ok_def)

lemma w_pair: "ok (in_segment a) x \<Longrightarrow> (\<And>p s. within a s \<Longrightarrow> ok P (f (p, s))) \<Longrightarrow> ok P (x \<bind> f)"
  by (cases x; cases "the x") (simp_all add: ok_def in_segment_def)

lemma w_ld: "within a s \<Longrightarrow> (\<And>m. a \<le> p \<Longrightarrow> ok P (f m)) \<Longrightarrow> ok P (ld p s \<bind> f)"
  by (cases "heap s p") (auto simp: ok_def ld_def within_def)

lemma w_upd: "within a s \<Longrightarrow> ok (within a) (upd p f s)"
  by (cases "heap s p") (auto simp: ok_def upd_def ld_def within_def)

lemma w_set_bin: "within a s \<Longrightarrow> ok (within a) (set_bin i p s)"
  by (simp add: ok_def set_bin_def)

lemma w_Some: "within a s \<Longrightarrow> ok (in_segment a) (Some (p, s))"
  by (simp add: ok_def in_segment_def)

lemmas w_bind = w_ld w_state w_pair
lemmas w_plain = ok_if w_upd w_set_bin ok_walk w_Some ok_Some

lemma w_remove: "within a s \<Longrightarrow> ok (within a) (remove_node_histo p s)"
  unfolding remove_node_histo_def Let_def by (intro w_bind [where a = a] w_plain) simp_all

lemma w_add_list: "within a s \<Longrightarrow> ok (within a) (add_node_list p q s)"
  unfolding add_node_list_def Let_def by (intro w_bind [where a = a] w_plain) (simp_all split: if_splits)

lemma w_add_histo: "within a s \<Longrightarrow> ok (within a) (add_node_histo p s)"
  unfolding add_node_histo_def Let_def by (intro w_bind [where a = a] w_plain) simp_all

lemma w_place: "within a s \<Longrightarrow> a \<le> p \<Longrightarrow> within a (place_metadata p f n s)"
  by (auto simp: within_def place_metadata_def)

lemma w_split: "within a s \<Longrightarrow> ok (in_segment a) (split_block p sz s)"
  unfolding split_block_def Let_def
  by (intro w_bind [where a = a] w_plain w_remove w_add_list w_add_histo) (simp_all add: w_place)

lemma w_unite_right: "within a s \<Longrightarrow> ok (within a) (unite_right p s)"
  unfolding unite_right_def Let_def by (intro w_bind [where a = a] w_plain w_remove w_add_histo) simp_all

lemma w_grow:
  assumes "within a s" "\<And>q b. q = brk s \<Longrightarrow> a \<le> b \<Longrightarrow> b \<le> a + MMAP_SIZE \<Longrightarrow> ok (in_segment a) (F q b)"
  shows "ok (in_segment a) (case sbrk (limited a g) n (brk s) of (None, _) \<Rightarrow> Some (NULL, s) | (Some q, b) \<Rightarrow> F q b)"
proof (cases "sbrk (limited a g) n (brk s)")
  case (Pair r b)
  then have "r = Some (brk s) \<Longrightarrow> a \<le> b \<and> b \<le> a + MMAP_SIZE" "r = None \<or> r = Some (brk s)"
    by (auto simp: sbrk_def limited_def split: if_splits)
  then show ?thesis using assms Pair by (auto simp: w_Some)
qed

lemma w_brk: "within a s \<Longrightarrow> a \<le> b \<Longrightarrow> b \<le> a + MMAP_SIZE \<Longrightarrow> within a (s\<lparr>brk := b\<rparr>)"
  by (simp add: within_def)

lemma w_create: "within a s \<Longrightarrow> within a (snd (create_metadata_sbrk (limited a g) n f s))"
  by (auto simp: create_metadata_sbrk_def smalloc_naive_def sbrk_def limited_def within_def split: prod.splits)

lemma w_sbrk_wrapper:
  assumes "within a s"
  shows "ok (in_segment a) (sbrk_wrapper (limited a g) sz s)"
proof -
  obtain p s1 where c: "create_metadata_sbrk (limited a g) sz False s = (p, s1)" by (cases "create_metadata_sbrk (limited a g) sz False s")
  then have s1: "within a s1" using w_create [OF assms, of g sz False] by simp
  have w: "ok P (x \<bind> f)" if "\<And>y. ok P (f y)" for P x and f :: "sz option \<Rightarrow> (addr \<times> alloc3) option"
    using that by (cases x) (simp_all add: ok_def)
  have new: "ok (in_segment a) (if p = NULL then Some (NULL, s1)
      else case sbrk (limited a g) (to_intptr sz) (brk s1) of
        (None, _) \<Rightarrow> Some (NULL, s1)
      | (Some newptr, b) \<Rightarrow> do { s \<leftarrow> add_node_list p (all_list_end s1) (s1\<lparr>brk := b\<rparr>); Some (newptr, s) })"
    by (intro w_grow w_bind [where a = a] w_plain w_add_list) (simp_all add: s1 w_brk)
  have grow: "ok (in_segment a) (case sbrk (limited a g) (to_intptr (sz_sub sz y)) (brk s) of
        (None, _) \<Rightarrow> Some (NULL, s)
      | (Some _, b) \<Rightarrow> do {
          s \<leftarrow> remove_node_histo (all_list_end s) (s\<lparr>brk := b\<rparr>);
          s \<leftarrow> upd (all_list_end s) (\<lambda>m. m\<lparr>b_size := sz, b_free := False\<rparr>) s;
          Some (all_list_end s + META, s) })" for y
    by (intro w_grow w_bind [where a = a] w_plain w_remove) (simp_all add: assms w_brk)
  show ?thesis unfolding sbrk_wrapper_def c Let_def prod.case
    by (rule w, rename_tac y, case_tac y) (use new grow in simp_all)
qed

lemma w_smalloc:
  assumes "within a s"
  shows "ok (in_segment a) (smalloc (limited a g) None sz s)"
  unfolding smalloc_def Let_def
  by (intro w_sbrk_wrapper w_bind [where a = a] w_plain w_remove w_split)
    (use assms in \<open>simp_all add: mmap_wrapper_def in_segment_def ok_Some\<close>)

lemma w_dealloc: "within a s \<Longrightarrow> ok (within a) (deallocate_mmap p s)"
  by (cases "heap s p") (auto simp: deallocate_mmap_def ld_def ok_def within_def)

lemma w_sfree: "within a s \<Longrightarrow> ok (within a) (sfree p s)"
  unfolding sfree_def Let_def by (intro ok_if w_dealloc w_unite_right w_add_histo w_bind [where a = a] w_plain) simp_all

lemma w_unite_srealloc: "within a s \<Longrightarrow> ok (within a) (unite_srealloc p q f s)"
  unfolding unite_srealloc_def by (intro w_unite_right w_add_histo w_bind [where a = a] w_plain) simp_all

lemma w_split_rest: "within a s \<Longrightarrow> ok (in_segment a) (split_rest p sz s)"
  unfolding split_rest_def by (intro w_bind [where a = a] w_plain w_split) (simp_all add: w_Some)

lemma w_move:
  assumes "within a s"
  shows "ok (in_segment a) (move_to_new (limited a g) None p sz s)"
  unfolding move_to_new_def Let_def
  by (intro w_pair [where a = a], rule w_smalloc [OF assms], unfold prod.case, intro w_bind [where a = a] w_plain w_sfree) simp_all

lemma w_merge:
  assumes "within a s"
  shows "ok (in_segment a) (merge_prev b c sz s)" "ok (in_segment a) (merge_next b sz s)" "ok (in_segment a) (merge_both b c sz s)"
  unfolding merge_prev_def merge_next_def merge_both_def Let_def
  by (intro w_bind [where a = a] w_unite_srealloc w_remove w_upd w_split_rest; simp add: assms)+

lemma w_srealloc:
  assumes "within a s"
  shows "ok (in_segment a) (srealloc (limited a g) None p sz s)"
  unfolding srealloc_def Let_def
  by (intro w_bind [where a = a] w_plain w_smalloc w_move ok_nb w_merge w_split w_grow)
    (use assms in \<open>simp_all add: w_Some w_brk\<close>)

subsection \<open>The memory of a program\<close>

definition poke3 :: "addr \<Rightarrow> 8 word \<Rightarrow> alloc3 \<Rightarrow> alloc3" where
  "poke3 a b s = s\<lparr>data := (data s)(a := b)\<rparr>"

lemma heap3_poke:
  assumes "heap3 s h" "h p = Some v" "i < length v"
  shows "heap3 (poke3 (p + i) x s) (h(p \<mapsto> v[i := x]))"
proof -
  let ?n = "sz3 (heap s)" and ?D = "(data s)(p + i := x)"
  obtain as k where j: "inv3 s as k" and h: "h = contents META ?n (data s) (used (heap s) (set as))"
    using assms(1) by (auto simp: heap3_def)
  note p = contents_Some [OF assms(2) [unfolded h] no_null [OF j]]
  define b where "b = p - META"
  have b: "b \<in> used (heap s) (set as)" "p = b + META" "v = map (data s) [p ..< p + ?n b]" using p by (simp_all add: b_def)
  have "?D (a + META + l) = data s (a + META + l)" if "a \<in> used (heap s) (set as) - {b}" "l < ?n a" for a l
  proof -
    have "h (a + META) = Some (map (data s) [a + META ..< a + META + ?n a])" using contents_at that(1) h by fastforce
    from heap3_disjoint [OF assms(1) this assms(2)] that have "a + META + l \<notin> {p ..< p + length v}" using b(2) by auto
    then show ?thesis using assms(3) by auto
  qed
  from contents_write [where M = META and n = ?n and D = "data s" and D' = ?D, OF no_null [OF j] b(1) this]
  have "contents META ?n ?D (used (heap s) (set as)) = h(p \<mapsto> map ?D [p ..< p + ?n b])" unfolding h b(2) by simp
  moreover have "map ?D [p ..< p + ?n b] = v[i := x]" unfolding b(3) by (intro nth_equalityI) (auto simp: nth_list_update)
  moreover have "inv3 (poke3 (p + i) x s) as k" using j by (simp add: poke3_def)
  ultimately show ?thesis unfolding heap3_def by (intro exI [of _ as] exI [of _ k]) (simp add: poke3_def)
qed

lemma ok_D: "ok P x \<Longrightarrow> x = Some y \<Longrightarrow> P y"
  by (simp add: ok_def)

text \<open>Requests below the threshold never ask for a mapping.\<close>

lemma no_mapping:
  assumes "n \<le> MMAP_SIZE - 8"
  shows "smalloc grant mm n = smalloc grant None n" "srealloc grant mm p n = srealloc grant None p n"
proof -
  note r = round_up_bounds [OF assms]
  have e: "smalloc grant mm k s = smalloc grant None k s" if "round_up k < MMAP_SIZE" for k s
    using that by (simp add: smalloc_def Let_def)
  then show "smalloc grant mm n = smalloc grant None n" using r(3) by blast
  have "round_up (round_up n) = round_up n" using round_up_dvd [of n] by (auto simp: round_up_def)
  then have s: "smalloc grant mm (round_up n) s = smalloc grant None (round_up n) s" for s using e r(3) by simp
  then have mv: "move_to_new grant mm p (round_up n) s = move_to_new grant None p (round_up n) s" for s
    unfolding move_to_new_def by simp
  show "srealloc grant mm p n = srealloc grant None p n"
    by (rule ext) (unfold srealloc_def Let_def mv s, rule refl)
qed

interpretation m4c: memory heap3 "\<lambda>n. n \<le> MMAP_SIZE - 8" "smalloc (limited a g) mm" sfree roomy3 "srealloc (limited a g) mm" poke3 "within a"
  for a g mm
proof
  fix s h p v i b
  show "heap3 s h \<Longrightarrow> h p = Some v \<Longrightarrow> i < length v \<Longrightarrow> heap3 (poke3 (p + i) b s) (h(p \<mapsto> v[i := b]))" by (rule heap3_poke)
  show "within a s \<Longrightarrow> roomy3 p s" by (rule within_roomy)
  show "within a s \<Longrightarrow> within a (poke3 p b s)" by (simp add: poke3_def)
next
  fix s p n s'
  show "within a s'" if "within a s" "n \<le> MMAP_SIZE - 8" "smalloc (limited a g) mm n s = Some (p, s')"
    using ok_D [OF w_smalloc [OF that(1)] that(3) [unfolded no_mapping(1) [OF that(2), of _ mm]]] by (simp add: in_segment_def)
  show "within a s \<Longrightarrow> sfree p s = Some s' \<Longrightarrow> within a s'" by (rule ok_D [OF w_sfree])
next
  fix s p n q s'
  show "within a s'" if "within a s" "n \<le> MMAP_SIZE - 8" "srealloc (limited a g) mm p n s = Some (q, s')"
    using ok_D [OF w_srealloc [OF that(1)] that(3) [unfolded no_mapping(2) [OF that(2), of _ mm]]] by (simp add: in_segment_def)
qed

subsection \<open>Properties\<close>

text \<open>
  C6. Fourth allocator, refinement: in a data segment of 128 KB, whichever moves of the break the kernel grants inside it, every
  sequence of requests for, releases and reallocations of blocks below the mapping threshold, and of writes into them,
  is answered, and the program sees a run of a heap of disjoint blocks: what it wrote stays until it writes again or
  releases the block, a reallocated block starts with the old bytes in each of the cases of \<open>srealloc\<close>, and no two blocks ever
  overlap.
\<close>

theorem malloc4_runs:
  assumes "0 < base" "base < SIZE_MOD" "list_all (legal_request (\<lambda>n. n \<le> MMAP_SIZE - 8)) rs"
  shows "\<exists>hs s h. serves (smalloc (limited base g) mm) sfree (srealloc (limited base g) mm) poke3 rs ([], init3 base) = Some (hs, s) \<and>
    heap3 s h \<and> spec_steps rs ([], Map.empty) (hs, h)"
proof -
  have "heap3 (init3 base) Map.empty"
    using heap3I [OF inv3_init [OF assms(1,2)]] by (simp add: used_def contents_def)
  moreover have "within base (init3 base)" by (simp add: within_def init3_def)
  ultimately show ?thesis using m4c.serves_ok [of "init3 base" Map.empty base "[]" rs g mm] assms(3) by (simp add: linked_def)
qed

theorem malloc4_runs_witness:
  "\<exists>hs s h. serves (smalloc (limited 4096 (\<lambda>_ _. True)) None) sfree (srealloc (limited 4096 (\<lambda>_ _. True)) None) poke3
     [Alloc 40, Write 0 3 7, Alloc 200, Realloc 0 100, Free 1, Realloc 0 1000] ([], init3 4096) = Some (hs, s) \<and> heap3 s h"
  using malloc4_runs [of 4096 "[Alloc 40, Write 0 3 7, Alloc 200, Realloc 0 100, Free 1, Realloc 0 1000]" "\<lambda>_ _. True" None]
  by (auto simp: MMAP_SIZE_def SIZE_MOD_def)

end
