(* ===== verification/Cmdline.thy ===== *)
theory Cmdline
  imports C_Strings "HOL-Library.Monad_Syntax"
begin

text \<open>
  The command line of the shell (\<open>HW1Wet/Commands.cpp\<close>, lines 17 to 135): searching for the signs of pipes and
  redirections, trimming, splitting into words, and the background sign.

  A C++ string is a list of characters and \<open>npos\<close> is \<open>None\<close>. An access outside a string or an array is
  undefined behaviour; functions with such an access return \<open>None\<close> there.
\<close>

definition WHITESPACE :: string where
  "WHITESPACE = [CHR '' '', CHR 0x0A, CHR 0x0D, CHR 0x09, CHR 0x0C, CHR 0x0B]"

text \<open>Both tests return the sign that is found, or \<open>None\<close> for \<open>false\<close>.\<close>

definition isPipeCommand :: "string \<Rightarrow> string option" where
  "isPipeCommand cmd_line =
     (let found1 = strstr cmd_line ''|''; found2 = strstr cmd_line ''|&'' in
      if found1 \<noteq> None \<and> found2 = None then Some ''|''
      else if found2 \<noteq> None then Some ''|&''
      else None)"

definition isRedirectionCommand :: "string \<Rightarrow> string option" where
  "isRedirectionCommand cmd_line =
     (let found1 = strstr cmd_line ''>''; found2 = strstr cmd_line ''>>'' in
      if found1 \<noteq> None \<and> found2 = None then Some ''>''
      else if found2 \<noteq> None then Some ''>>''
      else None)"

definition ltrim :: "string \<Rightarrow> string" where
  "ltrim s = (case find_first_not_of s WHITESPACE of None \<Rightarrow> [] | Some start \<Rightarrow> drop start s)"

definition rtrim :: "string \<Rightarrow> string" where
  "rtrim s = (case find_last_not_of s WHITESPACE of None \<Rightarrow> [] | Some end_pos \<Rightarrow> take (end_pos + 1) s)"

definition trim :: "string \<Rightarrow> string" where
  "trim s = rtrim (ltrim s)"

text \<open>
  The callers pass an array of 20 pointers. The words go to its first entries and a \<open>NULL\<close> behind them, so the
  call is defined for up to 19 words. The result is the list of the words; \<open>args[i]\<close> is word \<open>i\<close>, and \<open>NULL\<close> where the
  list ends.
\<close>

definition ARGS :: nat where
  "ARGS = 20"

definition parseCommandLine :: "string \<Rightarrow> string list option" where
  "parseCommandLine cmd_line =
     (let args = words (trim cmd_line) in if length args < ARGS then Some args else None)"

definition isBackgroundCommand :: "string \<Rightarrow> bool option" where
  "isBackgroundCommand cmd_line =
     do { i \<leftarrow> find_last_not_of cmd_line WHITESPACE; Some (cmd_line ! i = CHR ''&'') }"

text \<open>
  \<open>idx\<close> is an \<open>unsigned int\<close>, so the test for \<open>npos\<close> never holds: on a blank line the code reads
  \<open>cmd_line[4294967295]\<close>. The second search runs in the copy made before the sign was replaced, and finds the sign.
\<close>

definition removeBackgroundSign :: "string \<Rightarrow> string option" where
  "removeBackgroundSign cmd_line =
     do {
       idx \<leftarrow> find_last_not_of cmd_line WHITESPACE;
       if cmd_line ! idx \<noteq> CHR ''&'' then Some cmd_line
       else do {
         let replaced = cmd_line[idx := CHR '' ''];
         last_pos \<leftarrow> find_last_not_of (take (idx + 1) cmd_line) WHITESPACE;
         Some (take (last_pos + 1) replaced) } }"

text \<open>\<open>s.substr(0, s.find_first_of(cs))\<close> and the rest behind a sign of \<open>n\<close> characters found that way.\<close>

definition before_first_of :: "string \<Rightarrow> string \<Rightarrow> string" where
  "before_first_of s cs = take_upto (find_first_of s cs) s"

definition after_first_of :: "string \<Rightarrow> string \<Rightarrow> string" where
  "after_first_of s type = (case find_first_of s type of None \<Rightarrow> drop (length type - 1) s | Some i \<Rightarrow> drop (i + length type) s)"

subsection \<open>Lemmas\<close>

lemma isspace_WHITESPACE: "c \<in> set WHITESPACE \<longleftrightarrow> isspace c"
  by (auto simp: WHITESPACE_def isspace_def)

lemma ltrim_eq: "ltrim s = dropWhile isspace s"
proof (cases "find_first_not_of s WHITESPACE")
  case None
  then have "\<forall>x \<in> set s. isspace x"
    unfolding find_first_not_of_def index_if_None_iff isspace_WHITESPACE by simp
  then have "dropWhile isspace s = []" by (simp add: dropWhile_eq_Nil_conv)
  moreover have "ltrim s = []" using None by (simp add: ltrim_def)
  ultimately show ?thesis by (simp only:)
next
  case (Some i)
  then show ?thesis
    using index_if_dropWhile [of "\<lambda>x. x \<notin> set WHITESPACE" s i]
    by (simp add: ltrim_def find_first_not_of_def isspace_WHITESPACE)
qed

lemma last_not_of:
  "find_last_not_of s WHITESPACE =
     (if \<forall>c \<in> set s. isspace c then None else Some (length (dropWhile isspace (rev s)) - 1))"
proof (cases "find_first_not_of (rev s) WHITESPACE")
  case None
  then have "\<forall>x \<in> set s. isspace x"
    unfolding find_first_not_of_def index_if_None_iff isspace_WHITESPACE by simp
  then show ?thesis using None by (simp add: find_last_not_of_def)
next
  case (Some i)
  then have "\<not> (\<forall>c \<in> set s. isspace c)"
    using index_if_None_iff [of "\<lambda>x. x \<notin> set WHITESPACE" "rev s"]
    by (auto simp: find_first_not_of_def isspace_WHITESPACE)
  moreover have "dropWhile isspace (rev s) = drop i (rev s)"
    using Some index_if_dropWhile [of "\<lambda>x. x \<notin> set WHITESPACE" "rev s" i]
    by (simp add: find_first_not_of_def isspace_WHITESPACE)
  ultimately show ?thesis using Some by (simp add: find_last_not_of_def)
qed

lemma rtrim_eq: "rtrim s = rev (dropWhile isspace (rev s))"
proof (cases "\<forall>c \<in> set s. isspace c")
  case True
  then have "dropWhile isspace (rev s) = []" by (simp add: dropWhile_eq_Nil_conv)
  then show ?thesis using True by (simp add: rtrim_def last_not_of)
next
  case False
  then have "dropWhile isspace (rev s) \<noteq> []" by (auto simp: dropWhile_eq_Nil_conv)
  then have "length (dropWhile isspace (rev s)) - 1 + 1 = length (dropWhile isspace (rev s))"
    by (cases "dropWhile isspace (rev s)") auto
  moreover have "take (length (dropWhile isspace (rev s))) s = rev (dropWhile isspace (rev s))"
    by (metis append_eq_conv_conj dropWhile_eq_drop length_rev rev_append rev_rev_ident takeWhile_dropWhile_id)
  ultimately show ?thesis using False by (simp add: rtrim_def last_not_of)
qed

lemma words_space: "\<forall>c \<in> set u. isspace c \<Longrightarrow> words (u @ s) = words s"
  by (induction u) simp_all

lemma words_only_space: "\<forall>c \<in> set u. isspace c \<Longrightarrow> words u = []"
  using words_space [of u "[]"] by simp

lemma words_append_space:
  "\<forall>c \<in> set v. isspace c \<Longrightarrow> words (s @ v) = words s"
proof (induction s rule: words.induct)
  case 1
  then show ?case using words_only_space by simp
next
  case (2 c cs)
  show ?case
  proof (cases "isspace c")
    case True
    then show ?thesis using 2 by simp
  next
    case False
    have "takeWhile (\<lambda>c. \<not> isspace c) (cs @ v) = takeWhile (\<lambda>c. \<not> isspace c) cs"
    proof (cases "\<forall>x \<in> set cs. \<not> isspace x")
      case True
      then have "takeWhile (\<lambda>c. \<not> isspace c) cs = cs" by simp
      moreover have "takeWhile (\<lambda>c. \<not> isspace c) v = []" using 2(3) by (cases v) auto
      ultimately show ?thesis using True by (simp only: takeWhile_append append_Nil2 if_cancel)
    next
      case False
      then show ?thesis by (auto simp: takeWhile_append)
    qed
    moreover have "words (dropWhile (\<lambda>c. \<not> isspace c) (cs @ v)) = words (dropWhile (\<lambda>c. \<not> isspace c) cs)"
    proof (cases "\<forall>x \<in> set cs. \<not> isspace x")
      case True
      have d: "dropWhile (\<lambda>c. \<not> isspace c) cs = []" using True by (simp add: dropWhile_eq_Nil_conv)
      have "dropWhile (\<lambda>c. \<not> isspace c) v = v" using 2(3) by (cases v) auto
      then show ?thesis using words_only_space [OF 2(3)] True unfolding d by (simp add: dropWhile_append)
    next
      case ex: False
      then have "dropWhile (\<lambda>c. \<not> isspace c) (cs @ v) = dropWhile (\<lambda>c. \<not> isspace c) cs @ v"
        by (auto simp: dropWhile_append)
      then show ?thesis using 2(2) [OF False] 2(3) by simp
    qed
    ultimately show ?thesis using False by simp
  qed
qed

lemma trim_split:
  "\<exists>u v. s = u @ trim s @ v \<and> (\<forall>c \<in> set u. isspace c) \<and> (\<forall>c \<in> set v. isspace c)"
proof -
  let ?l = "dropWhile isspace s" let ?v = "rev (takeWhile isspace (rev ?l))"
  have "s = takeWhile isspace s @ ?l" by simp
  moreover have "?l = trim s @ ?v"
    by (simp add: trim_def ltrim_eq rtrim_eq) (metis rev_append rev_rev_ident takeWhile_dropWhile_id)
  ultimately have "s = takeWhile isspace s @ trim s @ ?v" by metis
  moreover have "\<forall>c \<in> set (takeWhile isspace s). isspace c" "\<forall>c \<in> set ?v. isspace c"
    by (auto dest: set_takeWhileD)
  ultimately show ?thesis by blast
qed

lemma words_trim: "words (trim s) = words s"
proof -
  obtain u v where s: "s = u @ trim s @ v" "\<forall>c \<in> set u. isspace c" "\<forall>c \<in> set v. isspace c"
    using trim_split by blast
  have "words (u @ trim s @ v) = words (trim s)" using words_space [OF s(2)] words_append_space [OF s(3)] by simp
  then show ?thesis using s(1) by simp
qed

lemma words_join:
  assumes "\<forall>w \<in> set ws. w \<noteq> [] \<and> (\<forall>c \<in> set w. \<not> isspace c)"
  shows "words (concat (map (\<lambda>w. w @ '' '') ws)) = ws"
  using assms
proof (induction ws)
  case (Cons w ws)
  then obtain c cs where w: "w = c # cs" "\<not> isspace c" "\<forall>x \<in> set cs. \<not> isspace x" by (cases w) auto
  let ?r = "'' '' @ concat (map (\<lambda>w. w @ '' '') ws)"
  have sp: "isspace (CHR '' '')" by (simp add: isspace_def)
  have "takeWhile (\<lambda>x. \<not> isspace x) (cs @ ?r) = cs" "dropWhile (\<lambda>x. \<not> isspace x) (cs @ ?r) = ?r"
    using w(3) sp by (simp_all add: takeWhile_append dropWhile_append)
  then have "words (w @ ?r) = w # words ?r" using w(1,2) by simp
  also have "words ?r = words (concat (map (\<lambda>w. w @ '' '') ws))" using sp by simp
  finally show ?case using Cons by simp
qed simp

subsection \<open>Properties\<close>

text \<open>
  Trimming: \<open>_trim\<close> takes exactly the white space at both ends: the line is the result between two runs of white
  space, the result neither starts nor ends with white space, and trimming again changes nothing.
\<close>

theorem trim_exact:
  "(\<exists>u v. s = u @ trim s @ v \<and> list_all isspace u \<and> list_all isspace v) \<and>
   (trim s = [] \<or> \<not> isspace (hd (trim s)) \<and> \<not> isspace (last (trim s))) \<and> trim (trim s) = trim s"
proof -
  have l: "dropWhile isspace (dropWhile isspace x) = dropWhile isspace x" for x
    by (simp add: dropWhile_eq_self_iff hd_dropWhile)
  let ?t = "trim s"
  have t: "?t = rev (dropWhile isspace (rev (dropWhile isspace s)))" by (simp add: trim_def ltrim_eq rtrim_eq)
  have last: "?t = [] \<or> \<not> isspace (last ?t)"
    unfolding t by (metis hd_dropWhile last_rev rev_is_Nil_conv)
  have hd: "?t = [] \<or> \<not> isspace (hd ?t)"
  proof (cases "?t = []")
    case False
    obtain v where v: "dropWhile isspace s = ?t @ v"
      unfolding t by (metis rev_append rev_rev_ident takeWhile_dropWhile_id)
    then have "hd (dropWhile isspace s) = hd ?t" "dropWhile isspace s \<noteq> []" using False by simp_all
    then show ?thesis by (metis hd_dropWhile)
  qed simp
  have "dropWhile isspace ?t = ?t" "dropWhile isspace (rev ?t) = rev ?t"
    using hd last by (auto simp: dropWhile_eq_self_iff hd_rev)
  then have "trim ?t = ?t" by (simp add: trim_def [of ?t] ltrim_eq rtrim_eq)
  then show ?thesis using hd last trim_split [of s] by (auto simp: list_all_iff)
qed

text \<open>
  Splitting: up to 19 words that are not empty and hold no white space, written one after the other with
  any white space in front and a space behind each, are read back exactly by \<open>_parseCommandLine\<close>.
\<close>

theorem parse_join:
  assumes "list_all (\<lambda>w. w \<noteq> [] \<and> list_all (\<lambda>c. \<not> isspace c) w) ws" "length ws < ARGS" "list_all isspace u"
  shows "parseCommandLine (u @ concat (map (\<lambda>w. w @ '' '') ws)) = Some ws"
proof -
  have "words (u @ concat (map (\<lambda>w. w @ '' '') ws)) = ws"
    using assms(1,3) words_space [of u] words_join [of ws] by (simp add: list_all_iff)
  then show ?thesis using assms(2) by (simp add: parseCommandLine_def words_trim Let_def)
qed

theorem parse_join_witness:
  "parseCommandLine (''  '' @ concat (map (\<lambda>w. w @ '' '') [''kill'', ''-9'', ''1''])) = Some [''kill'', ''-9'', ''1'']"
  by (rule parse_join) (simp_all add: isspace_def ARGS_def)

text \<open>
  The background sign: for a line that ends with \<open>&\<close> and white space, \<open>_removeBackgroundSign\<close> cuts the line behind
  the sign and leaves a space in its place. The comment says that the trailing spaces are removed too; they
  are not.
\<close>

theorem removeBackgroundSign_leaves_space:
  assumes "list_all isspace v"
  shows "removeBackgroundSign (u @ CHR ''&'' # v) = Some (u @ '' '')"
proof -
  have amp: "\<not> isspace (CHR ''&'')" by (simp add: isspace_def)
  have "dropWhile isspace (rev v @ CHR ''&'' # rev u) = CHR ''&'' # rev u"
    using assms amp by (simp add: dropWhile_append list_all_iff)
  then have f: "find_last_not_of (u @ CHR ''&'' # v) WHITESPACE = Some (length u)"
    using amp by (simp add: last_not_of)
  have g: "find_last_not_of (u @ [CHR ''&'']) WHITESPACE = Some (length u)"
    using amp by (simp add: last_not_of)
  show ?thesis unfolding removeBackgroundSign_def using f g by (simp add: nth_append list_update_append)
qed

theorem removeBackgroundSign_leaves_space_witness:
  "removeBackgroundSign (''sleep 10 '' @ CHR ''&'' # '' '') = Some (''sleep 10 '' @ '' '')"
  by (rule removeBackgroundSign_leaves_space) (simp add: isspace_def)

lemma last_not_of_index:
  assumes "find_last_not_of s WHITESPACE = Some i"
  shows "i < length s" "s ! i = CHR ''&'' \<Longrightarrow> find_last_not_of (take (i + 1) s) WHITESPACE \<noteq> None"
proof -
  have "\<not> (\<forall>c \<in> set s. isspace c)" using assms by (simp add: last_not_of split: if_splits)
  then have "dropWhile isspace (rev s) \<noteq> []" "i = length (dropWhile isspace (rev s)) - 1"
    using assms by (auto simp: last_not_of dropWhile_eq_Nil_conv split: if_splits)
  moreover have "length (dropWhile isspace (rev s)) \<le> length s" by (metis length_dropWhile_le length_rev)
  ultimately show i: "i < length s" by (cases "dropWhile isspace (rev s)") simp_all
  assume "s ! i = CHR ''&''"
  then have "CHR ''&'' \<in> set (take (i + 1) s)" using i by (metis add.commute in_set_conv_nth length_take less_add_one min_less_iff_conj nth_take)
  moreover have "\<not> isspace (CHR ''&'')" by (simp add: isspace_def)
  ultimately have "\<not> (\<forall>c \<in> set (take (i + 1) s). isspace c)" by blast
  then show "find_last_not_of (take (i + 1) s) WHITESPACE \<noteq> None" unfolding last_not_of by (metis option.distinct(1))
qed

text \<open>
  Blank lines: on an empty line or one of white space only, both functions for the background sign access the
  string outside its bounds, whatever the line; \<open>executeCommand\<close> calls the first one on every line.
\<close>

theorem background_blank:
  "(isBackgroundCommand s = None) = list_all isspace s \<and> (removeBackgroundSign s = None) = list_all isspace s"
proof (cases "find_last_not_of s WHITESPACE")
  case None
  then have "list_all isspace s" by (simp add: last_not_of list_all_iff split: if_splits)
  then show ?thesis using None by (simp add: isBackgroundCommand_def removeBackgroundSign_def)
next
  case (Some i)
  then have "\<not> list_all isspace s" by (simp add: last_not_of list_all_iff split: if_splits)
  moreover obtain j where "find_last_not_of (take (i + 1) s) WHITESPACE = Some j" if "s ! i = CHR ''&''"
    using last_not_of_index(2) [OF Some] by blast
  ultimately show ?thesis using Some by (simp add: isBackgroundCommand_def removeBackgroundSign_def)
qed

text \<open>
  Splitting at a pipe: the code looks for the first character of the sign, not for the sign. With
  \<open>|&\<close> a \<open>&\<close> in the first command is taken for the pipe: \<open>make a&b |& wc\<close> is cut into \<open>make a\<close> and the rest from the second
  character behind it on.
\<close>

theorem pipe_split_wrong:
  "isPipeCommand ''make a&b |& wc'' = Some ''|&'' \<and>
   before_first_of ''make a&b |& wc'' ''|&'' = ''make a'' \<and> after_first_of ''make a&b |& wc'' ''|&'' = '' |& wc''"
  by code_simp

end
