(* ===== verification/Jobs.thy ===== *)
theory Jobs
  imports Cmdline "HOL-Library.Multiset"
begin

text \<open>
  The jobs list and the list of timeouts of the shell (\<open>HW1Wet/Commands.h\<close> and \<open>Commands.cpp\<close>, lines 520 to 857).

  Command objects live in a store, since they are shared: a job, a timeout and the shell can refer to the same one. \<open>delete\<close>
  takes it out of the store, and \<open>None\<close> is an access to a deleted object or through an iterator that
  points at no element. The vectors are lists. \<open>waitpid\<close>, \<open>kill\<close> and \<open>time\<close> are arguments. Process ids and job ids
  are integers, as \<open>pid_t\<close> and \<open>int\<close>, in the range where nothing overflows.
\<close>

subsection \<open>Commands\<close>

datatype kind = ChPrompt | ShowPid | Pwd | Cd | Fg | Bg | ListJobs | Kill | Cat | Quit | Timeout | External

record command =
  cmd_line :: string
  foreground :: bool
  c_kind :: kind
  c_pid :: int

type_synonym store = "addr \<rightharpoonup> command"

definition delete_cmd :: "addr \<Rightarrow> store \<Rightarrow> store option" where
  "delete_cmd p st = (if st p = None then None else Some (st(p := None)))"

definition SetForeground :: "bool \<Rightarrow> addr \<Rightarrow> store \<Rightarrow> store option" where
  "SetForeground fg p st = do { c \<leftarrow> st p; Some (st(p \<mapsto> c\<lparr>foreground := fg\<rparr>)) }"

text \<open>Only external commands and timeouts have a process id; the others ignore \<open>SetPid\<close> and answer \<open>-1\<close>.\<close>

definition has_pid :: "kind \<Rightarrow> bool" where
  "has_pid k \<longleftrightarrow> k = External \<or> k = Timeout"

definition SetPid :: "int \<Rightarrow> addr \<Rightarrow> store \<Rightarrow> store option" where
  "SetPid new_pid p st = do { c \<leftarrow> st p; Some (if has_pid (c_kind c) then st(p \<mapsto> c\<lparr>c_pid := new_pid\<rparr>) else st) }"

definition GetPid :: "command \<Rightarrow> int" where
  "GetPid c = (if has_pid (c_kind c) then c_pid c else - 1)"

subsection \<open>What the shell does to the outside\<close>

text \<open>
  The lines printed to standard output and standard error, the messages of \<open>perror\<close> without the text of
  \<open>errno\<close>, raw output without a line end, the signals sent, the alarms set, the changes of directory.
\<close>

datatype event = Out string | Err string | Perror string | Raw string | Signal int int | Alarm int | Chdir string

definition SIGKILL :: int where "SIGKILL = 9"
definition SIGCONT :: int where "SIGCONT = 18"
definition SIGSTOP :: int where "SIGSTOP = 19"

subsection \<open>The jobs list\<close>

record job_entry =
  job_id :: int
  j_pid :: int
  j_cmd :: addr
  is_stopped :: bool
  j_time :: int

record jobs_list =
  entries :: "job_entry list"
  max_job_id :: int

definition init_jobs :: jobs_list where
  "init_jobs = \<lparr>entries = [], max_job_id = 0\<rparr>"

definition addJob :: "int \<Rightarrow> addr \<Rightarrow> int \<Rightarrow> bool \<Rightarrow> jobs_list \<Rightarrow> jobs_list" where
  "addJob now cmd pid isStopped js =
     (let new_job = \<lparr>job_id = max_job_id js + 1, j_pid = pid, j_cmd = cmd, is_stopped = isStopped, j_time = now\<rparr>
      in \<lparr>entries = entries js @ [new_job], max_job_id = max_job_id js + 1\<rparr>)"

text \<open>The loop of \<open>addJobWithId\<close>: it inserts before the first larger id, and nowhere if there is none.\<close>

fun insert_before :: "job_entry \<Rightarrow> job_entry list \<Rightarrow> job_entry list" where
  "insert_before new_job [] = []"
| "insert_before new_job (ir # rest) =
     (if job_id ir > job_id new_job then new_job # ir # rest else ir # insert_before new_job rest)"

definition addJobWithId :: "int \<Rightarrow> addr \<Rightarrow> int \<Rightarrow> int \<Rightarrow> bool \<Rightarrow> jobs_list \<Rightarrow> jobs_list" where
  "addJobWithId now cmd pid jid isStopped js =
     (let new_job = \<lparr>job_id = jid, j_pid = pid, j_cmd = cmd, is_stopped = isStopped, j_time = now\<rparr> in
      if max_job_id js < jid then \<lparr>entries = entries js @ [new_job], max_job_id = jid\<rparr>
      else js\<lparr>entries := insert_before new_job (entries js)\<rparr>)"

text \<open>\<open>showd\<close> is how a stream prints the \<open>double\<close> of \<open>difftime\<close>.\<close>

definition job_line :: "(int \<Rightarrow> string) \<Rightarrow> int \<Rightarrow> store \<Rightarrow> job_entry \<Rightarrow> string option" where
  "job_line showd now st e =
     do {
       c \<leftarrow> st (j_cmd e);
       Some (''['' @ show_int (job_id e) @ ''] '' @ cmd_line c @ '' : '' @ show_int (j_pid e) @ '' '' @
             showd (now - j_time e) @ '' secs'' @ (if is_stopped e then '' (stopped)'' else [])) }"

fun job_lines :: "(int \<Rightarrow> string) \<Rightarrow> int \<Rightarrow> store \<Rightarrow> job_entry list \<Rightarrow> event list option" where
  "job_lines showd now st [] = Some []"
| "job_lines showd now st (ir # rest) =
     do { l \<leftarrow> job_line showd now st ir; ls \<leftarrow> job_lines showd now st rest; Some (Out l # ls) }"

definition printJobsList :: "(int \<Rightarrow> string) \<Rightarrow> int \<Rightarrow> store \<Rightarrow> jobs_list \<Rightarrow> event list option" where
  "printJobsList showd now st js = job_lines showd now st (entries js)"

fun delete_all :: "job_entry list \<Rightarrow> store \<Rightarrow> store option" where
  "delete_all [] st = Some st"
| "delete_all (ir # rest) st = do { st \<leftarrow> delete_cmd (j_cmd ir) st; delete_all rest st }"

definition clearJobsList :: "jobs_list \<Rightarrow> store \<Rightarrow> (jobs_list \<times> store) option" where
  "clearJobsList js st = do { st \<leftarrow> delete_all (entries js) st; Some (js\<lparr>entries := []\<rparr>, st) }"

text \<open>
  \<open>killAllJobs\<close>: when a \<open>kill\<close> fails it returns at once, and the list keeps all its entries. \<open>kill pid sig\<close> is the
  result of the system call.
\<close>

fun kill_loop :: "(int \<Rightarrow> int \<Rightarrow> int) \<Rightarrow> job_entry list \<Rightarrow> store \<Rightarrow> (event list \<times> bool \<times> store) option" where
  "kill_loop kill [] st = Some ([], True, st)"
| "kill_loop kill (ir # rest) st =
     (if kill (j_pid ir) SIGKILL = - 1 then Some ([Perror ''smash error: kill failed''], False, st)
      else do {
        c \<leftarrow> st (j_cmd ir);
        st \<leftarrow> delete_cmd (j_cmd ir) st;
        (evs, finished, st) \<leftarrow> kill_loop kill rest st;
        Some (Signal (j_pid ir) SIGKILL # Out (show_int (j_pid ir) @ '': '' @ cmd_line c) # evs, finished, st) })"

definition killAllJobs :: "(int \<Rightarrow> int \<Rightarrow> int) \<Rightarrow> jobs_list \<Rightarrow> store \<Rightarrow> (event list \<times> jobs_list \<times> store) option" where
  "killAllJobs kill js st =
     do {
       (evs, finished, st) \<leftarrow> kill_loop kill (entries js) st;
       Some (Out (''smash: sending SIGKILL signal to '' @ show_nat (length (entries js)) @ '' jobs:'') # evs,
             if finished then js\<lparr>entries := []\<rparr> else js, st) }"

text \<open>
  \<open>removeFinishedJobs\<close>: the loop keeps the entries behind the iterator in \<open>passed\<close>. After \<open>erase\<close> the iterator is
  moved back by one, onto the last of them; at the first element it then points before the vector, from
  where the loop steps forward again. The C++ standard gives no meaning to an iterator whose element was erased, so the
  decrement alone is undefined (\<open>Standard\<close>). In the implementation iterators are pointers, and the loop does what it is
  meant to do as long as it does not read through one that points before the vector (\<open>Pointers\<close>); the shell is modelled with these.
  \<open>finished pid\<close> stands for \<open>waitpid(pid, NULL, WNOHANG) > 0\<close>.
\<close>

datatype iterators = Pointers | Standard

fun remove_loop :: "iterators \<Rightarrow> (int \<Rightarrow> bool) \<Rightarrow> job_entry list \<Rightarrow> job_entry list \<Rightarrow> int \<Rightarrow> store \<Rightarrow>
    (job_entry list \<times> int \<times> store) option" where
  "remove_loop it finished passed [] mx st = Some (passed, mx, st)"
| "remove_loop it finished passed (ir # rest) mx st =
     (if finished (j_pid ir) then do {
        st \<leftarrow> delete_cmd (j_cmd ir) st;
        if it = Standard then None
        else do {
          mx \<leftarrow> (if job_id ir = mx then
                   (if passed @ rest \<noteq> [] then (if passed = [] then None else Some (job_id (last passed))) else Some 0)
                 else Some mx);
          remove_loop it finished passed rest mx st } }
      else remove_loop it finished (passed @ [ir]) rest mx st)"

definition removeFinishedJobs :: "iterators \<Rightarrow> (int \<Rightarrow> bool) \<Rightarrow> jobs_list \<Rightarrow> store \<Rightarrow> (jobs_list \<times> store) option" where
  "removeFinishedJobs it finished js st =
     do {
       (es, mx, st) \<leftarrow> remove_loop it finished [] (entries js) (max_job_id js) st;
       Some (\<lparr>entries = es, max_job_id = mx\<rparr>, st) }"

definition getLastJob :: "jobs_list \<Rightarrow> job_entry option" where
  "getLastJob js = (if entries js = [] then None else Some (last (entries js)))"

definition getLastStoppedJob :: "jobs_list \<Rightarrow> job_entry option" where
  "getLastStoppedJob js = (if entries js = [] then None else find is_stopped (rev (entries js)))"

definition getJobById :: "int \<Rightarrow> jobs_list \<Rightarrow> job_entry option" where
  "getJobById jobId js = (if jobId \<le> 0 then None else find (\<lambda>ir. job_id ir = jobId) (entries js))"

definition getJobByPid :: "int \<Rightarrow> jobs_list \<Rightarrow> job_entry option" where
  "getJobByPid pid js = (if pid \<le> 0 then None else find (\<lambda>ir. j_pid ir = pid) (entries js))"

fun max_loop :: "int \<Rightarrow> job_entry list \<Rightarrow> int" where
  "max_loop mx [] = mx"
| "max_loop mx (ir # rest) = max_loop (if job_id ir > mx then job_id ir else mx) rest"

definition findMaxJobId :: "job_entry list \<Rightarrow> int" where
  "findMaxJobId es = max_loop 0 es"

fun erase_id :: "int \<Rightarrow> job_entry list \<Rightarrow> job_entry list option" where
  "erase_id jobId [] = None"
| "erase_id jobId (ir # rest) = (if job_id ir = jobId then Some rest else map_option ((#) ir) (erase_id jobId rest))"

definition removeJobById :: "int \<Rightarrow> jobs_list \<Rightarrow> jobs_list" where
  "removeJobById jobId js =
     (case erase_id jobId (entries js) of
        None \<Rightarrow> js
      | Some es \<Rightarrow> \<lparr>entries = es,
          max_job_id = (if es = [] then 0 else if jobId = max_job_id js then findMaxJobId es else max_job_id js)\<rparr>)"

text \<open>\<open>SetIsStopped\<close> on the entry that \<open>getJobById\<close> returns; the list shares it.\<close>

fun SetIsStopped :: "bool \<Rightarrow> int \<Rightarrow> job_entry list \<Rightarrow> job_entry list" where
  "SetIsStopped b jobId [] = []"
| "SetIsStopped b jobId (ir # rest) =
     (if job_id ir = jobId then ir\<lparr>is_stopped := b\<rparr> # rest else ir # SetIsStopped b jobId rest)"

subsection \<open>The list of timeouts\<close>

record time_entry =
  t_pid :: int
  t_cmd :: addr
  init_time :: int
  finish_time :: int

definition GetDuration :: "time_entry \<Rightarrow> int" where
  "GetDuration t = finish_time t - init_time t"

fun insert_time :: "time_entry \<Rightarrow> time_entry list \<Rightarrow> time_entry list" where
  "insert_time new_time [] = [new_time]"
| "insert_time new_time (ir # rest) =
     (if finish_time ir > finish_time new_time then new_time # ir # rest else ir # insert_time new_time rest)"

definition addToTimesList :: "int \<Rightarrow> addr \<Rightarrow> int \<Rightarrow> int \<Rightarrow> time_entry list \<Rightarrow> time_entry list" where
  "addToTimesList now cmd pid duration ts =
     insert_time \<lparr>t_pid = pid, t_cmd = cmd, init_time = now, finish_time = now + duration\<rparr> ts"

definition GetClosestAlarm :: "time_entry list \<Rightarrow> int" where
  "GetClosestAlarm ts = (case ts of [] \<Rightarrow> 0 | t # _ \<Rightarrow> GetDuration t)"

text \<open>The loop of \<open>killFinishedAlarms\<close> that drops what is over, and the alarm it sets for the first entry left.\<close>

fun drop_expired :: "int \<Rightarrow> time_entry list \<Rightarrow> time_entry list \<times> event list" where
  "drop_expired now [] = ([], [])"
| "drop_expired now (t # ts) =
     (if finish_time t - now \<le> 0 then drop_expired now ts else (t # ts, [Alarm (finish_time t - now)]))"

subsection \<open>The invariant of the jobs list\<close>

text \<open>Ids are positive and increase along the list, and \<open>max_job_id\<close> is the last one.\<close>

definition jobs_ok :: "jobs_list \<Rightarrow> bool" where
  "jobs_ok js \<longleftrightarrow> sorted_wrt (<) (map job_id (entries js)) \<and> list_all (\<lambda>e. 0 < job_id e) (entries js) \<and>
     max_job_id js = (if entries js = [] then 0 else job_id (last (entries js)))"

lemma jobs_okD:
  assumes "jobs_ok js"
  shows "sorted_wrt (<) (map job_id (entries js))" "list_all (\<lambda>e. 0 < job_id e) (entries js)"
    "max_job_id js = (if entries js = [] then 0 else job_id (last (entries js)))"
  using assms by (simp_all add: jobs_ok_def)

lemma below_last:
  assumes "sorted_wrt (<) (map job_id es)" "e \<in> set es"
  shows "job_id e \<le> job_id (last es)"
  using assms by (induction es rule: rev_induct) (auto simp: sorted_wrt_append)

lemma init_jobs_ok: "jobs_ok init_jobs"
  by (simp add: jobs_ok_def init_jobs_def)

lemma max_id_above:
  assumes "jobs_ok js"
  shows "0 \<le> max_job_id js" "\<forall>e \<in> set (entries js). job_id e \<le> max_job_id js"
proof -
  note j = jobs_okD [OF assms]
  show "0 \<le> max_job_id js" "\<forall>e \<in> set (entries js). job_id e \<le> max_job_id js"
    using j(2,3) below_last [OF j(1)] last_in_set [of "entries js"] by (auto simp: list_all_iff less_imp_le)
qed

lemma addJob_ok:
  assumes "jobs_ok js"
  shows "jobs_ok (addJob now cmd pid b js)"
  using jobs_okD(1,2) [OF assms] max_id_above [OF assms] by (auto simp: jobs_ok_def addJob_def sorted_wrt_append)

lemma max_loop_last:
  "sorted_wrt (<) (map job_id es) \<Longrightarrow> es \<noteq> [] \<Longrightarrow> m \<le> job_id (hd es) \<Longrightarrow> max_loop m es = job_id (last es)"
proof (induction es arbitrary: m)
  case (Cons e es)
  show ?case
  proof (cases "es = []")
    case False
    then have "job_id e \<le> job_id (hd es)" using Cons.prems(1) by (cases es) auto
    then show ?thesis using Cons False by (auto simp: max_def)
  qed (use Cons.prems in simp)
qed simp

lemma erase_id_Some: "erase_id i es = Some es' \<Longrightarrow> \<exists>xs e ys. es = xs @ e # ys \<and> es' = xs @ ys \<and> job_id e = i"
proof (induction es arbitrary: es')
  case (Cons a es)
  show ?case
  proof (cases "job_id a = i")
    case True
    then show ?thesis using Cons.prems by (intro exI [of _ "[]"] exI [of _ a] exI [of _ es]) simp
  next
    case False
    then obtain r where r: "erase_id i es = Some r" "es' = a # r" using Cons.prems by auto
    then obtain xs e ys where "es = xs @ e # ys" "r = xs @ ys" "job_id e = i" using Cons.IH by blast
    then show ?thesis using r by (intro exI [of _ "a # xs"] exI [of _ e] exI [of _ ys]) simp
  qed
qed simp

lemma erase_id_unique:
  assumes "sorted_wrt (<) (map job_id (xs @ e # ys))"
  shows "erase_id (job_id e) (xs @ e # ys) = Some (xs @ ys)"
proof -
  have "\<forall>x \<in> set xs. job_id x \<noteq> job_id e" using assms by (auto simp: sorted_wrt_append)
  then show ?thesis by (induction xs) auto
qed

lemma removeJobById_ok:
  assumes "jobs_ok js"
  shows "jobs_ok (removeJobById i js)"
proof (cases "erase_id i (entries js)")
  case None
  then show ?thesis using assms by (simp add: removeJobById_def)
next
  case (Some es)
  then obtain xs e ys where e: "entries js = xs @ e # ys" "es = xs @ ys" "job_id e = i" using erase_id_Some by blast
  note j = jobs_okD [OF assms]
  have so: "sorted_wrt (<) (map job_id es)" "list_all (\<lambda>e. 0 < job_id e) es"
    using j(1,2) e(1,2) by (auto simp: sorted_wrt_append)
  have "findMaxJobId es = job_id (last es)" if "es \<noteq> []"
    using max_loop_last [OF so(1) that, of 0] so(2) that by (cases es) (auto simp: findMaxJobId_def)
  moreover have "max_job_id js = job_id (last es)" if "es \<noteq> []" "i \<noteq> max_job_id js"
  proof -
    have "ys \<noteq> []" using that(2) j(3) e by auto
    then show ?thesis using j(3) e by simp
  qed
  ultimately show ?thesis using Some so by (auto simp: removeJobById_def jobs_ok_def)
qed

lemma insert_before_ok:
  assumes "sorted_wrt (<) (map job_id es)" "job_id n \<notin> job_id ` set es" "\<exists>e \<in> set es. job_id n < job_id e"
  shows "sorted_wrt (<) (map job_id (insert_before n es)) \<and> set (insert_before n es) = insert n (set es) \<and>
    insert_before n es \<noteq> [] \<and> last (insert_before n es) = last es"
  using assms
proof (induction es)
  case (Cons e es)
  show ?case
  proof (cases "job_id e > job_id n")
    case True
    then show ?thesis using Cons.prems(1) by auto
  next
    case False
    then have lt: "job_id e < job_id n" using Cons.prems(2) by (auto simp: image_iff)
    then have ex: "\<exists>e \<in> set es. job_id n < job_id e" using Cons.prems(3) by auto
    then have "es \<noteq> []" by auto
    with Cons.IH [OF _ _ ex] Cons.prems(1,2) lt show ?thesis by auto
  qed
qed simp

lemma addJobWithId_ok:
  assumes "jobs_ok js" "0 < i" "i \<notin> job_id ` set (entries js)"
  shows "jobs_ok (addJobWithId now cmd pid i b js)"
    "set (entries (addJobWithId now cmd pid i b js)) =
       insert \<lparr>job_id = i, j_pid = pid, j_cmd = cmd, is_stopped = b, j_time = now\<rparr> (set (entries js))"
proof -
  note j = jobs_okD [OF assms(1)]
  let ?n = "\<lparr>job_id = i, j_pid = pid, j_cmd = cmd, is_stopped = b, j_time = now\<rparr>"
  have "jobs_ok (addJobWithId now cmd pid i b js) \<and> set (entries (addJobWithId now cmd pid i b js)) = insert ?n (set (entries js))"
  proof (cases "max_job_id js < i")
    case True
    have "\<forall>e \<in> set (entries js). job_id e < i"
      using True below_last [OF j(1)] j(3) by (cases "entries js = []") fastforce+
    then show ?thesis using True j(1,2) assms(2) by (auto simp: addJobWithId_def jobs_ok_def sorted_wrt_append)
  next
    case False
    then have ne: "entries js \<noteq> []" using j(3) assms(2) by auto
    then have l: "last (entries js) \<in> set (entries js)" "max_job_id js = job_id (last (entries js))" using j(3) by auto
    have "job_id (last (entries js)) \<noteq> i" using assms(3) l(1) by blast
    then have "job_id ?n < job_id (last (entries js))" using False l(2) by simp
    then have ex: "\<exists>e \<in> set (entries js). job_id ?n < job_id e" using l(1) by blast
    have "job_id ?n \<notin> job_id ` set (entries js)" using assms(3) by simp
    from insert_before_ok [OF j(1) this ex] show ?thesis
      using False j(2) assms(2) l(2) by (auto simp: addJobWithId_def jobs_ok_def list_all_iff)
  qed
  then show "jobs_ok (addJobWithId now cmd pid i b js)"
    "set (entries (addJobWithId now cmd pid i b js)) = insert ?n (set (entries js))" by auto
qed

lemma SetIsStopped_ids: "map job_id (SetIsStopped b i es) = map job_id es"
  by (induction es) auto

lemma SetIsStopped_ok: "jobs_ok js \<Longrightarrow> jobs_ok (js\<lparr>entries := SetIsStopped b i (entries js)\<rparr>)"
proof -
  assume a: "jobs_ok js"
  have m: "map job_id (SetIsStopped b i (entries js)) = map job_id (entries js)" by (rule SetIsStopped_ids)
  then have n: "SetIsStopped b i (entries js) = [] \<longleftrightarrow> entries js = []" by (metis map_is_Nil_conv)
  moreover have "job_id (last (SetIsStopped b i (entries js))) = job_id (last (entries js))" if "entries js \<noteq> []"
    using that n m by (metis last_map)
  moreover have "list_all (\<lambda>e. 0 < job_id e) (SetIsStopped b i (entries js)) = list_all (\<lambda>e. 0 < job_id e) (entries js)"
    using arg_cong [OF m, of "list_all (\<lambda>x. 0 < x)"] by (simp only: list.pred_map comp_def)
  ultimately show ?thesis using a m by (simp add: jobs_ok_def)
qed

lemma delete_Some: "p \<in> dom st \<Longrightarrow> delete_cmd p st = Some (st(p := None))"
  by (auto simp: delete_cmd_def)

lemma remove_loop_ok:
  fixes finished :: "int \<Rightarrow> bool"
  assumes "sorted_wrt (<) (map job_id (passed @ todo))" "list_all (\<lambda>e. 0 < job_id e) (passed @ todo)"
    and "distinct (map j_cmd (passed @ todo))" "j_cmd ` set (passed @ todo) \<subseteq> dom st"
    and "mx = (if passed @ todo = [] then 0 else job_id (last (passed @ todo)))"
  defines "es \<equiv> passed @ filter (\<lambda>e. \<not> finished (j_pid e)) todo"
  shows "remove_loop Pointers finished passed todo mx st =
    Some (es, if es = [] then 0 else job_id (last es), st |` (- j_cmd ` {e \<in> set todo. finished (j_pid e)}))"
  using assms(1-5) unfolding es_def
proof (induction todo arbitrary: passed mx st)
  case Nil
  then show ?case by (simp add: restrict_map_def)
next
  case (Cons e todo)
  show ?case
  proof (cases "finished (j_pid e)")
    case False
    have "remove_loop Pointers finished (passed @ [e]) todo mx st = Some ((passed @ [e]) @ filter (\<lambda>e. \<not> finished (j_pid e)) todo,
        if (passed @ [e]) @ filter (\<lambda>e. \<not> finished (j_pid e)) todo = [] then 0 else
          job_id (last ((passed @ [e]) @ filter (\<lambda>e. \<not> finished (j_pid e)) todo)),
        st |` (- j_cmd ` {e \<in> set todo. finished (j_pid e)}))"
      using Cons.prems by (intro Cons.IH) auto
    moreover have "{x \<in> set (e # todo). finished (j_pid x)} = {x \<in> set todo. finished (j_pid x)}" using False by auto
    ultimately show ?thesis using False by simp
  next
    case True
    let ?st = "st(j_cmd e := None)"
    let ?mx = "if passed @ todo = [] then 0 else job_id (last (passed @ todo))"
    have ed: "j_cmd e \<in> dom st" using Cons.prems(4) by auto
    have m: "(if job_id e = mx then (if passed @ todo \<noteq> [] then (if passed = [] then None else Some (job_id (last passed))) else Some 0)
        else Some mx) = Some ?mx"
    proof (cases "todo = []")
      case t: True
      then have "mx = job_id e" using Cons.prems(5) by simp
      then show ?thesis using t by simp
    next
      case f: False
      then have mx: "mx = job_id (last todo)" "?mx = job_id (last todo)" using Cons.prems(5) by simp_all
      moreover have "job_id e < job_id (last todo)" using Cons.prems(1) f last_in_set [OF f] by (auto simp: sorted_wrt_append)
      ultimately show ?thesis using f by auto
    qed
    have IH: "remove_loop Pointers finished passed todo ?mx ?st = Some (passed @ filter (\<lambda>e. \<not> finished (j_pid e)) todo,
        if passed @ filter (\<lambda>e. \<not> finished (j_pid e)) todo = [] then 0 else
          job_id (last (passed @ filter (\<lambda>e. \<not> finished (j_pid e)) todo)),
        ?st |` (- j_cmd ` {e \<in> set todo. finished (j_pid e)}))"
    proof (rule Cons.IH)
      have "j_cmd e \<notin> j_cmd ` set (passed @ todo)" using Cons.prems(3) by auto
      moreover have "j_cmd ` set (passed @ todo) \<subseteq> dom st" using Cons.prems(4) by auto
      ultimately have "j_cmd ` set (passed @ todo) \<subseteq> dom st - {j_cmd e}" by (simp only: subset_Diff_insert Diff_empty simp_thms)
      moreover have "dom ?st = dom st - {j_cmd e}" by simp
      ultimately show "j_cmd ` set (passed @ todo) \<subseteq> dom ?st" by (simp only:)
    qed (use Cons.prems(1-3) in \<open>auto simp: sorted_wrt_append\<close>)
    have r: "?st |` (- j_cmd ` {e \<in> set todo. finished (j_pid e)}) = st |` (- j_cmd ` {x \<in> set (e # todo). finished (j_pid x)})"
      using True by (auto simp: restrict_map_def fun_eq_iff)
    show ?thesis using True m IH unfolding r by (simp add: delete_Some [OF ed])
  qed
qed

lemma removeFinishedJobs_eq:
  fixes finished :: "int \<Rightarrow> bool"
  assumes "jobs_ok js" "distinct (map j_cmd (entries js))" "j_cmd ` set (entries js) \<subseteq> dom st"
  defines "es \<equiv> filter (\<lambda>e. \<not> finished (j_pid e)) (entries js)"
  shows "removeFinishedJobs Pointers finished js st =
    Some (\<lparr>entries = es, max_job_id = (if es = [] then 0 else job_id (last es))\<rparr>,
      st |` (- j_cmd ` {e \<in> set (entries js). finished (j_pid e)}))"
proof -
  have "remove_loop Pointers finished [] (entries js) (max_job_id js) st = Some ([] @ es, if [] @ es = [] then 0 else job_id (last ([] @ es)),
      st |` (- j_cmd ` {e \<in> set (entries js). finished (j_pid e)}))"
    unfolding es_def by (rule remove_loop_ok) (use assms jobs_okD [OF assms(1)] in simp_all)
  then show ?thesis unfolding removeFinishedJobs_def by simp
qed

lemma filter_jobs_ok:
  fixes P :: "job_entry \<Rightarrow> bool"
  assumes "jobs_ok js"
  defines "es \<equiv> filter P (entries js)"
  shows "jobs_ok \<lparr>entries = es, max_job_id = (if es = [] then 0 else job_id (last es))\<rparr>"
proof -
  have "sorted_wrt (\<lambda>x y. job_id x < job_id y) es"
    using jobs_okD(1) [OF assms(1)] unfolding es_def sorted_wrt_map by (rule sorted_wrt_filter)
  then show ?thesis using jobs_okD(2) [OF assms(1)] by (auto simp: jobs_ok_def es_def sorted_wrt_map list_all_iff)
qed

lemma insert_time_ok:
  "sorted (map finish_time ts) \<Longrightarrow> sorted (map finish_time (insert_time n ts)) \<and> mset (insert_time n ts) = add_mset n (mset ts)"
proof (induction ts)
  case (Cons t ts)
  have "set (insert_time n ts) = insert n (set ts)" using Cons by (metis list.simps(15) mset.simps(2) set_mset_mset sorted_simps(2) list.simps(9))
  with Cons show ?case by auto
qed simp

lemma insert_before_mid:
  assumes "list_all (\<lambda>e. job_id e < job_id n) xs" "list_all (\<lambda>e. job_id n < job_id e) ys" "ys \<noteq> []"
  shows "insert_before n (xs @ ys) = xs @ n # ys"
proof -
  have "insert_before n ys = n # ys" using assms(2,3) by (cases ys) auto
  then show ?thesis using assms(1) by (induction xs) auto
qed

lemma find_append_new: "\<forall>x \<in> set xs. \<not> P x \<Longrightarrow> P y \<Longrightarrow> find P (xs @ [y]) = Some y"
  by (induction xs) auto

subsection \<open>The interface of a table of jobs\<close>

text \<open>
  What the shell relies on: adding a job under a new id or a given free one, taking one out, and reaping, which deletes the
  commands of the finished jobs. A table is tracked in a store when its jobs have different live commands; the operations keep
  it tracked.
\<close>

locale job_table =
  fixes ok :: "'t \<Rightarrow> bool" and items :: "'t \<Rightarrow> job_entry list"
    and add :: "int \<Rightarrow> addr \<Rightarrow> int \<Rightarrow> bool \<Rightarrow> 't \<Rightarrow> 't"
    and put :: "int \<Rightarrow> addr \<Rightarrow> int \<Rightarrow> int \<Rightarrow> bool \<Rightarrow> 't \<Rightarrow> 't"
    and del :: "int \<Rightarrow> 't \<Rightarrow> 't"
    and reap :: "(int \<Rightarrow> bool) \<Rightarrow> 't \<Rightarrow> store \<Rightarrow> ('t \<times> store) option"
  assumes ids: "ok t \<Longrightarrow> distinct (map job_id (items t)) \<and> (\<forall>j \<in> set (items t). 0 < job_id j)"
    and add_item: "ok t \<Longrightarrow> ok (add tm c p b t) \<and> (\<exists>n. j_cmd n = c \<and> set (items (add tm c p b t)) = insert n (set (items t)))"
    and put_item: "ok t \<Longrightarrow> 0 < i \<Longrightarrow> i \<notin> job_id ` set (items t) \<Longrightarrow>
      ok (put tm c p i b t) \<and> (\<exists>n. j_cmd n = c \<and> set (items (put tm c p i b t)) = insert n (set (items t)))"
    and del_item: "ok t \<Longrightarrow> j \<in> set (items t) \<Longrightarrow> ok (del (job_id j) t) \<and> set (items (del (job_id j) t)) = set (items t) - {j}"
    and reap_items: "ok t \<Longrightarrow> distinct (map j_cmd (items t)) \<Longrightarrow> j_cmd ` set (items t) \<subseteq> dom st \<Longrightarrow>
      \<exists>t'. reap fin t st = Some (t', st |` (- j_cmd ` {j \<in> set (items t). fin (j_pid j)})) \<and> ok t' \<and>
        items t' = filter (\<lambda>j. \<not> fin (j_pid j)) (items t)"
begin

definition tracked :: "'t \<Rightarrow> store \<Rightarrow> bool" where
  "tracked t st \<longleftrightarrow> ok t \<and> distinct (map j_cmd (items t)) \<and> j_cmd ` set (items t) \<subseteq> dom st"

lemma trackedI:
  assumes "ok t" "inj_on j_cmd (set (items t))" "j_cmd ` set (items t) \<subseteq> dom st"
  shows "tracked t st"
  using assms ids [of t] by (simp add: tracked_def distinct_map)

lemma tracked_inj: "tracked t st \<Longrightarrow> inj_on j_cmd (set (items t))"
  by (simp add: tracked_def distinct_map)

lemma tracked_grow:
  assumes "tracked t st" "ok u" "set (items u) = insert n (set (items t))" "j_cmd n \<in> dom st" "j_cmd n \<notin> j_cmd ` set (items t)"
  shows "tracked u st"
proof (rule trackedI [OF assms(2)])
  show "inj_on j_cmd (set (items u))" using tracked_inj [OF assms(1)] assms(3,5) by auto
  show "j_cmd ` set (items u) \<subseteq> dom st" using assms(1,3,4) by (auto simp: tracked_def)
qed

lemma add_tracked:
  assumes "tracked t st" "c \<in> dom st" "c \<notin> j_cmd ` set (items t)"
  shows "tracked (add tm c p b t) st"
proof -
  obtain n where "ok (add tm c p b t)" "j_cmd n = c" "set (items (add tm c p b t)) = insert n (set (items t))"
    using add_item [of t tm c p b] assms(1) by (auto simp: tracked_def)
  then show ?thesis using tracked_grow [OF assms(1)] assms(2,3) by blast
qed

lemma put_tracked:
  assumes "tracked t st" "c \<in> dom st" "c \<notin> j_cmd ` set (items t)" "0 < i" "i \<notin> job_id ` set (items t)"
  shows "tracked (put tm c p i b t) st"
proof -
  obtain n where "ok (put tm c p i b t)" "j_cmd n = c" "set (items (put tm c p i b t)) = insert n (set (items t))"
    using put_item [of t i tm c p b] assms(1,4,5) by (auto simp: tracked_def)
  then show ?thesis using tracked_grow [OF assms(1)] assms(2,3) by blast
qed

text \<open>The job that is taken out can be put back: its command is live and no other job has it, and its id is free.\<close>

lemma del_tracked:
  assumes "tracked t st" "j \<in> set (items t)"
  shows "tracked (del (job_id j) t) st" "j_cmd j \<in> dom st" "j_cmd j \<notin> j_cmd ` set (items (del (job_id j) t))"
    "0 < job_id j" "job_id j \<notin> job_id ` set (items (del (job_id j) t))"
proof -
  have ok: "ok t" using assms(1) by (simp add: tracked_def)
  note d = del_item [OF ok assms(2)]
  have inj: "inj_on j_cmd (set (items t))" "inj_on job_id (set (items t))"
    using tracked_inj [OF assms(1)] ids [OF ok] by (simp_all add: distinct_map)
  show "tracked (del (job_id j) t) st"
    using d assms(1) inj_on_subset [OF inj(1), of "set (items t) - {j}"] by (intro trackedI) (auto simp: tracked_def)
  show "j_cmd j \<in> dom st" using assms by (auto simp: tracked_def)
  show "j_cmd j \<notin> j_cmd ` set (items (del (job_id j) t))" "job_id j \<notin> job_id ` set (items (del (job_id j) t))"
    using d inj assms(2) by (auto dest: inj_onD)
  show "0 < job_id j" using ids [OF ok] assms(2) by blast
qed

lemma reap_tracked:
  assumes "tracked t st"
  shows "\<exists>t' st'. reap fin t st = Some (t', st') \<and> tracked t' st' \<and> items t' = filter (\<lambda>j. \<not> fin (j_pid j)) (items t) \<and>
    st' = st |` (- j_cmd ` {j \<in> set (items t). fin (j_pid j)})"
proof -
  let ?st = "st |` (- j_cmd ` {j \<in> set (items t). fin (j_pid j)})"
  obtain t' where t': "reap fin t st = Some (t', ?st)" "ok t'" "items t' = filter (\<lambda>j. \<not> fin (j_pid j)) (items t)"
    using reap_items [of t st fin] assms by (auto simp: tracked_def)
  note inj = tracked_inj [OF assms]
  have "tracked t' ?st"
  proof (rule trackedI [OF t'(2)])
    show "inj_on j_cmd (set (items t'))" using inj_on_subset [OF inj] t'(3) by auto
    show "j_cmd ` set (items t') \<subseteq> dom ?st" using inj assms t'(3) by (auto simp: tracked_def dest: inj_onD)
  qed
  then show ?thesis using t' by blast
qed

end

lemma removeJobById_set:
  assumes "jobs_ok js" "j \<in> set (entries js)"
  shows "set (entries (removeJobById (job_id j) js)) = set (entries js) - {j}"
proof -
  obtain xs ys where s: "entries js = xs @ j # ys" using assms(2) split_list by metis
  have "entries (removeJobById (job_id j) js) = xs @ ys"
    using erase_id_unique [of xs j ys] jobs_okD(1) [OF assms(1)] s by (simp add: removeJobById_def)
  moreover have "distinct (xs @ j # ys)" using jobs_okD(1) [OF assms(1)] s by (auto simp: strict_sorted_iff distinct_map)
  ultimately show ?thesis using s by auto
qed

interpretation jt: job_table jobs_ok entries addJob addJobWithId removeJobById "removeFinishedJobs Pointers"
proof (unfold_locales, goal_cases)
  case (1 t)
  then show ?case using jobs_okD(1,2) [of t] by (simp add: strict_sorted_iff list_all_iff)
next
  case (2 t tm c p b)
  let ?n = "\<lparr>job_id = max_job_id t + 1, j_pid = p, j_cmd = c, is_stopped = b, j_time = tm\<rparr>"
  have "j_cmd ?n = c \<and> set (entries (addJob tm c p b t)) = insert ?n (set (entries t))" by (simp add: addJob_def)
  then show ?case using addJob_ok [OF 2] by blast
next
  case (3 t i tm c p b)
  let ?n = "\<lparr>job_id = i, j_pid = p, j_cmd = c, is_stopped = b, j_time = tm\<rparr>"
  have "j_cmd ?n = c \<and> set (entries (addJobWithId tm c p i b t)) = insert ?n (set (entries t))"
    using addJobWithId_ok(2) [OF 3] by simp
  then show ?case using addJobWithId_ok(1) [OF 3] by blast
next
  case (4 t j)
  then show ?case using removeJobById_ok removeJobById_set by blast
next
  case (5 t st fin)
  let ?es = "filter (\<lambda>e. \<not> fin (j_pid e)) (entries t)"
  show ?case using removeFinishedJobs_eq [OF 5, of fin] filter_jobs_ok [OF 5(1), of "\<lambda>e. \<not> fin (j_pid e)"]
    by (intro exI [of _ "\<lparr>entries = ?es, max_job_id = (if ?es = [] then 0 else job_id (last ?es))\<rparr>"]) simp
qed
subsection \<open>Properties\<close>

lemma clearJobsList_max: "clearJobsList js st = Some (js', st') \<Longrightarrow> entries js' = [] \<and> max_job_id js' = max_job_id js"
  by (auto simp: clearJobsList_def bind_eq_Some_conv)

lemma killAllJobs_max:
  "killAllJobs kill js st = Some (evs, js', st') \<Longrightarrow> js' = js \<or> entries js' = [] \<and> max_job_id js' = max_job_id js"
  by (auto simp: killAllJobs_def bind_eq_Some_conv)

lemma emptied_ok:
  assumes "jobs_ok js" "entries js' = []" "max_job_id js' = max_job_id js"
  shows "jobs_ok js' \<longleftrightarrow> entries js = []"
proof -
  have "0 < max_job_id js" if "entries js \<noteq> []"
    using that jobs_okD(2,3) [OF assms(1)] last_in_set [OF that] by (simp add: list_all_iff)
  then show ?thesis using assms by (auto simp: jobs_ok_def)
qed

text \<open>
  C20. The jobs list while the shell runs: it starts well formed (ids positive and increasing, \<open>max_job_id\<close> the last id); adding a job,
  removing one by its id, stopping and resuming one, removing the finished ones, and adding one back under an id that is not in the
  list keep it so; what is added under an id is in the list afterwards. \<open>clearJobsList\<close> and \<open>killAllJobs\<close>, which only \<open>quit\<close> calls, empty the
  vector and leave \<open>max_job_id\<close> as it was, so after them the list is well formed only if there was no job (or, for \<open>killAllJobs\<close>,
  if a failing \<open>kill\<close> left it unchanged).
\<close>

theorem jobs_list_wellformed:
  assumes "jobs_ok js" "0 < i" "i \<notin> job_id ` set (entries js)"
  shows "jobs_ok init_jobs \<and> jobs_ok (addJob now cmd pid b js) \<and> jobs_ok (removeJobById k js) \<and>
    jobs_ok (js\<lparr>entries := SetIsStopped b k (entries js)\<rparr>) \<and> jobs_ok (addJobWithId now cmd pid i b js) \<and>
    \<lparr>job_id = i, j_pid = pid, j_cmd = cmd, is_stopped = b, j_time = now\<rparr> \<in> set (entries (addJobWithId now cmd pid i b js)) \<and>
    (\<forall>st js' st'. distinct (map j_cmd (entries js)) \<and> j_cmd ` set (entries js) \<subseteq> dom st \<and>
       removeFinishedJobs Pointers finished js st = Some (js', st') \<longrightarrow> jobs_ok js') \<and>
    (\<forall>st js' st'. clearJobsList js st = Some (js', st') \<longrightarrow> (jobs_ok js' \<longleftrightarrow> entries js = [])) \<and>
    (\<forall>kill st evs js' st'. killAllJobs kill js st = Some (evs, js', st') \<longrightarrow> (jobs_ok js' \<longleftrightarrow> js' = js \<or> entries js = []))"
proof -
  have "jobs_ok js'" if "distinct (map j_cmd (entries js))" "j_cmd ` set (entries js) \<subseteq> dom st"
      "removeFinishedJobs Pointers finished js st = Some (js', st')" for st js' st'
    using removeFinishedJobs_eq [OF assms(1) that(1,2), of finished] filter_jobs_ok [OF assms(1), of "\<lambda>e. \<not> finished (j_pid e)"] that(3)
    by auto
  moreover have "jobs_ok js' \<longleftrightarrow> entries js = []" if "clearJobsList js st = Some (js', st')" for st js' st'
    using emptied_ok [OF assms(1)] clearJobsList_max [OF that] by blast
  moreover have "jobs_ok js' \<longleftrightarrow> js' = js \<or> entries js = []" if "killAllJobs kill js st = Some (evs, js', st')" for kill st evs js' st'
    using emptied_ok [OF assms(1), of js'] killAllJobs_max [OF that] assms(1) by blast
  ultimately show ?thesis
    using init_jobs_ok addJob_ok [OF assms(1)] removeJobById_ok [OF assms(1)] SetIsStopped_ok [OF assms(1)] addJobWithId_ok [OF assms]
    by (intro conjI) auto
qed

theorem jobs_list_wellformed_witness:
  "jobs_ok (addJobWithId 5 7 100 2 True (addJob 3 6 99 False init_jobs))"
proof -
  have "jobs_ok (addJob 3 6 99 False init_jobs)" by (rule addJob_ok [OF init_jobs_ok])
  moreover have "(0 :: int) < 2" "2 \<notin> job_id ` set (entries (addJob 3 6 99 False init_jobs))"
    by (simp_all add: addJob_def init_jobs_def)
  ultimately show ?thesis using jobs_list_wellformed by blast
qed

text \<open>
  A new job gets an id above all others, and is found under it.
\<close>

theorem addJob_found:
  assumes "jobs_ok js"
  shows "list_all (\<lambda>e. job_id e < max_job_id js + 1) (entries js) \<and>
    getJobById (max_job_id js + 1) (addJob now cmd pid b js) =
      Some \<lparr>job_id = max_job_id js + 1, j_pid = pid, j_cmd = cmd, is_stopped = b, j_time = now\<rparr>"
proof -
  note m = max_id_above [OF assms]
  then have "\<forall>e \<in> set (entries js). job_id e \<noteq> max_job_id js + 1" by auto
  then show ?thesis using m
    by (auto simp: getJobById_def addJob_def list_all_iff intro!: find_append_new)
qed

theorem addJob_found_witness:
  "getJobById 1 (addJob 3 6 99 False init_jobs) = Some \<lparr>job_id = 1, j_pid = 99, j_cmd = 6, is_stopped = False, j_time = 3\<rparr>"
  using addJob_found [OF init_jobs_ok, of 3 6 99 False] by (simp add: init_jobs_def)

lemma remove_loop_standard:
  "remove_loop Standard fin passed es mx st = (if \<exists>e \<in> set es. fin (j_pid e) then None else Some (passed @ es, mx, st))"
  by (induction es arbitrary: passed) (auto split: option.splits simp: bind_eq_None_conv)

text \<open>
  C21. Finished jobs: with iterators that are pointers, as the implementation has them, \<open>removeFinishedJobs\<close> on a well-formed list whose
  commands are distinct live objects never reads through the pointer before the vector; it removes exactly the finished jobs,
  deletes their command objects and no others, and the list is well formed again, with \<open>max_job_id\<close> the largest id left. By the C++
  standard, which gives the erased iterator no meaning, the behaviour is undefined exactly when some job is finished.
\<close>

theorem removeFinishedJobs_exact:
  assumes "jobs_ok js" "distinct (map j_cmd (entries js))" "j_cmd ` set (entries js) \<subseteq> dom st"
  shows "(\<exists>js'. removeFinishedJobs Pointers finished js st =
        Some (js', st |` (- j_cmd ` {e \<in> set (entries js). finished (j_pid e)})) \<and>
      entries js' = filter (\<lambda>e. \<not> finished (j_pid e)) (entries js) \<and> jobs_ok js') \<and>
    (removeFinishedJobs Standard finished js st = None \<longleftrightarrow> (\<exists>e \<in> set (entries js). finished (j_pid e)))"
proof
  show "\<exists>js'. removeFinishedJobs Pointers finished js st =
        Some (js', st |` (- j_cmd ` {e \<in> set (entries js). finished (j_pid e)})) \<and>
      entries js' = filter (\<lambda>e. \<not> finished (j_pid e)) (entries js) \<and> jobs_ok js'"
    using removeFinishedJobs_eq [OF assms] filter_jobs_ok [OF assms(1), of "\<lambda>e. \<not> finished (j_pid e)"]
    by (intro exI conjI) auto
  show "removeFinishedJobs Standard finished js st = None \<longleftrightarrow> (\<exists>e \<in> set (entries js). finished (j_pid e))"
    by (simp add: removeFinishedJobs_def remove_loop_standard)
qed

theorem removeFinishedJobs_exact_witness:
  "\<exists>js' st'. removeFinishedJobs Pointers (\<lambda>p. p = 99) (addJob 4 7 100 False (addJob 3 6 99 False init_jobs))
     ([6 \<mapsto> \<lparr>cmd_line = ''a &'', foreground = False, c_kind = External, c_pid = 99\<rparr>,
       7 \<mapsto> \<lparr>cmd_line = ''b &'', foreground = False, c_kind = External, c_pid = 100\<rparr>]) = Some (js', st') \<and> map job_id (entries js') = [2]"
proof -
  let ?js = "addJob 4 7 100 False (addJob 3 6 99 False init_jobs)"
  let ?st = "[6 \<mapsto> \<lparr>cmd_line = ''a &'', foreground = False, c_kind = External, c_pid = 99\<rparr>,
       7 \<mapsto> \<lparr>cmd_line = ''b &'', foreground = False, c_kind = External, c_pid = 100\<rparr>]"
  have "jobs_ok ?js" by (intro addJob_ok init_jobs_ok)
  moreover have "distinct (map j_cmd (entries ?js))" "j_cmd ` set (entries ?js) \<subseteq> dom ?st"
    by (simp_all add: addJob_def init_jobs_def)
  ultimately obtain js' where "removeFinishedJobs Pointers (\<lambda>p. p = 99) ?js ?st =
        Some (js', ?st |` (- j_cmd ` {e \<in> set (entries ?js). j_pid e = 99}))"
      "entries js' = filter (\<lambda>e. \<not> j_pid e = 99) (entries ?js)"
    using removeFinishedJobs_exact [of ?js ?st "\<lambda>p. p = 99"] by blast
  then show ?thesis by (auto simp: addJob_def init_jobs_def)
qed



text \<open>
  The list of timeouts is a queue ordered by the time at which they end: adding one keeps the order and every entry.
\<close>

theorem addToTimesList_sorted:
  assumes "sorted (map finish_time ts)"
  shows "sorted (map finish_time (addToTimesList now cmd pid duration ts)) \<and>
    mset (addToTimesList now cmd pid duration ts) =
      add_mset \<lparr>t_pid = pid, t_cmd = cmd, init_time = now, finish_time = now + duration\<rparr> (mset ts)"
  using insert_time_ok [OF assms] by (simp add: addToTimesList_def)

theorem addToTimesList_sorted_witness:
  "sorted (map finish_time (addToTimesList 10 1 99 5 (addToTimesList 8 2 98 20 [])))"
proof -
  have "sorted (map finish_time (addToTimesList 8 2 98 20 []))" by (simp add: addToTimesList_def)
  then show ?thesis using addToTimesList_sorted by blast
qed

text \<open>
  The next alarm: the shell compares a new timeout with the length of the first one in the list, not
  with the time that is left of it. A timeout of 10 seconds that started 9 seconds ago, and so ends in one, does not keep
  a new one of 5 seconds from resetting the alarm.
\<close>

theorem closest_alarm_ignores_time:
  "GetClosestAlarm (addToTimesList t cmd pid 10 []) = 10 \<and>
   GetClosestAlarm (addToTimesList t cmd pid 10 []) > 5 \<and>
   finish_time (hd (addToTimesList t cmd pid 10 [])) - (t + 9) = 1"
  by (simp add: GetClosestAlarm_def addToTimesList_def GetDuration_def)

end
