(* ===== verification/Shell.thy ===== *)
theory Shell
  imports Jobs
begin

text \<open>
  The shell \<open>smash\<close> (\<open>HW1Wet/Commands.cpp\<close>, \<open>signals.cpp\<close>, \<open>smash.cpp\<close>): its commands, how a line is executed with pipes
  and redirections, the handlers of the signals, and one turn of the main loop.

  The model is the shell process. What the system answers while a line is handled is a record \<open>env\<close>; what the shell does
  to the outside is a list of events. The children only replace themselves by \<open>bash\<close>; what they run is
  \<open>child_argv\<close>, and for pipes their descriptor tables are computed. \<open>None\<close> is undefined behaviour: an access to a
  deleted command, a string made of a null pointer, an index outside a string or the array of arguments.
\<close>

subsection \<open>State\<close>

record shell =
  run :: bool
  prompt :: string
  prev_pwd :: string
  jobs :: jobs_list
  times :: "time_entry list"
  current_cmd :: addr
  shell_pid :: int
  cmds :: store
  next_addr :: addr
  fds :: "nat \<rightharpoonup> string"
  events :: "event list"

text \<open>
  The answers of the system: the time; which children a \<open>waitpid\<close> without waiting finds finished at the prompt, and which it finds
  finished when the command of the line asks again; the results of
  \<open>kill\<close>, of the first and the second \<open>fork\<close> in the parent, the signals that arrive while the
  shell waits for a child, each with its time and the children that are finished then; the result of that \<open>waitpid\<close>, with whether the child was stopped; the
  working directory, or \<open>None\<close> for a failing \<open>getcwd\<close>; \<open>chdir\<close>; the bytes of a file that can be opened for reading and
  writing; which files can be opened or created for output; which other calls fail, each call
  by its name and argument (a \<open>read\<close> or \<open>write\<close> of \<open>cat\<close> that fails does so at the first piece of a file); what is left
  in the memory of a destroyed string; how a \<open>double\<close> is printed.
\<close>

datatype sig = SIGINT | SIGTSTP | SIGALRM

record env =
  now :: int
  at_prompt :: "int \<Rightarrow> bool"
  finished :: "int \<Rightarrow> bool"
  kill_res :: "int \<Rightarrow> int \<Rightarrow> int"
  fork1 :: int
  fork2 :: int
  sigs :: "(sig \<times> int \<times> (int \<Rightarrow> bool)) list"
  wait_res :: "int \<Rightarrow> int \<times> bool"
  cwd :: "string option"
  chdir_res :: "string \<Rightarrow> int"
  open_res :: "string \<Rightarrow> string option"
  creat_ok :: "string \<Rightarrow> bool"
  fails :: "string \<Rightarrow> bool"
  stale :: "string \<Rightarrow> string"
  showd :: "int \<Rightarrow> string"

definition init_shell :: "int \<Rightarrow> shell" where
  "init_shell pid = \<lparr>run = True, prompt = ''smash> '', prev_pwd = [], jobs = init_jobs, times = [], current_cmd = NULL,
     shell_pid = pid, cmds = Map.empty, next_addr = 1, fds = [0 \<mapsto> ''stdin'', 1 \<mapsto> ''stdout'', 2 \<mapsto> ''stderr''], events = []\<rparr>"

definition say :: "event \<Rightarrow> shell \<Rightarrow> shell" where
  "say e s = s\<lparr>events := events s @ [e]\<rparr>"

definition sys_error :: "string \<Rightarrow> event" where
  "sys_error call = Perror (''smash error: '' @ call @ '' failed'')"

text \<open>The lowest free descriptor; the search needs no more steps than there are descriptors open.\<close>

fun lowest_fd :: "nat \<Rightarrow> nat \<Rightarrow> (nat \<rightharpoonup> string) \<Rightarrow> nat" where
  "lowest_fd 0 i t = i"
| "lowest_fd (Suc n) i t = (if t i = None then i else lowest_fd n (Suc i) t)"

definition MAX_FDS :: nat where
  "MAX_FDS = 1024"

definition new_fd :: "(nat \<rightharpoonup> string) \<Rightarrow> nat" where
  "new_fd t = lowest_fd MAX_FDS 0 t"

definition RemoveFinishedJobs :: "env \<Rightarrow> shell \<Rightarrow> shell option" where
  "RemoveFinishedJobs e s =
     do { (js, st) \<leftarrow> removeFinishedJobs Pointers (finished e) (jobs s) (cmds s); Some (s\<lparr>jobs := js, cmds := st\<rparr>) }"

subsection \<open>Creating commands\<close>

definition firstWord :: "string \<Rightarrow> string" where
  "firstWord line = before_first_of (trim line) [CHR '' '', CHR 0x0A, CHR ''>'', CHR ''|'', CHR ''&'']"

definition kind_of :: "string \<Rightarrow> kind" where
  "kind_of w =
     (if w = ''chprompt'' then ChPrompt else if w = ''showpid'' then ShowPid else if w = ''pwd'' then Pwd
      else if w = ''cd'' then Cd else if w = ''fg'' then Fg else if w = ''bg'' then Bg else if w = ''jobs'' then ListJobs
      else if w = ''kill'' then Kill else if w = ''cat'' then Cat else if w = ''quit'' then Quit
      else if w = ''timeout'' then Timeout else External)"

text \<open>\<open>args[i]\<close>: the word, or \<open>None\<close> for an entry that is a null pointer or was never written.\<close>

definition arg :: "nat \<Rightarrow> string list \<Rightarrow> string option" where
  "arg i args = (if i < length args then Some (args ! i) else None)"

text \<open>The constructor of \<open>ChPromptCommand\<close> sets the prompt.\<close>

definition chprompt :: "string \<Rightarrow> shell \<Rightarrow> shell option" where
  "chprompt line s =
     do {
       args \<leftarrow> parseCommandLine line;
       if args = [] then None
       else Some (s\<lparr>prompt := (case arg 1 args of None \<Rightarrow> ''smash> '' | Some w \<Rightarrow> w @ ''> '')\<rparr>) }"

definition CreateCommand :: "string \<Rightarrow> shell \<Rightarrow> (addr \<times> shell) option" where
  "CreateCommand line s =
     do {
       let k = kind_of (firstWord line);
       s \<leftarrow> (if k = ChPrompt then chprompt line s else Some s);
       let p = next_addr s;
       Some (p, s\<lparr>cmds := (cmds s)(p \<mapsto> \<lparr>cmd_line = line, foreground = True, c_kind = k, c_pid = - 1\<rparr>), next_addr := p + 1\<rparr>) }"

subsection \<open>Signals\<close>

definition ctrlZHandler :: "env \<Rightarrow> shell \<Rightarrow> shell option" where
  "ctrlZHandler e s =
     do {
       let s = say (Out ''smash: got ctrl-Z'') s;
       if current_cmd s = NULL then Some s
       else do {
         c \<leftarrow> cmds s (current_cmd s);
         if \<not> foreground c then Some s
         else if kill_res e (GetPid c) SIGSTOP = - 1 then Some (say (sys_error ''kill'') s)
         else do {
           let s = say (Signal (GetPid c) SIGSTOP) s;
           let s = say (Out (''smash: process '' @ show_int (GetPid c) @ '' was stopped'')) s;
           st \<leftarrow> SetForeground False (current_cmd s) (cmds s);
           Some (s\<lparr>cmds := st\<rparr>) } } }"

definition ctrlCHandler :: "env \<Rightarrow> shell \<Rightarrow> shell option" where
  "ctrlCHandler e s =
     do {
       let s = say (Out ''smash: got ctrl-C'') s;
       if current_cmd s = NULL then Some s
       else do {
         c \<leftarrow> cmds s (current_cmd s);
         if \<not> foreground c then Some s
         else if kill_res e (GetPid c) SIGKILL = - 1 then Some (say (sys_error ''kill'') s)
         else do {
           let s = say (Signal (GetPid c) SIGKILL) s;
           Some (say (Out (''smash: process '' @ show_int (GetPid c) @ '' was killed'')) s) } } }"

definition killFinishedAlarms :: "env \<Rightarrow> shell \<Rightarrow> shell option" where
  "killFinishedAlarms e s =
     (case times s of
        [] \<Rightarrow> Some s
      | front # _ \<Rightarrow>
          if finish_time front > now e then Some s
          else do {
            s \<leftarrow> RemoveFinishedJobs e s;
            let alive = (getJobByPid (t_pid front) (jobs s) \<noteq> None \<or> kill_res e (t_pid front) 0 = 0);
            c \<leftarrow> (if alive then map_option Some (cmds s (t_cmd front)) else Some None);
            let s = (case c of None \<Rightarrow> s | Some c \<Rightarrow> say (Out (''smash: '' @ cmd_line c @ '' timed out!'')) s);
            if alive \<and> kill_res e (t_pid front) SIGKILL = - 1 then Some (say (sys_error ''kill'') s)
            else do {
              let s = (if alive then say (Signal (t_pid front) SIGKILL) s else s);
              let (ts, evs) = drop_expired (now e) (times s);
              Some (s\<lparr>times := ts, events := events s @ evs\<rparr>) } })"

definition alarmHandler :: "env \<Rightarrow> shell \<Rightarrow> shell option" where
  "alarmHandler e s = killFinishedAlarms e (say (Out ''smash: got an alarm'') s)"

text \<open>
  A call that waits is interrupted by signals and goes on after their handlers returned: \<open>signal\<close> installs handlers that restart system
  calls, and \<open>sigaction\<close> is called with \<open>SA_RESTART\<close>.
\<close>

definition handle :: "env \<Rightarrow> sig \<Rightarrow> shell \<Rightarrow> shell option" where
  "handle e sg s = (case sg of SIGINT \<Rightarrow> ctrlCHandler e s | SIGTSTP \<Rightarrow> ctrlZHandler e s | SIGALRM \<Rightarrow> alarmHandler e s)"

fun handle_all :: "env \<Rightarrow> (sig \<times> int \<times> (int \<Rightarrow> bool)) list \<Rightarrow> shell \<Rightarrow> shell option" where
  "handle_all e [] s = Some s"
| "handle_all e ((sg, t, fin) # rest) s =
     do { s \<leftarrow> handle (e\<lparr>now := t, finished := fin\<rparr>) sg s; handle_all e rest s }"

subsection \<open>Built-in commands\<close>

definition exec_showpid :: "shell \<Rightarrow> shell" where
  "exec_showpid s = say (Out (''smash pid is '' @ show_int (shell_pid s))) s"

definition exec_pwd :: "env \<Rightarrow> shell \<Rightarrow> shell option" where
  "exec_pwd e s =
     do {
       res \<leftarrow> cwd e;
       let s = (if res = [] then say (sys_error ''getcwd'') s else s);
       Some (say (Out res) s) }"

definition exec_jobs :: "env \<Rightarrow> shell \<Rightarrow> shell option" where
  "exec_jobs e s =
     do {
       s \<leftarrow> RemoveFinishedJobs e s;
       ls \<leftarrow> printJobsList (showd e) (now e) (cmds s) (jobs s);
       Some (s\<lparr>events := events s @ ls\<rparr>) }"

definition exec_kill :: "env \<Rightarrow> string \<Rightarrow> shell \<Rightarrow> shell option" where
  "exec_kill e line s =
     do {
       args \<leftarrow> parseCommandLine line;
       let invalid = Some (say (Err ''smash error: kill: invalid arguments'') s);
       if length args \<noteq> 3 then invalid
       else if strstr (args ! 1) ''-'' \<noteq> Some 0 then invalid
       else do {
         let signal_c = stale e (drop 1 (args ! 1));
         if atoi signal_c = 0 \<or> atoi (args ! 2) = 0 then invalid
         else case getJobById (atoi (args ! 2)) (jobs s) of
           None \<Rightarrow> Some (say (Err (''smash error: kill: job-id '' @ args ! 2 @ '' does not exist'')) s)
         | Some curr_job \<Rightarrow> do {
             let signum = atoi signal_c;
             if kill_res e (j_pid curr_job) signum = - 1 then Some (say (sys_error ''kill'') s)
             else do {
               let s = say (Signal (j_pid curr_job) signum) s;
               let s = say (Out (''signal number '' @ show_int signum @ '' was sent to pid '' @ show_int (j_pid curr_job))) s;
               let set = (\<lambda>b s. s\<lparr>jobs := (jobs s)\<lparr>entries := SetIsStopped b (job_id curr_job) (entries (jobs s))\<rparr>\<rparr>);
               let s = (if signum = SIGCONT then set False s else s);
               Some (if signum = SIGSTOP then set True s else s) } } } }"

definition exec_cd :: "env \<Rightarrow> string \<Rightarrow> shell \<Rightarrow> shell option" where
  "exec_cd e line s =
     do {
       args \<leftarrow> parseCommandLine line;
       if length args = 1 then Some s
       else do {
         arg1 \<leftarrow> arg 1 args;
         if prev_pwd s = [] \<and> arg1 = ''-'' then Some (say (Err ''smash error: cd: OLDPWD not set'') s)
         else do {
           let s = (if length args > 2 then say (Err ''smash error: cd: too many arguments'') s else s);
           if length args \<noteq> 2 then Some s
           else do {
             let temp_prev = prev_pwd s;
             current_dir \<leftarrow> cwd e;
             let s = (if current_dir = [] then say (sys_error ''getcwd'') s else s);
             arg1 \<leftarrow> removeBackgroundSign arg1;
             if arg1 = ''-'' then do {
               let s = s\<lparr>prev_pwd := current_dir\<rparr>;
               Some (if chdir_res e temp_prev = - 1 then say (sys_error ''chdir'') s else say (Chdir temp_prev) s) }
             else if chdir_res e arg1 \<noteq> 0 then Some (say (sys_error ''chdir'') s)
             else Some (say (Chdir arg1) (s\<lparr>prev_pwd := current_dir\<rparr>)) } } } }"

text \<open>The loop of \<open>cat\<close>: 20 bytes at a time until fewer come, which for a file is its end.\<close>

function cat_chunks :: "string \<Rightarrow> string list" where
  "cat_chunks s = (if length s < 20 then [s] else take 20 s # cat_chunks (drop 20 s))"
  by pat_completeness auto
termination
  by (relation "measure length") auto

declare cat_chunks.simps [simp del]

fun cat_files :: "env \<Rightarrow> string list \<Rightarrow> shell \<Rightarrow> shell" where
  "cat_files e [] s = s"
| "cat_files e (w # ws) s =
     (if w = ''>'' \<or> w = ''>>'' \<or> w = ''|'' \<or> w = ''|&'' then s
      else case open_res e (trim w) of
        None \<Rightarrow> say (sys_error ''open'') s
      | Some content \<Rightarrow>
          let fd = new_fd (fds s); s = s\<lparr>fds := (fds s)(fd \<mapsto> trim w)\<rparr> in
          if fails e (''read '' @ w) then say (sys_error ''read'') s
          else if fails e (''write '' @ w) then say (sys_error ''write'') s
          else let s = s\<lparr>events := events s @ map Raw (cat_chunks content)\<rparr> in
          if fails e (''close '' @ w) then say (sys_error ''close'') s
          else cat_files e ws (s\<lparr>fds := (fds s)(fd := None)\<rparr>))"

definition exec_cat :: "env \<Rightarrow> string \<Rightarrow> shell \<Rightarrow> shell option" where
  "exec_cat e line s =
     do {
       args \<leftarrow> parseCommandLine line;
       let s = (if length args = 1 then say (Out ''smash error: cat: not enough arguments'') s else s);
       Some (cat_files e (drop 1 args) s) }"

definition exec_quit :: "env \<Rightarrow> string \<Rightarrow> shell \<Rightarrow> shell option" where
  "exec_quit e line s =
     do {
       args \<leftarrow> parseCommandLine line;
       s \<leftarrow> (if length args = 2 \<and> args ! 1 = ''kill'' then do {
               (evs, js, st) \<leftarrow> killAllJobs (kill_res e) (jobs s) (cmds s);
               Some (s\<lparr>jobs := js, cmds := st, events := events s @ evs\<rparr>) }
             else do {
               (js, st) \<leftarrow> clearJobsList (jobs s) (cmds s);
               Some (s\<lparr>jobs := js, cmds := st\<rparr>) });
       Some (s\<lparr>run := False\<rparr>) }"

text \<open>The choice of a job by \<open>fg\<close> and \<open>bg\<close>: the job, or the message.\<close>

definition choose_fg :: "string list \<Rightarrow> jobs_list \<Rightarrow> string + job_entry" where
  "choose_fg args js =
     (if length args = 1 then
        (case getLastJob js of None \<Rightarrow> Inl ''smash error: fg: jobs list is empty'' | Some j \<Rightarrow> Inr j)
      else if length args = 2 then
        (if atoi (args ! 1) = 0 then Inl ''smash error: fg: invalid arguments''
         else case getJobById (atoi (args ! 1)) js of
           None \<Rightarrow> Inl (''smash error: fg: job-id '' @ args ! 1 @ '' does not exist'')
         | Some j \<Rightarrow> Inr j)
      else Inl ''smash error: fg: invalid arguments'')"

definition choose_bg :: "string list \<Rightarrow> jobs_list \<Rightarrow> string + job_entry" where
  "choose_bg args js =
     (if length args = 1 then
        (case getLastStoppedJob js of None \<Rightarrow> Inl ''smash error: bg: there is no stopped jobs to resume'' | Some j \<Rightarrow> Inr j)
      else if length args = 2 then
        (if atoi (args ! 1) = 0 then Inl ''smash error: bg: invalid arguments''
         else case getJobById (atoi (args ! 1)) js of
           None \<Rightarrow> Inl (''smash error: bg: job-id '' @ args ! 1 @ '' does not exist'')
         | Some j \<Rightarrow>
             if \<not> is_stopped j then Inl (''smash error: bg: job-id '' @ args ! 1 @ '' is already running in the background'')
             else Inr j)
      else Inl ''smash error: bg: invalid arguments'')"

definition exec_fg :: "env \<Rightarrow> string \<Rightarrow> shell \<Rightarrow> shell option" where
  "exec_fg e line s =
     do {
       args \<leftarrow> parseCommandLine line;
       case choose_fg args (jobs s) of
         Inl msg \<Rightarrow> Some (say (Err msg) s)
       | Inr cur_job \<Rightarrow> do {
           let s = s\<lparr>jobs := removeJobById (job_id cur_job) (jobs s)\<rparr>;
           c \<leftarrow> cmds s (j_cmd cur_job);
           let s = say (Out (cmd_line c @ '' : '' @ show_int (j_pid cur_job) @ '' '')) s;
           st \<leftarrow> SetForeground True (j_cmd cur_job) (cmds s);
           let s = s\<lparr>cmds := st, current_cmd := j_cmd cur_job\<rparr>;
           if is_stopped cur_job \<and> kill_res e (j_pid cur_job) SIGCONT = - 1 then Some (say (sys_error ''kill'') s)
           else do {
             let s = (if is_stopped cur_job then say (Signal (j_pid cur_job) SIGCONT) s else s);
             s \<leftarrow> handle_all e (sigs e) s;
             let (r, stopped) = wait_res e (j_pid cur_job);
             if r = - 1 then Some (say (sys_error ''waitpid'') s)
             else if stopped then do {
               s \<leftarrow> RemoveFinishedJobs e s;
               Some (s\<lparr>jobs := addJobWithId (now e) (current_cmd s) (j_pid cur_job) (job_id cur_job) True (jobs s)\<rparr>) }
             else Some s } } }"

definition exec_bg :: "env \<Rightarrow> string \<Rightarrow> shell \<Rightarrow> shell option" where
  "exec_bg e line s =
     do {
       args \<leftarrow> parseCommandLine line;
       case choose_bg args (jobs s) of
         Inl msg \<Rightarrow> Some (say (Err msg) s)
       | Inr cur_job \<Rightarrow> do {
           c \<leftarrow> cmds s (j_cmd cur_job);
           let s = say (Out (cmd_line c @ '' : '' @ show_int (j_pid cur_job) @ '' '')) s;
           if kill_res e (j_pid cur_job) SIGCONT = - 1 then Some (say (sys_error ''kill'') s)
           else Some ((say (Signal (j_pid cur_job) SIGCONT) s)
             \<lparr>jobs := (jobs s)\<lparr>entries := SetIsStopped False (job_id cur_job) (entries (jobs s))\<rparr>\<rparr>) } }"

text \<open>\<open>execute\<close> of a built-in command in the shell.\<close>

definition execute :: "env \<Rightarrow> kind \<Rightarrow> string \<Rightarrow> shell \<Rightarrow> shell option" where
  "execute e k line s =
     (case k of
        ChPrompt \<Rightarrow> Some s
      | ShowPid \<Rightarrow> Some (exec_showpid s)
      | Pwd \<Rightarrow> exec_pwd e s
      | Cd \<Rightarrow> exec_cd e line s
      | Fg \<Rightarrow> exec_fg e line s
      | Bg \<Rightarrow> exec_bg e line s
      | ListJobs \<Rightarrow> exec_jobs e s
      | Kill \<Rightarrow> exec_kill e line s
      | Cat \<Rightarrow> exec_cat e line s
      | Quit \<Rightarrow> exec_quit e line s
      | Timeout \<Rightarrow> None
      | External \<Rightarrow> None)"

text \<open>What a child runs: the arguments of \<open>execvp\<close> in \<open>ExternalCommand::execute\<close> and \<open>TimeoutCommand::execute\<close>.\<close>

definition external_argv :: "string \<Rightarrow> string list option" where
  "external_argv line = do { c \<leftarrow> removeBackgroundSign line; Some [''/bin/bash'', ''-c'', c] }"

definition timeout_argv :: "string \<Rightarrow> string list option" where
  "timeout_argv line =
     do {
       args \<leftarrow> parseCommandLine line;
       args2 \<leftarrow> arg 2 args;
       pos \<leftarrow> strstr line args2;
       c \<leftarrow> removeBackgroundSign (trim (drop pos line));
       Some [''/bin/bash'', ''-c'', c] }"

subsection \<open>Pipes\<close>

text \<open>
  The descriptor tables of the two children of a pipe with ends \<open>rd\<close> and \<open>wr\<close>: \<open>dup2\<close> onto the stream, then both ends are
  closed.
\<close>

definition pipe_child1 :: "string \<Rightarrow> nat \<Rightarrow> nat \<Rightarrow> (nat \<rightharpoonup> string) \<Rightarrow> (nat \<rightharpoonup> string)" where
  "pipe_child1 type rd wr t =
     (let t = (if type = ''|&'' then t(2 := t wr) else t(1 := t wr)) in (t(rd := None))(wr := None))"

definition pipe_child2 :: "nat \<Rightarrow> nat \<Rightarrow> (nat \<rightharpoonup> string) \<Rightarrow> (nat \<rightharpoonup> string)" where
  "pipe_child2 rd wr t = (let t = t(0 := t rd) in (t(rd := None))(wr := None))"

text \<open>
  What the children do before they run their command. When a call fails, \<open>DO_SYS\<close> returns from the function, also in
  a child: it reports the call and goes on as a second shell, with the descriptors it has by then (\<open>Inl\<close>).
\<close>

definition start_child1 :: "env \<Rightarrow> string \<Rightarrow> nat \<Rightarrow> nat \<Rightarrow> (nat \<rightharpoonup> string) \<Rightarrow> (event \<times> (nat \<rightharpoonup> string)) + (nat \<rightharpoonup> string)" where
  "start_child1 e type rd wr t =
     (let t1 = (if type = ''|&'' then t(2 := t wr) else t(1 := t wr)) in
      if fails e ''dup2 in child 1'' then Inl (sys_error ''dup2'', t)
      else if fails e ''close fd[0] in child 1'' then Inl (sys_error ''close'', t1)
      else if fails e ''close fd[1] in child 1'' then Inl (sys_error ''close'', t1(rd := None))
      else if fails e ''setpgrp in child 1'' then Inl (sys_error ''setpgrp'', pipe_child1 type rd wr t)
      else Inr (pipe_child1 type rd wr t))"

definition start_child2 :: "env \<Rightarrow> nat \<Rightarrow> nat \<Rightarrow> (nat \<rightharpoonup> string) \<Rightarrow> (event \<times> (nat \<rightharpoonup> string)) + (nat \<rightharpoonup> string)" where
  "start_child2 e rd wr t =
     (let t1 = t(0 := t rd) in
      if fails e ''dup2 in child 2'' then Inl (sys_error ''dup2'', t)
      else if fails e ''close fd[0] in child 2'' then Inl (sys_error ''close'', t1)
      else if fails e ''close fd[1] in child 2'' then Inl (sys_error ''close'', t1(rd := None))
      else if fails e ''setpgrp in child 2'' then Inl (sys_error ''setpgrp'', pipe_child2 rd wr t)
      else Inr (pipe_child2 rd wr t))"

text \<open>The child of an external command, which keeps the descriptors of the shell.\<close>

definition start_child :: "env \<Rightarrow> (nat \<rightharpoonup> string) \<Rightarrow> (event \<times> (nat \<rightharpoonup> string)) + (nat \<rightharpoonup> string)" where
  "start_child e t = (if fails e ''setpgrp in child'' then Inl (sys_error ''setpgrp'', t) else Inr t)"

text \<open>The parent: both commands are created, two children forked, the ends closed, and both children waited for.\<close>

definition open_pipe :: "shell \<Rightarrow> nat \<times> nat \<times> shell" where
  "open_pipe s =
     (let rd = new_fd (fds s); t = (fds s)(rd \<mapsto> ''pipe read''); wr = new_fd t in
      (rd, wr, s\<lparr>fds := t(wr \<mapsto> ''pipe write'')\<rparr>))"

definition wait_pipe :: "env \<Rightarrow> shell \<Rightarrow> shell option" where
  "wait_pipe e s =
     do {
       s \<leftarrow> handle_all e (sigs e) s;
       Some (if fst (wait_res e (fork1 e)) = - 1 then say (sys_error ''waitpid'') s
             else if fst (wait_res e (fork2 e)) = - 1 then say (sys_error ''waitpid'') s
             else s) }"

definition executePipeCommand :: "env \<Rightarrow> string \<Rightarrow> string \<Rightarrow> shell \<Rightarrow> shell option" where
  "executePipeCommand e line type s =
     (if fails e ''pipe'' then Some (say (sys_error ''pipe'') s)
      else do {
        let (rd, wr, s) = open_pipe s;
        (cmd_1, s) \<leftarrow> CreateCommand (before_first_of line type) s;
        (cmd_2, s) \<leftarrow> CreateCommand (after_first_of line type) s;
        let s = (if fork1 e = - 1 then say (sys_error ''open'') s else s);
        let s = (if fork2 e = - 1 then say (sys_error ''open'') s else s);
        if fails e ''close fd[0]'' then Some (say (sys_error ''close'') s)
        else do {
          let s = s\<lparr>fds := (fds s)(rd := None)\<rparr>;
          if fails e ''close fd[1]'' then Some (say (sys_error ''close'') s)
          else wait_pipe e (s\<lparr>fds := (fds s)(wr := None)\<rparr>) } })"

subsection \<open>Redirections\<close>

text \<open>
  The descriptor table names for each descriptor what it was opened for; the file of a redirection with its mode. The result is the saved standard output, or \<open>None\<close> for \<open>-1\<close>, the line that is left, and the state.
\<close>

definition prepareRedirectionCommand :: "env \<Rightarrow> string \<Rightarrow> string \<Rightarrow> shell \<Rightarrow> nat option \<times> string \<times> shell" where
  "prepareRedirectionCommand e line type s =
     (let rest = before_first_of line type; file_name = trim (after_first_of line type) in
      if fails e ''dup'' then (None, rest, say (sys_error ''dup'') s)
      else
        let fd_stdout = new_fd (fds s); s = s\<lparr>fds := (fds s)(fd_stdout := fds s 1)\<rparr> in
        if fails e ''close 1'' then (None, rest, say (sys_error ''close'') (s\<lparr>fds := (fds s)(fd_stdout := None)\<rparr>))
        else
          let s = s\<lparr>fds := (fds s)(1 := None)\<rparr> in
          let mode = (if type = ''>>'' then ''append '' else ''truncate '') in
          if \<not> creat_ok e file_name then (None, rest, (say (sys_error ''open'') s)\<lparr>fds := (fds s)(1 := fds s fd_stdout)\<rparr>)
          else (Some fd_stdout, rest, s\<lparr>fds := (fds s)(new_fd (fds s) \<mapsto> mode @ file_name)\<rparr>))"

definition restore_stdout :: "env \<Rightarrow> nat \<Rightarrow> shell \<Rightarrow> shell" where
  "restore_stdout e fd_stdout s =
     (if fails e ''dup2'' then say (sys_error ''dup2'') s
      else
        let s = s\<lparr>fds := (fds s)(1 := fds s fd_stdout)\<rparr> in
        if fails e ''close fd_stdout'' then say (sys_error ''close'') s
        else s\<lparr>fds := (fds s)(fd_stdout := None)\<rparr>)"

subsection \<open>Executing a line\<close>

text \<open>The part of the parent that registers a timeout.\<close>

definition register_timeout :: "env \<Rightarrow> addr \<Rightarrow> int \<Rightarrow> shell \<Rightarrow> shell option" where
  "register_timeout e cmd pid s =
     do {
       c \<leftarrow> cmds s cmd;
       args \<leftarrow> parseCommandLine (cmd_line c);
       a \<leftarrow> arg 1 args;
       let duration = atoi a;
       let s = (if GetClosestAlarm (times s) = 0 \<or> GetClosestAlarm (times s) > duration then say (Alarm duration) s else s);
       Some (s\<lparr>times := addToTimesList (now e) cmd pid duration (times s)\<rparr>) }"

text \<open>An external command or a timeout is started: the parent records the process and, for a timeout, when it ends.\<close>

definition start_external :: "env \<Rightarrow> bool \<Rightarrow> addr \<Rightarrow> kind \<Rightarrow> shell \<Rightarrow> shell option" where
  "start_external e is_background cmd k s =
     do {
       st \<leftarrow> (if is_background then SetForeground False cmd (cmds s) else Some (cmds s));
       let s = s\<lparr>cmds := st, current_cmd := cmd\<rparr>;
       let pid = fork1 e;
       let s = (if pid = - 1 then say (sys_error ''fork'') s else s);
       st \<leftarrow> SetPid pid cmd (cmds s);
       let s = s\<lparr>cmds := st\<rparr>;
       if k = Timeout then register_timeout e cmd pid s else Some s }"

text \<open>
  The rest: in the background it becomes a job; in the foreground the shell waits, and a stopped command becomes a job. The flag
  of the result says whether the code goes on to the end of \<open>executeCommand\<close>, where the standard output is
  restored, or returns before.
\<close>

definition finish_external :: "env \<Rightarrow> bool \<Rightarrow> addr \<Rightarrow> int \<Rightarrow> shell \<Rightarrow> (bool \<times> shell) option" where
  "finish_external e is_background cmd pid s =
     (if is_background then do {
        s \<leftarrow> RemoveFinishedJobs e s;
        Some (True, s\<lparr>jobs := addJob (now e) cmd pid False (jobs s)\<rparr>) }
      else do {
        s \<leftarrow> handle_all e (sigs e) s;
        let (r, stopped) = wait_res e pid;
        if r = - 1 then Some (False, say (sys_error ''waitpid'') s)
        else if stopped then do {
          s \<leftarrow> RemoveFinishedJobs e s;
          Some (False, s\<lparr>jobs := addJob (now e) cmd pid True (jobs s)\<rparr>) }
        else Some (True, s) })"

definition run_external :: "env \<Rightarrow> bool \<Rightarrow> addr \<Rightarrow> kind \<Rightarrow> shell \<Rightarrow> (bool \<times> shell) option" where
  "run_external e is_background cmd k s =
     do { s \<leftarrow> start_external e is_background cmd k s; finish_external e is_background cmd (fork1 e) s }"

text \<open>The command of a line without a pipe, after the redirection was prepared.\<close>

definition run_command :: "env \<Rightarrow> bool \<Rightarrow> string \<Rightarrow> shell \<Rightarrow> (bool \<times> shell) option" where
  "run_command e is_background line s =
     do {
       (cmd, s) \<leftarrow> CreateCommand line s;
       c \<leftarrow> cmds s cmd;
       if has_pid (c_kind c) then run_external e is_background cmd (c_kind c) s
       else do { s \<leftarrow> execute e (c_kind c) line s; Some (True, s) } }"

definition executeCommand :: "env \<Rightarrow> string \<Rightarrow> shell \<Rightarrow> shell option" where
  "executeCommand e line s =
     do {
       is_background \<leftarrow> isBackgroundCommand line;
       case isPipeCommand line of
         Some type \<Rightarrow> executePipeCommand e line type s
       | None \<Rightarrow>
           (case isRedirectionCommand line of
              None \<Rightarrow> map_option snd (run_command e is_background line s)
            | Some type \<Rightarrow>
                (case prepareRedirectionCommand e line type s of
                   (None, rest, s) \<Rightarrow> Some s
                 | (Some fd_stdout, rest, s) \<Rightarrow> do {
                     (to_end, s) \<leftarrow> run_command e is_background rest s;
                     Some (if to_end then restore_stdout e fd_stdout s else s) })) }"

subsection \<open>The main loop\<close>

text \<open>One turn of the main loop, for a line that was read.\<close>

definition main_turn :: "env \<Rightarrow> string \<Rightarrow> shell \<Rightarrow> shell option" where
  "main_turn e line s =
     do {
       let s = say (Raw (prompt s)) s;
       s \<leftarrow> RemoveFinishedJobs (e\<lparr>finished := at_prompt e\<rparr>) s;
       s \<leftarrow> executeCommand e line s;
       if current_cmd s = NULL then Some s
       else do {
         st \<leftarrow> SetForeground False (current_cmd s) (cmds s);
         Some (s\<lparr>cmds := st\<rparr>) } }"

fun main_loop :: "(env \<times> string) list \<Rightarrow> shell \<Rightarrow> shell option" where
  "main_loop [] s = Some s"
| "main_loop ((e, line) # rest) s = (if run s then do { s \<leftarrow> main_turn e line s; main_loop rest s } else Some s)"

end
