(* ===== verification/Shell_Safe.thy ===== *)
theory Shell_Safe
  imports Shell
begin

text \<open>
  The invariant of the shell: the jobs list is well formed and each job has its own live command object. Every command, every
  line, every turn of the main loop and every signal handler keeps it while the shell runs; and at the prompt no
  command is in the foreground.
\<close>

subsection \<open>The invariant\<close>

text \<open>The jobs are tracked in the store of commands, and addresses are given out in order.\<close>

definition shell_ok :: "shell \<Rightarrow> bool" where
  "shell_ok s \<longleftrightarrow> jt.tracked (jobs s) (cmds s) \<and> (\<forall>p \<in> dom (cmds s). p < next_addr s)"

lemma shell_okD:
  assumes "shell_ok s"
  shows "jobs_ok (jobs s)" "distinct (map j_cmd (entries (jobs s)))" "j_cmd ` set (entries (jobs s)) \<subseteq> dom (cmds s)"
    "\<And>p. p \<in> dom (cmds s) \<Longrightarrow> p < next_addr s" "jt.tracked (jobs s) (cmds s)"
  using assms by (simp_all add: shell_ok_def jt.tracked_def)

lemma shell_ok_frame [simp]:
  "shell_ok (s\<lparr>run := a\<rparr>) = shell_ok s" "shell_ok (s\<lparr>prompt := b\<rparr>) = shell_ok s" "shell_ok (s\<lparr>prev_pwd := b\<rparr>) = shell_ok s"
  "shell_ok (s\<lparr>times := c\<rparr>) = shell_ok s" "shell_ok (s\<lparr>current_cmd := d\<rparr>) = shell_ok s" "shell_ok (s\<lparr>fds := f\<rparr>) = shell_ok s"
  "shell_ok (s\<lparr>events := g\<rparr>) = shell_ok s"
  by (simp_all add: shell_ok_def)

lemma say_simps [simp]:
  "jobs (say v s) = jobs s" "cmds (say v s) = cmds s" "next_addr (say v s) = next_addr s" "fds (say v s) = fds s"
  "current_cmd (say v s) = current_cmd s" "run (say v s) = run s" "times (say v s) = times s" "prompt (say v s) = prompt s"
  "prev_pwd (say v s) = prev_pwd s" "shell_pid (say v s) = shell_pid s" "events (say v s) = events s @ [v]"
  by (simp_all add: say_def)

lemma say_upd [simp]:
  "(say v s)\<lparr>jobs := a\<rparr> = say v (s\<lparr>jobs := a\<rparr>)" "(say v s)\<lparr>cmds := b\<rparr> = say v (s\<lparr>cmds := b\<rparr>)"
  "(say v s)\<lparr>fds := c\<rparr> = say v (s\<lparr>fds := c\<rparr>)" "(say v s)\<lparr>current_cmd := d\<rparr> = say v (s\<lparr>current_cmd := d\<rparr>)"
  by (simp_all add: say_def)

lemma shell_ok_say [simp]: "shell_ok (say v s) = shell_ok s"
  by (simp add: say_def)

lemma init_shell_ok: "shell_ok (init_shell pid)"
  using init_jobs_ok by (simp add: shell_ok_def jt.tracked_def init_shell_def init_jobs_def)

text \<open>
  What a handler or the removal of finished jobs leaves of a state: jobs only disappear, and a command that is not the
  command of a job stays.
\<close>

definition lessens :: "shell \<Rightarrow> shell \<Rightarrow> bool" where
  "lessens s s' \<longleftrightarrow> shell_ok s' \<and> next_addr s' = next_addr s \<and> current_cmd s' = current_cmd s \<and> run s' = run s \<and> fds s' = fds s \<and>
     set (entries (jobs s')) \<subseteq> set (entries (jobs s)) \<and>
     dom (cmds s) - j_cmd ` set (entries (jobs s)) \<subseteq> dom (cmds s')"

lemma lessensD:
  assumes "lessens s s'"
  shows "shell_ok s'" "current_cmd s' = current_cmd s" "run s' = run s" "fds s' = fds s"
  using assms by (simp_all add: lessens_def)

lemma lessens_trans:
  assumes "lessens s t" "lessens t u"
  shows "lessens s u"
proof -
  have "dom (cmds s) - j_cmd ` set (entries (jobs s)) \<subseteq> dom (cmds t) - j_cmd ` set (entries (jobs t))"
    using assms(1) unfolding lessens_def by blast
  then have "dom (cmds s) - j_cmd ` set (entries (jobs s)) \<subseteq> dom (cmds u)" using assms(2) unfolding lessens_def by blast
  moreover have "set (entries (jobs u)) \<subseteq> set (entries (jobs s))" using assms unfolding lessens_def by blast
  ultimately show ?thesis using assms by (simp add: lessens_def)
qed

lemma lessens_refl: "shell_ok s \<Longrightarrow> lessens s s"
  by (simp add: lessens_def)

lemma lessens_say [simp]: "lessens s (say v s') = lessens s s'" "lessens (say v s) s' = lessens s s'"
  by (simp_all add: lessens_def)

lemma lessens_frame [simp]: "lessens s (s'\<lparr>times := ts\<rparr>) = lessens s s'" "lessens s (s'\<lparr>events := es\<rparr>) = lessens s s'"
  by (simp_all add: lessens_def)

text \<open>Removing finished jobs always succeeds, and keeps the command objects of all others.\<close>

lemma RemoveFinishedJobs_ok:
  assumes "shell_ok s"
  shows "\<exists>s'. RemoveFinishedJobs e s = Some s' \<and> lessens s s' \<and> s' = s\<lparr>jobs := jobs s', cmds := cmds s'\<rparr> \<and>
    entries (jobs s') = filter (\<lambda>j. \<not> finished e (j_pid j)) (entries (jobs s)) \<and>
    cmds s' = cmds s |` (- j_cmd ` {j \<in> set (entries (jobs s)). finished e (j_pid j)})"
proof -
  note k = shell_okD [OF assms]
  obtain js st where r: "removeFinishedJobs Pointers (finished e) (jobs s) (cmds s) = Some (js, st)" "jt.tracked js st"
      "entries js = filter (\<lambda>j. \<not> finished e (j_pid j)) (entries (jobs s))"
      "st = cmds s |` (- j_cmd ` {j \<in> set (entries (jobs s)). finished e (j_pid j)})"
    using jt.reap_tracked [OF k(5), of "finished e"] by blast
  have "RemoveFinishedJobs e s = Some (s\<lparr>jobs := js, cmds := st\<rparr>)" using r(1) by (simp add: RemoveFinishedJobs_def)
  moreover have "shell_ok (s\<lparr>jobs := js, cmds := st\<rparr>)" using r(2,4) k(4) by (auto simp: shell_ok_def)
  then have "lessens s (s\<lparr>jobs := js, cmds := st\<rparr>)" using r(3,4) by (auto simp: lessens_def)
  ultimately show ?thesis using r(3,4) by (intro exI [of _ "s\<lparr>jobs := js, cmds := st\<rparr>"]) simp
qed

lemma RemoveFinishedJobs_lessens:
  assumes "shell_ok s" "RemoveFinishedJobs e s = Some s'"
  shows "lessens s s'"
  using RemoveFinishedJobs_ok [OF assms(1), of e] assms(2) by auto

lemmas RemoveFinishedJobs_Some = lessensD [OF RemoveFinishedJobs_lessens]

lemma shell_ok_stopped: "shell_ok s \<Longrightarrow> shell_ok (s\<lparr>jobs := (jobs s)\<lparr>entries := SetIsStopped b i (entries (jobs s))\<rparr>\<rparr>)"
proof -
  assume a: "shell_ok s"
  have "map j_cmd (SetIsStopped b i es) = map j_cmd es" for es by (induction es) auto
  then have m: "map j_cmd (SetIsStopped b i (entries (jobs s))) = map j_cmd (entries (jobs s))" .
  then have "j_cmd ` set (SetIsStopped b i (entries (jobs s))) = j_cmd ` set (entries (jobs s))" by (metis set_map)
  then show ?thesis using a m SetIsStopped_ok by (simp add: shell_ok_def jt.tracked_def)
qed

lemma shell_ok_cmd:
  "shell_ok s \<Longrightarrow> p \<in> dom (cmds s) \<Longrightarrow> shell_ok (s\<lparr>cmds := (cmds s)(p \<mapsto> c)\<rparr>)"
  by (auto simp: shell_ok_def jt.tracked_def)

lemma SetForeground_Some:
  assumes "SetForeground b p st = Some st'"
  obtains c where "st p = Some c" "st' = st(p \<mapsto> c\<lparr>foreground := b\<rparr>)"
  using assms by (cases "st p") (simp_all add: SetForeground_def)

lemma SetPid_Some:
  assumes "SetPid i p st = Some st'"
  obtains c c' where "st p = Some c" "st' = st(p \<mapsto> c')"
proof (cases "st p")
  case (Some c)
  then have "st' = (if has_pid (c_kind c) then st(p \<mapsto> c\<lparr>c_pid := i\<rparr>) else st)" using assms by (simp add: SetPid_def)
  then have "st' = st(p \<mapsto> if has_pid (c_kind c) then c\<lparr>c_pid := i\<rparr> else c)" using Some by (simp add: fun_upd_idem)
  then show ?thesis using that Some by blast
qed (use assms in \<open>simp add: SetPid_def\<close>)

lemma shell_ok_fg:
  assumes "SetForeground b p (cmds s) = Some st" "shell_ok s"
  shows "shell_ok (s\<lparr>cmds := st\<rparr>)" "dom st = dom (cmds s)"
proof -
  obtain c where c: "cmds s p = Some c" "st = (cmds s)(p \<mapsto> c\<lparr>foreground := b\<rparr>)" using assms(1) by (rule SetForeground_Some)
  then have "p \<in> dom (cmds s)" by (simp add: domI)
  then show "shell_ok (s\<lparr>cmds := st\<rparr>)" "dom st = dom (cmds s)"
    unfolding c(2) using assms(2) shell_ok_cmd by (simp_all add: insert_absorb)
qed

lemma shell_ok_pid:
  assumes "SetPid i p (cmds s) = Some st" "shell_ok s"
  shows "shell_ok (s\<lparr>cmds := st\<rparr>)" "dom st = dom (cmds s)"
proof -
  obtain c c' where c: "cmds s p = Some c" "st = (cmds s)(p \<mapsto> c')" using assms(1) by (rule SetPid_Some)
  then have "p \<in> dom (cmds s)" by (simp add: domI)
  then show "shell_ok (s\<lparr>cmds := st\<rparr>)" "dom st = dom (cmds s)"
    unfolding c(2) using assms(2) shell_ok_cmd by (simp_all add: insert_absorb)
qed

subsection \<open>Every line keeps the invariant\<close>

text \<open>\<open>keeps P m\<close>: when \<open>m\<close> is defined its value has \<open>P\<close>. The rules follow the shape of the definitions.\<close>

definition keeps :: "('a \<Rightarrow> bool) \<Rightarrow> 'a option \<Rightarrow> bool" where
  "keeps P m = (case m of None \<Rightarrow> True | Some x \<Rightarrow> P x)"

lemma keepsD: "keeps P m \<Longrightarrow> m = Some x \<Longrightarrow> P x"
  by (simp add: keeps_def)

named_theorems keepsI \<open>rules for keeps\<close>

lemma keeps_Some [keepsI]: "P x \<Longrightarrow> keeps P (Some x)"
  by (simp add: keeps_def)

lemma keeps_None [keepsI]: "keeps P None"
  by (simp add: keeps_def)

lemma keeps_bind [keepsI]: "(\<And>x. m = Some x \<Longrightarrow> keeps P (f x)) \<Longrightarrow> keeps P (Option.bind m f)"
  by (cases m) (simp_all add: keeps_def)

lemma keeps_if [keepsI]: "(b \<Longrightarrow> keeps P m) \<Longrightarrow> (\<not> b \<Longrightarrow> keeps P n) \<Longrightarrow> keeps P (if b then m else n)"
  by simp

lemma keeps_option [keepsI]:
  "(o1 = None \<Longrightarrow> keeps P m) \<Longrightarrow> (\<And>x. o1 = Some x \<Longrightarrow> keeps P (f x)) \<Longrightarrow> keeps P (case o1 of None \<Rightarrow> m | Some x \<Rightarrow> f x)"
  by (simp split: option.split)

lemma keeps_sum [keepsI]:
  "(\<And>x. a = Inl x \<Longrightarrow> keeps P (f x)) \<Longrightarrow> (\<And>y. a = Inr y \<Longrightarrow> keeps P (g y)) \<Longrightarrow> keeps P (case a of Inl x \<Rightarrow> f x | Inr y \<Rightarrow> g y)"
  by (simp split: sum.split)

lemma keeps_pair [keepsI]: "(\<And>x y. a = (x, y) \<Longrightarrow> keeps P (f x y)) \<Longrightarrow> keeps P (case a of (x, y) \<Rightarrow> f x y)"
  by (simp split: prod.split)

lemma keeps_map [keepsI]: "keeps (\<lambda>x. P (f x)) m \<Longrightarrow> keeps P (map_option f m)"
  by (cases m) (simp_all add: keeps_def)

lemma exec_pwd_ok: "shell_ok s \<Longrightarrow> keeps shell_ok (exec_pwd e s)"
  unfolding exec_pwd_def Let_def by (intro keepsI) simp

lemma exec_jobs_ok: "shell_ok s \<Longrightarrow> keeps shell_ok (exec_jobs e s)"
  unfolding exec_jobs_def by (intro keepsI) (simp add: RemoveFinishedJobs_Some(1))

lemma exec_cd_ok: "shell_ok s \<Longrightarrow> keeps shell_ok (exec_cd e line s)"
  unfolding exec_cd_def Let_def by (intro keepsI) simp_all

lemma exec_kill_ok: "shell_ok s \<Longrightarrow> keeps shell_ok (exec_kill e line s)"
  unfolding exec_kill_def Let_def by (intro keepsI) (simp_all add: shell_ok_stopped)

lemma cat_files_ok: "shell_ok s \<Longrightarrow> shell_ok (cat_files e ws s)"
  by (induction ws arbitrary: s) (simp_all add: Let_def split: option.split)

lemma exec_cat_ok: "shell_ok s \<Longrightarrow> keeps shell_ok (exec_cat e line s)"
  unfolding exec_cat_def Let_def by (intro keepsI) (simp add: cat_files_ok)

lemma exec_bg_ok: "shell_ok s \<Longrightarrow> keeps shell_ok (exec_bg e line s)"
  unfolding exec_bg_def Let_def
  by (intro keepsI) (simp_all add: shell_ok_stopped)

text \<open>The handlers of signals.\<close>

lemma keeps_list [keepsI]:
  "(xs = [] \<Longrightarrow> keeps P m) \<Longrightarrow> (\<And>y ys. xs = y # ys \<Longrightarrow> keeps P (f y ys)) \<Longrightarrow> keeps P (case xs of [] \<Rightarrow> m | y # ys \<Rightarrow> f y ys)"
  by (cases xs) simp_all

lemma ctrlCHandler_ok: "shell_ok s \<Longrightarrow> keeps (lessens s) (ctrlCHandler e s)"
  unfolding ctrlCHandler_def Let_def by (intro keepsI) (simp_all add: lessens_refl)

lemma lessens_fg:
  assumes "shell_ok s" "SetForeground b p (cmds s) = Some st"
  shows "lessens s (s\<lparr>cmds := st\<rparr>)"
  using shell_ok_fg [OF assms(2,1)] by (simp add: lessens_def)

lemma ctrlZHandler_ok: "shell_ok s \<Longrightarrow> keeps (lessens s) (ctrlZHandler e s)"
  unfolding ctrlZHandler_def Let_def by (intro keepsI) (simp_all add: lessens_refl lessens_fg)

lemma alarmHandler_ok:
  assumes "shell_ok s"
  shows "keeps (lessens s) (alarmHandler e s)"
proof -
  have "lessens s v" if "RemoveFinishedJobs e (say x s) = Some v" for v x
    using RemoveFinishedJobs_lessens [OF _ that] assms by simp
  then show ?thesis unfolding alarmHandler_def killFinishedAlarms_def Let_def
    by (intro keepsI) (simp_all add: assms lessens_refl split: option.split)
qed

lemma handle_all_ok:
  assumes "shell_ok s"
  shows "keeps (lessens s) (handle_all e xs s)"
  using assms
proof (induction xs arbitrary: s)
  case (Cons x xs)
  obtain sg t fin where x: "x = (sg, t, fin)" by (cases x)
  have h: "keeps (lessens s) (handle (e\<lparr>now := t, finished := fin\<rparr>) sg s)"
    using Cons.prems by (cases sg) (simp_all add: handle_def ctrlCHandler_ok ctrlZHandler_ok alarmHandler_ok)
  show ?case unfolding x handle_all.simps
  proof (rule keeps_bind)
    fix s'
    assume "handle (e\<lparr>now := t, finished := fin\<rparr>) sg s = Some s'"
    then have l: "lessens s s'" using keepsD [OF h] by blast
    show "keeps (lessens s) (handle_all e xs s')"
      using Cons.IH [OF lessensD(1) [OF l]] lessens_trans [OF l] by (simp add: keeps_def split: option.splits)
  qed
qed (simp add: keeps_Some lessens_refl)

lemma handle_all_shell: "handle_all e xs s = Some s' \<Longrightarrow> shell_ok s \<Longrightarrow> shell_ok s'"
  using keepsD [OF handle_all_ok] lessensD(1) by blast

text \<open>A live command that is no job is added after other jobs have gone.\<close>

lemma readd_ok:
  assumes "lessens u v" "cmd \<in> dom (cmds u)" "cmd \<notin> j_cmd ` set (entries (jobs u))"
  shows "shell_ok (v\<lparr>jobs := addJob tm cmd pid b (jobs v)\<rparr>)"
    "0 < i \<Longrightarrow> i \<notin> job_id ` set (entries (jobs u)) \<Longrightarrow> shell_ok (v\<lparr>jobs := addJobWithId tm cmd pid i b (jobs v)\<rparr>)"
proof -
  note v = shell_okD(4,5) [OF lessensD(1) [OF assms(1)]]
  have sub: "set (entries (jobs v)) \<subseteq> set (entries (jobs u))" using assms(1) by (simp add: lessens_def)
  have c: "cmd \<in> dom (cmds v)" "cmd \<notin> j_cmd ` set (entries (jobs v))" using assms unfolding lessens_def by blast+
  show "shell_ok (v\<lparr>jobs := addJob tm cmd pid b (jobs v)\<rparr>)" using jt.add_tracked [OF v(2) c] v(1) by (simp add: shell_ok_def)
  assume "0 < i" "i \<notin> job_id ` set (entries (jobs u))"
  then have "jt.tracked (addJobWithId tm cmd pid i b (jobs v)) (cmds v)" using sub by (intro jt.put_tracked [OF v(2) c]) auto
  then show "shell_ok (v\<lparr>jobs := addJobWithId tm cmd pid i b (jobs v)\<rparr>)" using v(1) by (simp add: shell_ok_def)
qed

text \<open>The job that \<open>fg\<close> takes out of the list.\<close>

lemma choose_fg_in: "choose_fg args js = Inr j \<Longrightarrow> j \<in> set (entries js)"
  by (auto simp: choose_fg_def getLastJob_def getJobById_def find_Some_iff split: if_splits option.splits)

lemma fg_state:
  assumes "shell_ok s" "choose_fg args (jobs s) = Inr j" "SetForeground True (j_cmd j) (cmds s) = Some st"
  defines "t \<equiv> s\<lparr>jobs := removeJobById (job_id j) (jobs s), cmds := st\<rparr>"
  shows "shell_ok t" "j_cmd j \<in> dom (cmds t)" "j_cmd j \<notin> j_cmd ` set (entries (jobs t))"
    "0 < job_id j" "job_id j \<notin> job_id ` set (entries (jobs t))"
proof -
  note d = jt.del_tracked [OF shell_okD(5) [OF assms(1)] choose_fg_in [OF assms(2)]]
  have "shell_ok (s\<lparr>jobs := removeJobById (job_id j) (jobs s)\<rparr>)"
    using d(1) shell_okD(4) [OF assms(1)] by (simp add: shell_ok_def)
  from shell_ok_fg [OF _ this, of True "j_cmd j" st]
  show "shell_ok t" "j_cmd j \<in> dom (cmds t)" using assms(3) d(2) by (simp_all add: t_def)
  show "j_cmd j \<notin> j_cmd ` set (entries (jobs t))" "0 < job_id j" "job_id j \<notin> job_id ` set (entries (jobs t))"
    using d(3-5) by (simp_all add: t_def)
qed

lemma fg_waits:
  assumes "shell_ok s" "choose_fg args (jobs s) = Inr j" "SetForeground True (j_cmd j) (cmds s) = Some st"
    and t: "handle_all e xs t = Some u" "jobs t = removeJobById (job_id j) (jobs s)" "cmds t = st"
      "next_addr t = next_addr s" "current_cmd t = j_cmd j"
  shows "shell_ok u"
    "RemoveFinishedJobs e u = Some v \<Longrightarrow> shell_ok (v\<lparr>jobs := addJobWithId tm (current_cmd v) pid (job_id j) b (jobs v)\<rparr>)"
proof -
  note f = fg_state [OF assms(1-3)]
  have "shell_ok t" using f(1) t(2-4) by (simp add: shell_ok_def)
  then have l: "lessens t u" using keepsD [OF handle_all_ok t(1)] by blast
  then show u: "shell_ok u" by (rule lessensD)
  assume "RemoveFinishedJobs e u = Some v"
  then have l2: "lessens t v" using lessens_trans [OF l] RemoveFinishedJobs_lessens [OF u] by blast
  then show "shell_ok (v\<lparr>jobs := addJobWithId tm (current_cmd v) pid (job_id j) b (jobs v)\<rparr>)"
    using readd_ok(2) [OF l2] f(2-5) t(2-5) lessensD(2) [OF l2] by simp
qed

lemma exec_fg_ok: "shell_ok s \<Longrightarrow> keeps shell_ok (exec_fg e line s)"
  unfolding exec_fg_def Let_def
  by (intro keepsI;
      (rule fg_waits(2) [where s = s], assumption, assumption, (simp; fail), assumption)?;
      (rule fg_waits(1) [where s = s], assumption, assumption, (simp; fail), assumption)?;
      simp add: fg_state(1) fg_waits(1))

text \<open>A new command object: live, and not the command of a job.\<close>

lemma CreateCommand_ok:
  assumes "shell_ok s" "CreateCommand line s = Some (p, s')"
  shows "shell_ok s'" "cmds s' p = Some \<lparr>cmd_line = line, foreground = True, c_kind = kind_of (firstWord line), c_pid = - 1\<rparr>"
    "p \<notin> j_cmd ` set (entries (jobs s'))" "jobs s' = jobs s" "fds s' = fds s" "run s' = run s" "current_cmd s' = current_cmd s"
proof -
  note k = shell_okD [OF assms(1)]
  let ?c = "\<lparr>cmd_line = line, foreground = True, c_kind = kind_of (firstWord line), c_pid = - 1\<rparr>"
  have "(if kind_of (firstWord line) = ChPrompt then chprompt line s else Some s) \<noteq> None"
    using assms(2) by (auto simp: CreateCommand_def Let_def bind_eq_Some_conv split: if_splits)
  then obtain x where x: "(if kind_of (firstWord line) = ChPrompt then chprompt line s else Some s) = Some (s\<lparr>prompt := x\<rparr>)"
  proof (cases "kind_of (firstWord line) = ChPrompt")
    case False
    then show thesis using that [of "prompt s"] by simp
  qed (auto simp: chprompt_def bind_eq_Some_conv split: if_splits)
  then have s': "p = next_addr s" "s' = s\<lparr>prompt := x, cmds := (cmds s)(next_addr s \<mapsto> ?c), next_addr := next_addr s + 1\<rparr>"
    using assms(2) by (auto simp: CreateCommand_def Let_def)
  have fresh: "next_addr s \<notin> dom (cmds s)" using k(4) by blast
  then show "p \<notin> j_cmd ` set (entries (jobs s'))" using k(3) s' by auto
  show "shell_ok s'" using k unfolding s' by (auto simp: shell_ok_def jt.tracked_def less_SucI)
  show "cmds s' p = Some ?c" "jobs s' = jobs s" "fds s' = fds s" "run s' = run s" "current_cmd s' = current_cmd s"
    unfolding s' by simp_all
qed

lemma register_timeout_ok: "shell_ok s \<Longrightarrow> keeps (\<lambda>s'. shell_ok s' \<and> jobs s' = jobs s \<and> cmds s' = cmds s) (register_timeout e cmd pid s)"
  unfolding register_timeout_def Let_def by (intro keepsI) simp

lemma start_external_ok:
  assumes "shell_ok s" "cmd \<in> dom (cmds s)"
  shows "keeps (\<lambda>s'. shell_ok s' \<and> jobs s' = jobs s \<and> dom (cmds s') = dom (cmds s)) (start_external e bg cmd k s)"
proof -
  have fg: "shell_ok (s\<lparr>cmds := st\<rparr>)" "dom st = dom (cmds s)"
    if "(if bg then SetForeground False cmd (cmds s) else Some (cmds s)) = Some st" for st
    using that shell_ok_fg [OF _ assms(1), of False cmd st] assms(1) by (auto split: if_splits)
  let ?t = "\<lambda>st. if fork1 e = - 1 then say (sys_error ''fork'') (s\<lparr>cmds := st, current_cmd := cmd\<rparr>) else s\<lparr>cmds := st, current_cmd := cmd\<rparr>"
  have pid: "shell_ok (?t st\<lparr>cmds := st'\<rparr>)" "dom st' = dom (cmds s)"
    if a: "(if bg then SetForeground False cmd (cmds s) else Some (cmds s)) = Some st"
      and b: "SetPid (fork1 e) cmd (cmds (?t st)) = Some st'" for st st'
  proof -
    have "shell_ok (s\<lparr>cmds := st, current_cmd := cmd\<rparr>)" using fg(1) [OF a] by (simp add: shell_ok_def)
    then have "shell_ok (?t st)" by simp
    from shell_ok_pid [OF b this] show "shell_ok (?t st\<lparr>cmds := st'\<rparr>)" "dom st' = dom (cmds s)"
      using fg(2) [OF a] by simp_all
  qed
  have reg: "keeps (\<lambda>s'. shell_ok s' \<and> jobs s' = jobs s \<and> dom (cmds s') = dom (cmds s)) (register_timeout e cmd pid t)"
    if "shell_ok t" "jobs t = jobs s" "dom (cmds t) = dom (cmds s)" for t pid
    using register_timeout_ok [OF that(1), of e cmd pid] that(2,3) by (auto simp: keeps_def split: option.splits)
  show ?thesis unfolding start_external_def Let_def
    by (intro keepsI reg conjI; (rule pid(1), assumption, assumption)?; simp add: pid(2))
qed

lemma finish_external_ok:
  assumes "shell_ok s" "cmd \<in> dom (cmds s)" "cmd \<notin> j_cmd ` set (entries (jobs s))"
  shows "keeps (\<lambda>x. shell_ok (snd x)) (finish_external e bg cmd pid s)"
proof -
  have bg: "shell_ok (v\<lparr>jobs := addJob tm cmd pid b (jobs v)\<rparr>)" if "RemoveFinishedJobs e s = Some v" for v tm b
    by (rule readd_ok(1) [OF RemoveFinishedJobs_lessens [OF assms(1) that] assms(2,3)])
  have w: "lessens s u" if "handle_all e (sigs e) s = Some u" for u using keepsD [OF handle_all_ok [OF assms(1)] that] .
  have st: "shell_ok (v\<lparr>jobs := addJob tm cmd pid b (jobs v)\<rparr>)"
    if "handle_all e (sigs e) s = Some u" "RemoveFinishedJobs e u = Some v" for u v tm b
    using readd_ok(1) [OF lessens_trans [OF w [OF that(1)] RemoveFinishedJobs_lessens [OF lessensD(1) [OF w [OF that(1)]] that(2)]] assms(2,3)] .
  show ?thesis unfolding finish_external_def Let_def by (intro keepsI; simp add: bg st lessensD(1) [OF w])
qed

lemma run_external_ok:
  assumes "shell_ok s" "cmd \<in> dom (cmds s)" "cmd \<notin> j_cmd ` set (entries (jobs s))"
  shows "keeps (\<lambda>x. shell_ok (snd x)) (run_external e bg cmd k s)"
  unfolding run_external_def
  by (intro keepsI finish_external_ok; drule keepsD [OF start_external_ok [OF assms(1,2)]]; use assms in simp)

text \<open>After \<open>quit\<close> the list may be left with deleted commands, but the shell does not run any more.\<close>

definition shell_safe :: "shell \<Rightarrow> bool" where
  "shell_safe s \<longleftrightarrow> (run s \<longrightarrow> shell_ok s)"

lemma shell_safeI: "shell_ok s \<Longrightarrow> shell_safe s"
  by (simp add: shell_safe_def)

lemma shell_safe_frame [simp]:
  "shell_safe (say v s) = shell_safe s" "shell_safe (s\<lparr>fds := f\<rparr>) = shell_safe s"
  by (simp_all add: shell_safe_def)

lemma exec_quit_ok: "keeps shell_safe (exec_quit e line s)"
  unfolding exec_quit_def by (intro keepsI) (simp add: shell_safe_def)

lemma keeps_mono: "keeps P m \<Longrightarrow> (\<And>x. P x \<Longrightarrow> Q x) \<Longrightarrow> keeps Q m"
  by (cases m) (simp_all add: keeps_def)

lemmas run_external_safe = run_external_ok [THEN keeps_mono, OF _ _ _ shell_safeI]

lemma execute_ok:
  assumes "shell_ok s"
  shows "keeps shell_safe (execute e k line s)"
proof -
  note ok = exec_pwd_ok exec_jobs_ok exec_cd_ok exec_kill_ok exec_cat_ok exec_bg_ok exec_fg_ok
  show ?thesis
    by (cases k)
      (simp_all add: execute_def exec_quit_ok exec_showpid_def keeps_Some keeps_None shell_safeI assms
        ok [OF assms, THEN keeps_mono, of shell_safe, OF shell_safeI])
qed

lemma run_command_ok:
  assumes "shell_ok s"
  shows "keeps (\<lambda>x. shell_safe (snd x)) (run_command e bg line s)"
proof -
  have c: "shell_ok s'" "p \<in> dom (cmds s')" "p \<notin> j_cmd ` set (entries (jobs s'))"
    if "CreateCommand line s = Some x" "x = (p, s')" for x p s'
    using CreateCommand_ok(1-3) [OF assms] that by auto
  show ?thesis
    unfolding run_command_def
    by (intro keepsI run_external_safe; (drule keepsD [OF execute_ok, rotated])?; simp add: c)
qed

lemma open_pipe_ok: "open_pipe s = (rd, wr, s') \<Longrightarrow> shell_ok s' = shell_ok s"
  by (auto simp: open_pipe_def Let_def)

lemma executePipeCommand_ok:
  assumes "shell_ok s"
  shows "keeps shell_ok (executePipeCommand e line type s)"
proof -
  have c: "shell_ok s2"
    if "open_pipe s = (rd, x)" "x = (wr, s0)" "CreateCommand a s0 = Some y" "y = (p, s1)" "CreateCommand b s1 = Some z" "z = (q, s2)"
    for rd wr s0 a b p q s1 s2 x y z
    using that CreateCommand_ok(1) open_pipe_ok assms by metis
  show ?thesis
    unfolding executePipeCommand_def Let_def wait_pipe_def
    by (intro keepsI; (drule (5) c)?; (drule handle_all_shell)?; simp add: assms)
qed

text \<open>A redirection changes only the descriptors.\<close>

lemma prepareRedirectionCommand_ok: "shell_ok (snd (snd (prepareRedirectionCommand e line type s))) = shell_ok s"
  by (simp add: prepareRedirectionCommand_def Let_def)

lemma restore_stdout_ok [simp]: "shell_safe (restore_stdout e fd s) = shell_safe s"
  by (simp add: restore_stdout_def Let_def)

lemma executeCommand_ok:
  assumes "shell_ok s"
  shows "keeps shell_safe (executeCommand e line s)"
proof -
  have p: "shell_ok s'" if "prepareRedirectionCommand e line type s = (o1, x)" "x = (rest, s')" for type o1 x rest s'
    using prepareRedirectionCommand_ok [of e line type s] that assms by simp
  show ?thesis
    unfolding executeCommand_def
    by (intro keepsI executePipeCommand_ok [THEN keeps_mono] run_command_ok; (frule (1) p)?;
        (drule keepsD [OF run_command_ok], assumption)?; simp add: assms shell_safeI)
qed

lemma main_turn_ok:
  assumes "shell_ok s"
  shows "keeps shell_safe (main_turn e line s)"
proof -
  have "shell_safe (s'\<lparr>cmds := st\<rparr>)" if "shell_safe s'" "SetForeground b p (cmds s') = Some st" for s' b p st
    using that shell_ok_fg(1) by (auto simp: shell_safe_def)
  moreover have "shell_safe s''" if "RemoveFinishedJobs (e\<lparr>finished := at_prompt e\<rparr>) (say v s) = Some s'" "executeCommand e line s' = Some s''" for v s' s''
    using keepsD [OF executeCommand_ok that(2)] RemoveFinishedJobs_Some(1) [OF _ that(1)] assms by simp
  ultimately show ?thesis unfolding main_turn_def Let_def by (intro keepsI) simp_all
qed

subsection \<open>The shell as a state machine\<close>

text \<open>
  The steps of the shell between two prompts: a line is read and executed, or a signal is handled while the shell waits at the
  prompt.
\<close>

inductive smash_step :: "shell \<Rightarrow> shell \<Rightarrow> bool" where
  turn: "run s \<Longrightarrow> main_turn e line s = Some s' \<Longrightarrow> smash_step s s'"
| ctrl_c: "run s \<Longrightarrow> ctrlCHandler e s = Some s' \<Longrightarrow> smash_step s s'"
| ctrl_z: "run s \<Longrightarrow> ctrlZHandler e s = Some s' \<Longrightarrow> smash_step s s'"
| alarm: "run s \<Longrightarrow> alarmHandler e s = Some s' \<Longrightarrow> smash_step s s'"

inductive_cases smash_stepE: "smash_step s s'"

text \<open>At the prompt no command is in the foreground.\<close>

definition quiet :: "shell \<Rightarrow> bool" where
  "quiet s \<longleftrightarrow> current_cmd s = NULL \<or> (\<forall>c. cmds s (current_cmd s) = Some c \<longrightarrow> \<not> foreground c)"

lemma quiet_say [simp]: "quiet (say v s) = quiet s"
  by (simp add: quiet_def)

lemma SetForeground_quiet: "SetForeground False p st = Some st' \<Longrightarrow> st' p = Some c \<Longrightarrow> \<not> foreground c"
  by (erule SetForeground_Some) auto

lemma main_turn_quiet: "keeps quiet (main_turn e line s)"
  unfolding main_turn_def Let_def
  by (intro keepsI) (auto simp: quiet_def dest: SetForeground_quiet)

lemma ctrlCHandler_quiet: "quiet s \<Longrightarrow> ctrlCHandler e s = Some s' \<Longrightarrow> s' = say (Out ''smash: got ctrl-C'') s"
  by (auto simp: ctrlCHandler_def Let_def quiet_def bind_eq_Some_conv split: if_splits)

lemma ctrlZHandler_quiet: "quiet s \<Longrightarrow> ctrlZHandler e s = Some s' \<Longrightarrow> s' = say (Out ''smash: got ctrl-Z'') s"
  by (auto simp: ctrlZHandler_def Let_def quiet_def bind_eq_Some_conv split: if_splits)

lemma RemoveFinishedJobs_quiet:
  assumes "shell_ok s" "RemoveFinishedJobs e s = Some s'" "quiet s"
  shows "quiet s'"
proof -
  obtain t where "RemoveFinishedJobs e s = Some t" "t = s\<lparr>jobs := jobs t, cmds := cmds t\<rparr>"
      "cmds t = cmds s |` (- j_cmd ` {j \<in> set (entries (jobs s)). finished e (j_pid j)})"
    using RemoveFinishedJobs_ok [OF assms(1), of e] by blast
  then have "cmds s' = cmds s |` (- j_cmd ` {j \<in> set (entries (jobs s)). finished e (j_pid j)})" using assms(2) by simp
  then show ?thesis using assms(3) RemoveFinishedJobs_Some(2) [OF assms(1,2)] by (auto simp: quiet_def restrict_map_def split: if_splits)
qed

lemma alarmHandler_quiet:
  assumes "shell_ok s" "quiet s"
  shows "keeps quiet (alarmHandler e s)"
proof -
  have f: "quiet (u\<lparr>times := a, events := b\<rparr>) = quiet u" for u a b by (simp add: quiet_def)
  have "quiet v" if "RemoveFinishedJobs e (say x s) = Some v" for v x
    using RemoveFinishedJobs_quiet [OF _ that] assms by simp
  then show ?thesis unfolding alarmHandler_def killFinishedAlarms_def Let_def
    by (intro keepsI) (simp_all add: assms f split: option.split)
qed

lemma smash_step_safe:
  assumes "smash_step s s'" "shell_safe s" "quiet s"
  shows "shell_safe s' \<and> quiet s'"
  using assms
proof cases
  case (turn e line)
  then show ?thesis using keepsD [OF main_turn_ok] keepsD [OF main_turn_quiet] assms(2) by (auto simp: shell_safe_def)
next
  case (ctrl_c e)
  then show ?thesis using ctrlCHandler_quiet [OF assms(3) ctrl_c(2)] assms(2,3) by simp
next
  case (ctrl_z e)
  then show ?thesis using ctrlZHandler_quiet [OF assms(3) ctrl_z(2)] assms(2,3) by simp
next
  case (alarm e)
  then show ?thesis using lessensD(1) [OF keepsD [OF alarmHandler_ok]] keepsD [OF alarmHandler_quiet] assms by (auto simp: shell_safe_def)
qed

lemma reachable_safe:
  assumes "smash_step\<^sup>*\<^sup>* (init_shell pid) s"
  shows "shell_safe s \<and> quiet s"
  using assms
proof (induction rule: rtranclp_induct)
  case base
  show ?case using init_shell_ok shell_safeI by (auto simp: quiet_def init_shell_def)
next
  case (step s s')
  then show ?case using smash_step_safe by blast
qed

end
