(* ===== verification/Smash.thy ===== *)
theory Smash
  imports Shell_Safe
begin

text \<open>
  Properties of the shell \<open>smash\<close>: its reachable states, who gets the signals of the keyboard, which commands become jobs, what
  happens to the descriptors of the shell and of the children of a pipe, \<open>cat\<close> and \<open>cd\<close>; and the
  defects that running the model shows.
\<close>

subsection \<open>An environment in which every call succeeds\<close>

definition E0 :: env where
  "E0 = \<lparr>now = 100, at_prompt = (\<lambda>_. False), finished = (\<lambda>_. False), kill_res = (\<lambda>_ _. 0), fork1 = 500, fork2 = 501, sigs = [], wait_res = (\<lambda>p. (p, False)),
     cwd = Some ''/home'', chdir_res = (\<lambda>_. 0), open_res = (\<lambda>_. Some ''some text of a file''), creat_ok = (\<lambda>_. True), fails = (\<lambda>_. False),
     stale = (\<lambda>s. s), showd = show_int\<rparr>"

subsection \<open>Reachable states\<close>

lemma background_run:
  "map_option (\<lambda>s. map job_id (entries (jobs s))) (main_turn E0 ''sleep 1 &'' (init_shell 7)) = Some [1]"
  by code_simp

lemma background_runs: "map_option run (main_turn E0 ''sleep 1 &'' (init_shell 7)) = Some True"
  by code_simp

text \<open>
  C8. In every state that the shell reaches from its start by executing lines and handling signals at the prompt, with any answers
  of the system, as long as it runs: the jobs list is well formed, the jobs have pairwise different command objects, all of
  them live, and the address of the next object is new.
\<close>

theorem reachable_wellformed:
  assumes "smash_step\<^sup>*\<^sup>* (init_shell pid) s" "run s"
  shows "jobs_ok (jobs s) \<and> distinct (map j_cmd (entries (jobs s))) \<and> j_cmd ` set (entries (jobs s)) \<subseteq> dom (cmds s) \<and>
    next_addr s \<notin> dom (cmds s)"
  using reachable_safe [OF assms(1)] assms(2) shell_okD [of s] by (auto simp: shell_safe_def)

theorem reachable_wellformed_witness:
  "\<exists>s. main_turn E0 ''sleep 1 &'' (init_shell 7) = Some s \<and> map job_id (entries (jobs s)) = [1] \<and> jobs_ok (jobs s)"
proof -
  obtain s where s: "main_turn E0 ''sleep 1 &'' (init_shell 7) = Some s" "map job_id (entries (jobs s)) = [1]" "run s"
    using background_run background_runs by (cases "main_turn E0 ''sleep 1 &'' (init_shell 7)") simp_all
  have i: "run (init_shell 7)" by (simp add: init_shell_def)
  have "smash_step\<^sup>*\<^sup>* (init_shell 7) s" by (rule r_into_rtranclp, rule smash_step.turn [OF i s(1)])
  then have "jobs_ok (jobs s)" using reachable_wellformed s(3) by blast
  then show ?thesis using s(1,2) by (intro exI [of _ s]) simp
qed

subsection \<open>Signals from the keyboard\<close>

text \<open>
  C34. At the prompt, in every reachable state, \<open>ctrl-C\<close> and \<open>ctrl-Z\<close> print their message, send no signal and change nothing
  else, if the command that the shell started last still exists (or none was started). If that command was deleted, as a
  finished job or by an alarm, the handlers read freed memory: the behaviour is undefined.
\<close>

theorem prompt_signals:
  assumes "smash_step\<^sup>*\<^sup>* (init_shell pid) s"
  shows "ctrlCHandler e s = (if current_cmd s = NULL \<or> current_cmd s \<in> dom (cmds s)
      then Some (say (Out ''smash: got ctrl-C'') s) else None) \<and>
    ctrlZHandler e s = (if current_cmd s = NULL \<or> current_cmd s \<in> dom (cmds s)
      then Some (say (Out ''smash: got ctrl-Z'') s) else None)"
proof -
  have "quiet s" using reachable_safe [OF assms] by blast
  then show ?thesis by (cases "cmds s (current_cmd s)") (auto simp: ctrlCHandler_def ctrlZHandler_def quiet_def Let_def dom_def)
qed

theorem prompt_signals_witness:
  "\<exists>s. main_turn E0 ''sleep 1 &'' (init_shell 7) = Some s \<and> current_cmd s = 1 \<and>
     ctrlCHandler E0 s = Some (say (Out ''smash: got ctrl-C'') s)"
proof -
  have "map_option (\<lambda>s. (current_cmd s, cmds s 1 \<noteq> None)) (main_turn E0 ''sleep 1 &'' (init_shell 7)) = Some (1, True)" by code_simp
  then obtain s where s: "main_turn E0 ''sleep 1 &'' (init_shell 7) = Some s" "current_cmd s = 1" "1 \<in> dom (cmds s)"
    by (cases "main_turn E0 ''sleep 1 &'' (init_shell 7)") auto
  have "run (init_shell 7)" by (simp add: init_shell_def)
  then have "smash_step (init_shell 7) s" using s(1) by (rule smash_step.turn)
  then have "smash_step\<^sup>*\<^sup>* (init_shell 7) s" by (rule r_into_rtranclp)
  from prompt_signals [OF this, of E0] show ?thesis using s by (intro exI [of _ s]) simp
qed

text \<open>
  C33. While a command is waited for in the foreground the handlers reach exactly its process: \<open>ctrl-C\<close> sends it \<open>SIGKILL\<close>, \<open>ctrl-Z\<close> sends it
  \<open>SIGSTOP\<close> and takes it out of the foreground, so that a second \<open>ctrl-Z\<close> does nothing. If the command was started in the background
  they send nothing.
\<close>

theorem foreground_signals:
  assumes "cmds s p = Some c" "foreground c" "c_kind c = External" "p \<noteq> NULL" "start_external e bg p External s = Some s'"
    "kill_res e' (fork1 e) SIGKILL \<noteq> - 1" "kill_res e' (fork1 e) SIGSTOP \<noteq> - 1"
  shows "(if bg then ctrlCHandler e' s' = Some (say (Out ''smash: got ctrl-C'') s') \<and>
                     ctrlZHandler e' s' = Some (say (Out ''smash: got ctrl-Z'') s')
          else \<exists>t u. ctrlCHandler e' s' = Some t \<and> ctrlZHandler e' s' = Some u \<and>
            events t = events s' @ [Out ''smash: got ctrl-C'', Signal (fork1 e) SIGKILL,
              Out (''smash: process '' @ show_int (fork1 e) @ '' was killed'')] \<and>
            events u = events s' @ [Out ''smash: got ctrl-Z'', Signal (fork1 e) SIGSTOP,
              Out (''smash: process '' @ show_int (fork1 e) @ '' was stopped'')] \<and>
            ctrlZHandler e' u = Some (say (Out ''smash: got ctrl-Z'') u))"
proof -
  have s': "cmds s' p = Some (c\<lparr>foreground := \<not> bg, c_pid := fork1 e\<rparr>) \<and> current_cmd s' = p"
    using assms(1-3,5) by (cases bg; cases "fork1 e = - 1") (auto simp: start_external_def SetForeground_def SetPid_def has_pid_def Let_def)
  show ?thesis
  proof (cases bg)
    case True
    then show ?thesis using s' assms(4) by (simp add: ctrlCHandler_def ctrlZHandler_def)
  next
    case False
    then show ?thesis using s' assms(3,4,6,7)
      by (simp add: ctrlCHandler_def ctrlZHandler_def GetPid_def has_pid_def SetForeground_def Let_def)
  qed
qed

theorem foreground_signals_witness:
  "\<exists>t. Option.bind (start_external E0 False 1 External
     ((init_shell 7)\<lparr>cmds := [1 \<mapsto> \<lparr>cmd_line = ''ls'', foreground = True, c_kind = External, c_pid = - 1\<rparr>]\<rparr>)) (ctrlCHandler E0) = Some t \<and>
     Signal 500 SIGKILL \<in> set (events t)"
proof -
  let ?c = "\<lparr>cmd_line = ''ls'', foreground = True, c_kind = External, c_pid = - 1\<rparr>"
  let ?s = "(init_shell 7)\<lparr>cmds := [1 \<mapsto> ?c]\<rparr>"
  have "start_external E0 False 1 External ?s \<noteq> None" by (simp add: start_external_def SetPid_def has_pid_def E0_def)
  then obtain s' where s': "start_external E0 False 1 External ?s = Some s'" by blast
  have "(1 :: addr) \<noteq> 0" by simp
  with foreground_signals [of ?s 1 ?c E0 False s' E0] s' show ?thesis by (auto simp: E0_def SIGKILL_def SIGSTOP_def)
qed

subsection \<open>Jobs\<close>

lemma CreateCommand_external:
  "kind_of (firstWord line) = External \<Longrightarrow> CreateCommand line s = Some (next_addr s, s\<lparr>next_addr := next_addr s + 1,
     cmds := (cmds s)(next_addr s \<mapsto> \<lparr>cmd_line = line, foreground = True, c_kind = External, c_pid = - 1\<rparr>)\<rparr>)"
  by (simp add: CreateCommand_def Let_def)

lemma start_external_eq:
  assumes "cmds s p = Some c" "c_kind c = External" "fork1 e \<noteq> - 1"
  shows "start_external e bg p External s =
    Some (s\<lparr>cmds := (cmds s)(p \<mapsto> c\<lparr>foreground := foreground c \<and> \<not> bg, c_pid := fork1 e\<rparr>), current_cmd := p\<rparr>)"
  using assms by (cases bg) (simp_all add: start_external_def SetForeground_def SetPid_def has_pid_def)

text \<open>
  C15. A line that is an external command, without pipe or redirection, is executed without undefined behaviour (with iterators that are pointers), if \<open>fork\<close> and the
  wait succeed and no signal arrives while the shell waits (an alarm could come whose command was deleted). In the
  background, or when it is stopped in the foreground, it becomes a job: the finished jobs leave the list, the others stay as
  they are, and the new job stands behind them with an id above all of theirs, the process of the command, the time, the line as typed, and
  the mark of a stopped job exactly if it ran in the foreground. If it ends in the foreground the jobs do not change.
\<close>

theorem external_becomes_job:
  assumes "shell_ok s" "isPipeCommand line = None" "isRedirectionCommand line = None" "isBackgroundCommand line = Some bg"
    "kind_of (firstWord line) = External" "fork1 e \<noteq> - 1" "fst (wait_res e (fork1 e)) \<noteq> - 1" "sigs e = []"
  shows "\<exists>s'. executeCommand e line s = Some s' \<and>
    cmds s' (next_addr s) = Some \<lparr>cmd_line = line, foreground = \<not> bg, c_kind = External, c_pid = fork1 e\<rparr> \<and>
    (if bg \<or> snd (wait_res e (fork1 e)) then
       \<exists>i. entries (jobs s') = filter (\<lambda>j. \<not> finished e (j_pid j)) (entries (jobs s)) @
           [\<lparr>job_id = i, j_pid = fork1 e, j_cmd = next_addr s, is_stopped = \<not> bg, j_time = now e\<rparr>] \<and>
         (\<forall>j \<in> set (entries (jobs s)). finished e (j_pid j) \<or> job_id j < i)
     else jobs s' = jobs s)"
proof -
  let ?p = "next_addr s" and ?c = "\<lparr>cmd_line = line, foreground = \<not> bg, c_kind = External, c_pid = fork1 e\<rparr>"
  let ?u = "s\<lparr>next_addr := ?p + 1, cmds := (cmds s)(?p \<mapsto> ?c), current_cmd := ?p\<rparr>"
  have run: "executeCommand e line s = map_option snd (finish_external e bg ?p (fork1 e) ?u)"
    using assms(2-6) by (simp add: executeCommand_def run_command_def CreateCommand_external run_external_def has_pid_def start_external_eq)
  have fresh: "?p \<notin> dom (cmds s)" using shell_okD(4) [OF assms(1)] by blast
  have u: "shell_ok ?u" using assms(1) by (auto simp: shell_ok_def jt.tracked_def less_SucI)
  obtain v where v: "RemoveFinishedJobs e ?u = Some v" "lessens ?u v"
      "entries (jobs v) = filter (\<lambda>j. \<not> finished e (j_pid j)) (entries (jobs s))"
      "cmds v = cmds ?u |` (- j_cmd ` {j \<in> set (entries (jobs s)). finished e (j_pid j)})"
    using RemoveFinishedJobs_ok [OF u, of e] by auto
  have "?p \<notin> j_cmd ` set (entries (jobs s))" using fresh shell_okD(3) [OF assms(1)] by blast
  then have c: "cmds v ?p = Some ?c" using v(4) by (auto simp: restrict_map_def)
  have "\<forall>j \<in> set (entries (jobs v)). job_id j \<le> max_job_id (jobs v)"
    by (rule max_id_above(2) [OF shell_okD(1) [OF lessensD(1) [OF v(2)]]])
  then have ids: "\<forall>j \<in> set (entries (jobs s)). finished e (j_pid j) \<or> job_id j < max_job_id (jobs v) + 1" using v(3) by auto
  obtain r st where w: "wait_res e (fork1 e) = (r, st)" by (cases "wait_res e (fork1 e)")
  show ?thesis
  proof (cases "bg \<or> st")
    case True
    then have "finish_external e bg ?p (fork1 e) ?u = Some (bg, v\<lparr>jobs := addJob (now e) ?p (fork1 e) (\<not> bg) (jobs v)\<rparr>)"
      using v(1) w assms(7,8) by (cases bg) (simp_all add: finish_external_def)
    then show ?thesis using True w run c v(3) ids by (simp add: addJob_def)
  next
    case False
    then have "finish_external e bg ?p (fork1 e) ?u = Some (True, ?u)" using w assms(7,8) by (simp add: finish_external_def)
    then show ?thesis using False w run by simp
  qed
qed

theorem external_becomes_job_witness:
  "\<exists>s'. executeCommand E0 ''sleep 1 &'' (init_shell 7) = Some s' \<and>
     map j_pid (entries (jobs s')) = [500]"
proof -
  let ?l = "''sleep 1 &''"
  have "isPipeCommand ?l = None" "isRedirectionCommand ?l = None" "isBackgroundCommand ?l = Some True" "kind_of (firstWord ?l) = External"
    by code_simp+
  moreover have "fork1 E0 \<noteq> - 1" "fst (wait_res E0 (fork1 E0)) \<noteq> - 1" "sigs E0 = []" by (simp_all add: E0_def)
  ultimately obtain s' i where "executeCommand E0 ?l (init_shell 7) = Some s'"
      "entries (jobs s') = filter (\<lambda>j. \<not> finished E0 (j_pid j)) (entries (jobs (init_shell 7))) @
         [\<lparr>job_id = i, j_pid = fork1 E0, j_cmd = next_addr (init_shell 7), is_stopped = \<not> True, j_time = now E0\<rparr>]"
    using external_becomes_job [OF init_shell_ok, of ?l True E0 7] by auto
  then show ?thesis by (intro exI [of _ s']) (simp add: init_shell_def init_jobs_def E0_def)
qed

text \<open>The state in which the shell waits for a new external command in the foreground, and what \<open>ctrl-Z\<close> makes of it.\<close>

definition waiting :: "env \<Rightarrow> string \<Rightarrow> kind \<Rightarrow> shell \<Rightarrow> shell" where
  "waiting e line k s = s\<lparr>next_addr := next_addr s + 1,
     cmds := (cmds s)(next_addr s \<mapsto> \<lparr>cmd_line = line, foreground = True, c_kind = k, c_pid = fork1 e\<rparr>), current_cmd := next_addr s\<rparr>"

lemma waiting_ok: "shell_ok s \<Longrightarrow> shell_ok (waiting e line k s)"
  by (auto simp: waiting_def shell_ok_def jt.tracked_def less_SucI)

lemma executeCommand_waits:
  assumes "isPipeCommand line = None" "isRedirectionCommand line = None" "isBackgroundCommand line = Some False"
    "kind_of (firstWord line) = External" "fork1 e \<noteq> - 1"
  shows "executeCommand e line s = map_option snd (finish_external e False (next_addr s) (fork1 e) (waiting e line External s))"
  using assms by (simp add: executeCommand_def run_command_def CreateCommand_external run_external_def has_pid_def
      start_external_eq waiting_def)

lemma ctrl_z_waiting:
  assumes "kill_res e (fork1 e0) SIGSTOP \<noteq> - 1" "0 < next_addr s"
  shows "ctrlZHandler e (waiting e0 line External s) =
    Some (s\<lparr>next_addr := next_addr s + 1,
      cmds := (cmds s)(next_addr s \<mapsto> \<lparr>cmd_line = line, foreground = False, c_kind = External, c_pid = fork1 e0\<rparr>),
      current_cmd := next_addr s,
      events := events s @ [Out ''smash: got ctrl-Z'', Signal (fork1 e0) SIGSTOP,
        Out (''smash: process '' @ show_int (fork1 e0) @ '' was stopped'')]\<rparr>)"
  using assms by (simp add: ctrlZHandler_def waiting_def say_def GetPid_def has_pid_def SetForeground_def Let_def)

text \<open>
  C16. Stopping and resuming: \<open>ctrl-Z\<close> while the shell waits for a command sends it \<open>SIGSTOP\<close>; when the wait then
  reports a stopped child, the command is the last job, marked as stopped. A \<open>fg\<close> takes it out of the list again, sends it
  \<open>SIGCONT\<close>, prints its line and process id, with a blank at the end, and waits for it; when it ends the list is that of the other jobs. All the
  calls are taken to succeed, iterators to be pointers, and no other signal to arrive.
\<close>

theorem ctrl_z_then_fg:
  assumes "shell_ok s" "0 < next_addr s"
    "isPipeCommand line = None" "isRedirectionCommand line = None" "isBackgroundCommand line = Some False"
    "kind_of (firstWord line) = External" "fork1 e \<noteq> - 1"
    "sigs e = [(SIGTSTP, tm, fin)]" "kill_res e (fork1 e) SIGSTOP \<noteq> - 1" "wait_res e (fork1 e) = (r, True)" "r \<noteq> - 1"
    "sigs e' = []" "kill_res e' (fork1 e) SIGCONT \<noteq> - 1" "wait_res e' (fork1 e) = (r', False)" "r' \<noteq> - 1"
  shows "\<exists>s1 s2 i. executeCommand e line s = Some s1 \<and>
    events s1 = events s @ [Out ''smash: got ctrl-Z'', Signal (fork1 e) SIGSTOP,
      Out (''smash: process '' @ show_int (fork1 e) @ '' was stopped'')] \<and>
    getLastJob (jobs s1) = Some \<lparr>job_id = i, j_pid = fork1 e, j_cmd = next_addr s, is_stopped = True, j_time = now e\<rparr> \<and>
    exec_fg e' ''fg'' s1 = Some s2 \<and>
    events s2 = events s1 @ [Out (line @ '' : '' @ show_int (fork1 e) @ '' ''), Signal (fork1 e) SIGCONT] \<and>
    entries (jobs s2) = filter (\<lambda>j. \<not> finished e (j_pid j)) (entries (jobs s))"
proof -
  let ?p = "next_addr s" and ?c = "\<lparr>cmd_line = line, foreground = False, c_kind = External, c_pid = fork1 e\<rparr>"
  let ?es = "filter (\<lambda>j. \<not> finished e (j_pid j)) (entries (jobs s))"
  let ?evs = "events s @ [Out ''smash: got ctrl-Z'', Signal (fork1 e) SIGSTOP,
      Out (''smash: process '' @ show_int (fork1 e) @ '' was stopped'')]"
  let ?u = "s\<lparr>next_addr := ?p + 1, cmds := (cmds s)(?p \<mapsto> ?c), current_cmd := ?p, events := ?evs\<rparr>"
  have h: "handle_all e (sigs e) (waiting e line External s) = Some ?u"
    using ctrl_z_waiting [of "e\<lparr>now := tm, finished := fin\<rparr>" e s line] assms(2,8,9) by (simp add: handle_def)
  have u: "shell_ok ?u" by (rule handle_all_shell [OF h waiting_ok [OF assms(1)]])
  obtain v where v: "RemoveFinishedJobs e ?u = Some v" "lessens ?u v" "v = ?u\<lparr>jobs := jobs v, cmds := cmds v\<rparr>"
      "entries (jobs v) = ?es" "cmds v = cmds ?u |` (- j_cmd ` {j \<in> set (entries (jobs s)). finished e (j_pid j)})"
    using RemoveFinishedJobs_ok [OF u, of e] by auto
  let ?j = "\<lparr>job_id = max_job_id (jobs v) + 1, j_pid = fork1 e, j_cmd = ?p, is_stopped = True, j_time = now e\<rparr>"
  let ?s1 = "v\<lparr>jobs := addJob (now e) ?p (fork1 e) True (jobs v)\<rparr>"
  have s1: "executeCommand e line s = Some ?s1"
    using executeCommand_waits [OF assms(3-7)] h v(1) assms(10,11) by (simp add: finish_external_def)
  have ent: "entries (jobs ?s1) = ?es @ [?j]" using v(4) by (simp add: addJob_def)
  have "?p \<notin> dom (cmds s)" using shell_okD(4) [OF assms(1)] by blast
  then have c: "cmds v ?p = Some ?c" using v(5) shell_okD(3) [OF assms(1)] by (auto simp: restrict_map_def)
  have ev: "events v = ?evs" by (subst v(3)) simp
  have "jobs_ok (jobs ?s1)" using addJob_ok [OF shell_okD(1) [OF lessensD(1) [OF v(2)]]] by simp
  then have "erase_id (job_id ?j) (?es @ [?j]) = Some ?es"
    using erase_id_unique [of ?es ?j "[]"] jobs_okD(1) [of "jobs ?s1"] ent by simp
  then have d: "entries (removeJobById (job_id ?j) (jobs ?s1)) = ?es" using ent by (simp add: removeJobById_def)
  have "parseCommandLine ''fg'' = Some [''fg'']" by code_simp
  then have "\<exists>s2. exec_fg e' ''fg'' ?s1 = Some s2 \<and> jobs s2 = removeJobById (job_id ?j) (jobs ?s1) \<and>
      events s2 = ?evs @ [Out (line @ '' : '' @ show_int (fork1 e) @ '' ''), Signal (fork1 e) SIGCONT]"
    using ent c ev assms(12-15)
    by (simp add: exec_fg_def choose_fg_def getLastJob_def SetForeground_def Let_def)
  then show ?thesis using s1 ent ev d by (auto simp: getLastJob_def)
qed

theorem ctrl_z_then_fg_witness:
  "\<exists>s1 s2. executeCommand (E0\<lparr>sigs := [(SIGTSTP, 100, \<lambda>_. False)], wait_res := (\<lambda>p. (p, True))\<rparr>) ''sleep 9'' (init_shell 7) = Some s1 \<and>
     exec_fg E0 ''fg'' s1 = Some s2 \<and> Signal 500 SIGCONT \<in> set (events s2) \<and> entries (jobs s2) = []"
proof -
  let ?l = "''sleep 9''" and ?e = "E0\<lparr>sigs := [(SIGTSTP, 100, \<lambda>_. False)], wait_res := (\<lambda>p. (p, True))\<rparr>"
  have l: "isPipeCommand ?l = None" "isRedirectionCommand ?l = None" "isBackgroundCommand ?l = Some False" "kind_of (firstWord ?l) = External"
    by code_simp+
  have i: "0 < next_addr (init_shell 7)" "jobs (init_shell 7) = init_jobs" by (simp_all add: init_shell_def)
  have e: "fork1 ?e \<noteq> - 1" "sigs ?e = [(SIGTSTP, 100, \<lambda>_. False)]" "kill_res ?e (fork1 ?e) SIGSTOP \<noteq> - 1" "wait_res ?e (fork1 ?e) = (500, True)"
      "(500 :: int) \<noteq> - 1" "sigs E0 = []" "kill_res E0 (fork1 ?e) SIGCONT \<noteq> - 1" "wait_res E0 (fork1 ?e) = (500, False)" "fork1 ?e = 500"
    by (simp_all add: E0_def)
  obtain s1 s2 where "executeCommand ?e ?l (init_shell 7) = Some s1" "exec_fg E0 ''fg'' s1 = Some s2"
      "events s2 = events s1 @ [Out (?l @ '' : '' @ show_int (fork1 ?e) @ '' ''), Signal (fork1 ?e) SIGCONT]"
      "entries (jobs s2) = filter (\<lambda>j. \<not> finished ?e (j_pid j)) (entries (jobs (init_shell 7)))"
    using ctrl_z_then_fg [OF init_shell_ok i(1) l e(1-8) e(5)] by blast
  then show ?thesis using e(9) i(2) by (intro exI [of _ s1] exI [of _ s2]) (simp add: init_jobs_def)
qed

lemma CreateCommand_timeout:
  "kind_of (firstWord line) = Timeout \<Longrightarrow> CreateCommand line s = Some (next_addr s, s\<lparr>next_addr := next_addr s + 1,
     cmds := (cmds s)(next_addr s \<mapsto> \<lparr>cmd_line = line, foreground = True, c_kind = Timeout, c_pid = - 1\<rparr>)\<rparr>)"
  by (simp add: CreateCommand_def Let_def)

text \<open>
  C17. A timeout: with no other timeout pending, a foreground \<open>timeout\<close> sets the alarm for its number of seconds, and the alarm at that time
  kills exactly the process it started, says so, and leaves no entry behind.
\<close>

theorem timeout_kills:
  assumes "shell_ok s" "times s = []"
    "isPipeCommand line = None" "isRedirectionCommand line = None" "isBackgroundCommand line = Some False"
    "kind_of (firstWord line) = Timeout" "parseCommandLine line = Some (w # d # ws)" "fork1 e \<noteq> - 1"
    "sigs e = [(SIGALRM, now e + atoi d, fin)]" "kill_res e (fork1 e) 0 = 0" "kill_res e (fork1 e) SIGKILL \<noteq> - 1"
    "wait_res e (fork1 e) = (r, False)" "r \<noteq> - 1"
  shows "\<exists>s'. executeCommand e line s = Some s' \<and> times s' = [] \<and>
    events s' = events s @ [Alarm (atoi d), Out ''smash: got an alarm'', Out (''smash: '' @ line @ '' timed out!''), Signal (fork1 e) SIGKILL]"
proof -
  let ?p = "next_addr s" and ?e = "e\<lparr>now := now e + atoi d, finished := fin\<rparr>"
  let ?t = "\<lparr>t_pid = fork1 e, t_cmd = ?p, init_time = now e, finish_time = now e + atoi d\<rparr>"
  let ?u = "(waiting e line Timeout (say (Alarm (atoi d)) s))\<lparr>times := [?t]\<rparr>"
  have run: "executeCommand e line s = map_option snd (finish_external e False ?p (fork1 e) ?u)"
    using assms(2-8) by (cases s) (simp add: executeCommand_def run_command_def CreateCommand_timeout run_external_def has_pid_def start_external_def
        SetPid_def register_timeout_def arg_def GetClosestAlarm_def addToTimesList_def waiting_def say_def Let_def)
  have "shell_ok (say (Out ''smash: got an alarm'') ?u)" using waiting_ok [of "say (Alarm (atoi d)) s"] assms(1) by simp
  then obtain v where v: "RemoveFinishedJobs ?e (say (Out ''smash: got an alarm'') ?u) = Some v"
      "v = (say (Out ''smash: got an alarm'') ?u)\<lparr>jobs := jobs v, cmds := cmds v\<rparr>"
      "cmds v = cmds ?u |` (- j_cmd ` {j \<in> set (entries (jobs s)). fin (j_pid j)})"
    using RemoveFinishedJobs_ok [of "say (Out ''smash: got an alarm'') ?u" ?e] by (auto simp: waiting_def)
  have "?p \<notin> dom (cmds s)" using shell_okD(4) [OF assms(1)] by blast
  then have c: "cmds v ?p = Some \<lparr>cmd_line = line, foreground = True, c_kind = Timeout, c_pid = fork1 e\<rparr>"
    using v(3) shell_okD(3) [OF assms(1)] by (auto simp: restrict_map_def waiting_def)
  have f: "times v = [?t]" "events v = events s @ [Alarm (atoi d), Out ''smash: got an alarm'']"
    by (subst v(2), simp add: waiting_def)+
  have "alarmHandler ?e ?u = Some (v\<lparr>times := [], events := events s @
      [Alarm (atoi d), Out ''smash: got an alarm'', Out (''smash: '' @ line @ '' timed out!''), Signal (fork1 e) SIGKILL]\<rparr>)"
    using v(1) c f assms(10,11) by (simp add: alarmHandler_def killFinishedAlarms_def say_def Let_def)
  then show ?thesis using run assms(9,12,13) by (simp add: finish_external_def handle_def)
qed

theorem timeout_kills_witness:
  "\<exists>s'. executeCommand (E0\<lparr>sigs := [(SIGALRM, 105, \<lambda>_. False)]\<rparr>) ''timeout 5 sleep 9'' (init_shell 7) = Some s' \<and> Signal 500 SIGKILL \<in> set (events s')"
proof -
  let ?l = "''timeout 5 sleep 9''" and ?e = "E0\<lparr>sigs := [(SIGALRM, 105, \<lambda>_. False)]\<rparr>"
  have l: "isPipeCommand ?l = None" "isRedirectionCommand ?l = None" "isBackgroundCommand ?l = Some False" "kind_of (firstWord ?l) = Timeout"
      "parseCommandLine ?l = Some [''timeout'', ''5'', ''sleep'', ''9'']" "atoi ''5'' = 5"
    by code_simp+
  have t: "times (init_shell 7) = []" by (simp add: init_shell_def)
  have e: "fork1 ?e \<noteq> - 1" "sigs ?e = [(SIGALRM, now ?e + atoi ''5'', \<lambda>_. False)]" "kill_res ?e (fork1 ?e) 0 = 0"
      "kill_res ?e (fork1 ?e) SIGKILL \<noteq> - 1" "wait_res ?e (fork1 ?e) = (500, False)" "(500 :: int) \<noteq> - 1" "fork1 ?e = 500"
    unfolding l(6) by (simp_all add: E0_def)
  obtain s' where "executeCommand ?e ?l (init_shell 7) = Some s'" "events s' = events (init_shell 7) @
      [Alarm (atoi ''5''), Out ''smash: got an alarm'', Out (''smash: '' @ ?l @ '' timed out!''), Signal (fork1 ?e) SIGKILL]"
    using timeout_kills [OF init_shell_ok t l(1-5) e(1-6)] by blast
  then show ?thesis using e(7) by (intro exI [of _ s']) simp
qed

subsection \<open>Descriptors\<close>

lemma lowest_fd_eq: "k < n \<Longrightarrow> \<forall>j < k. t (i + j) \<noteq> None \<Longrightarrow> t (i + k) = None \<Longrightarrow> lowest_fd n i t = i + k"
proof (induction n arbitrary: i k)
  case (Suc n)
  show ?case
  proof (cases k)
    case (Suc m)
    have "t i \<noteq> None" using Suc.prems(2) Suc by (metis add_0_right zero_less_Suc)
    moreover have "lowest_fd n (Suc i) t = Suc i + m"
      by (rule Suc.IH) (use Suc.prems \<open>k = Suc m\<close> in auto)
    ultimately show ?thesis using Suc by simp
  qed (use Suc.prems in simp)
qed simp

lemma new_fd_eq: "k < MAX_FDS \<Longrightarrow> \<forall>j < k. t j \<noteq> None \<Longrightarrow> t k = None \<Longrightarrow> new_fd t = k"
  using lowest_fd_eq [of k MAX_FDS t 0] by (simp add: new_fd_def)

text \<open>Only the standard descriptors are open.\<close>

definition standard_fds :: "(nat \<rightharpoonup> string) \<Rightarrow> bool" where
  "standard_fds t \<longleftrightarrow> dom t = {0, 1, 2}"

lemma standard_fds:
  assumes "standard_fds t"
  shows "t 0 \<noteq> None" "t 1 \<noteq> None" "t 2 \<noteq> None" "\<And>i. 2 < i \<Longrightarrow> t i = None" "new_fd t = 3" "new_fd (t(3 \<mapsto> x)) = 4"
    "new_fd (t(3 \<mapsto> x, 1 := None)) = 1"
proof -
  have d: "i \<in> dom t \<longleftrightarrow> i = 0 \<or> i = 1 \<or> i = 2" for i using assms by (simp add: standard_fds_def)
  show "t 0 \<noteq> None" "t 1 \<noteq> None" "t 2 \<noteq> None" using d [of 0] d [of 1] d [of 2] by auto
  then have s: "t j \<noteq> None" if "j < 3" for j using that d [of j] by auto
  show f: "t i = None" if "2 < i" for i using d [of i] that by auto
  have "\<forall>j < 3. t j \<noteq> None" "t 3 = None" using s f [of 3] by simp_all
  then show "new_fd t = 3" by (intro new_fd_eq) (auto simp: MAX_FDS_def)
  have "\<forall>j < 4. (t(3 \<mapsto> x)) j \<noteq> None" "(t(3 \<mapsto> x)) 4 = None" using s f [of 4] by auto
  then show "new_fd (t(3 \<mapsto> x)) = 4" by (intro new_fd_eq) (auto simp: MAX_FDS_def)
  have "\<forall>j < 1. (t(3 \<mapsto> x, 1 := None)) j \<noteq> None" "(t(3 \<mapsto> x, 1 := None)) 1 = None" using s by auto
  then show "new_fd (t(3 \<mapsto> x, 1 := None)) = 1" by (intro new_fd_eq) (auto simp: MAX_FDS_def)
qed

text \<open>
  C35. The children of a pipe: when only the standard descriptors are open, the first child writes its standard output, for \<open>|&\<close> its
  standard error, into the pipe and the second reads its standard input from it; all their other streams are those of the
  shell, and neither keeps another end of the pipe open, so the second sees the end of the data when the first is done.
\<close>

theorem pipe_connects:
  assumes "standard_fds (fds s)" "open_pipe s = (rd, wr, s')"
  shows "pipe_child1 ''|'' rd wr (fds s') = (fds s)(1 \<mapsto> ''pipe write'') \<and>
    pipe_child1 ''|&'' rd wr (fds s') = (fds s)(2 \<mapsto> ''pipe write'') \<and>
    pipe_child2 rd wr (fds s') = (fds s)(0 \<mapsto> ''pipe read'')"
proof -
  note f = standard_fds [OF assms(1)]
  have "rd = 3" "wr = 4" "fds s' = (fds s)(3 \<mapsto> ''pipe read'', 4 \<mapsto> ''pipe write'')"
    using assms(2) f(5,6) by (auto simp: open_pipe_def)
  then show ?thesis using f(4) [of 3] f(4) [of 4] by (auto simp: pipe_child1_def pipe_child2_def fun_eq_iff)
qed

text \<open>
  A defect of \<open>DO_SYS\<close> in a child: when a call fails before the command of the child runs, the child does not end. It
  goes on in the loop of the shell, and the first child and the child of an external command read the same input as the shell.
\<close>

theorem failed_child_reads_input:
  assumes "standard_fds (fds s)" "open_pipe s = (rd, wr, s')"
  shows "start_child1 e type rd wr (fds s') = Inl (ev, t) \<Longrightarrow> t 0 = fds s 0"
    and "start_child e (fds s) = Inl (ev, t) \<Longrightarrow> t 0 = fds s 0"
    and "(\<And>call. \<not> fails e call) \<Longrightarrow>
      start_child1 e type rd wr (fds s') = Inr (pipe_child1 type rd wr (fds s')) \<and>
      start_child2 e rd wr (fds s') = Inr (pipe_child2 rd wr (fds s')) \<and> start_child e (fds s) = Inr (fds s)"
proof -
  note f = standard_fds [OF assms(1)]
  have "rd = 3" "wr = 4" "fds s' 0 = fds s 0" using assms(2) f(5,6) by (auto simp: open_pipe_def)
  then show "start_child1 e type rd wr (fds s') = Inl (ev, t) \<Longrightarrow> t 0 = fds s 0"
    by (auto simp: start_child1_def pipe_child1_def Let_def split: if_splits)
qed (auto simp: start_child_def start_child1_def start_child2_def split: if_splits)

theorem pipe_connects_witness:
  "\<exists>rd wr s'. open_pipe (init_shell 7) = (rd, wr, s') \<and> pipe_child1 ''|'' rd wr (fds s') 1 = Some ''pipe write''"
proof -
  obtain rd wr s' where o: "open_pipe (init_shell 7) = (rd, wr, s')" by (cases "open_pipe (init_shell 7)") auto
  have "standard_fds (fds (init_shell 7))" by (auto simp: standard_fds_def init_shell_def)
  from pipe_connects [OF this o] show ?thesis using o by auto
qed

text \<open>What a command does to the descriptors of the shell when no call fails.\<close>

lemma RemoveFinishedJobs_fds: "RemoveFinishedJobs e s = Some s' \<Longrightarrow> fds s' = fds s"
  by (auto simp: RemoveFinishedJobs_def bind_eq_Some_conv)

abbreviation same_fds :: "shell \<Rightarrow> shell \<Rightarrow> bool" where
  "same_fds s s' \<equiv> fds s' = fds s"

lemma cat_files_fds:
  assumes "\<forall>x. \<not> fails e x" "fds s (new_fd (fds s)) = None"
  shows "fds (cat_files e ws s) = fds s"
  using assms(2)
proof (induction ws arbitrary: s)
  case (Cons w ws)
  then have "(fds s)(new_fd (fds s) := None) = fds s" by (simp add: fun_upd_idem)
  then show ?case using Cons assms(1) by (simp add: Let_def split: option.split)
qed simp

lemma exec_quit_fds: "keeps (same_fds s) (exec_quit e line s)"
  by (auto simp: keeps_def exec_quit_def bind_eq_Some_conv split: option.splits if_splits)

lemma handler_fds:
  "keeps (same_fds s) (ctrlCHandler e s)" "keeps (same_fds s) (ctrlZHandler e s)" "keeps (same_fds s) (alarmHandler e s)"
  unfolding ctrlCHandler_def ctrlZHandler_def alarmHandler_def killFinishedAlarms_def Let_def
  by (intro keepsI; simp add: RemoveFinishedJobs_fds split: option.split)+

lemma handle_all_fds: "handle_all e xs s = Some s' \<Longrightarrow> fds s' = fds s"
proof (induction xs arbitrary: s)
  case (Cons x xs)
  obtain sg t fin where x: "x = (sg, t, fin)" by (cases x)
  then obtain u where u: "handle (e\<lparr>now := t, finished := fin\<rparr>) sg s = Some u" "handle_all e xs u = Some s'"
    using Cons.prems by (auto simp: bind_eq_Some_conv)
  have "fds u = fds s" using u(1) keepsD [OF handler_fds(1)] keepsD [OF handler_fds(2)] keepsD [OF handler_fds(3)]
    by (cases sg) (auto simp: handle_def)
  then show ?case using Cons.IH [OF u(2)] by simp
qed simp

lemma exec_fds:
  "keeps (same_fds s) (exec_pwd e s)" "keeps (same_fds s) (exec_cd e line s)" "keeps (same_fds s) (exec_fg e line s)"
  "keeps (same_fds s) (exec_bg e line s)" "keeps (same_fds s) (exec_jobs e s)" "keeps (same_fds s) (exec_kill e line s)"
  unfolding exec_pwd_def exec_cd_def exec_fg_def exec_bg_def exec_jobs_def exec_kill_def Let_def
  by (intro keepsI; simp add: RemoveFinishedJobs_fds handle_all_fds)+

lemma execute_fds:
  assumes "\<forall>x. \<not> fails e x" "fds s (new_fd (fds s)) = None"
  shows "keeps (same_fds s) (execute e k line s)"
proof -
  have "keeps (same_fds s) (exec_cat e line s)" unfolding exec_cat_def Let_def
    by (intro keepsI) (simp add: cat_files_fds assms)
  then show ?thesis
    by (cases k) (simp_all add: execute_def exec_showpid_def keeps_Some keeps_None exec_fds exec_quit_fds)
qed

lemma CreateCommand_fds: "CreateCommand line s = Some (p, s') \<Longrightarrow> fds s' = fds s"
  by (auto simp: CreateCommand_def chprompt_def Let_def bind_eq_Some_conv split: if_splits)

lemma start_external_fds: "keeps (same_fds s) (start_external e bg cmd k s)"
  unfolding start_external_def register_timeout_def Let_def by (intro keepsI) simp_all

lemma finish_external_fds: "keeps (\<lambda>x. same_fds s (snd x)) (finish_external e bg cmd pid s)"
  unfolding finish_external_def Let_def by (intro keepsI) (simp_all add: RemoveFinishedJobs_fds handle_all_fds)

lemma run_command_fds:
  assumes "\<forall>x. \<not> fails e x" "fds s (new_fd (fds s)) = None" "run_command e bg line s = Some (b, s')"
  shows "fds s' = fds s"
proof -
  obtain p s1 c where c: "CreateCommand line s = Some (p, s1)" "cmds s1 p = Some c"
      "(if has_pid (c_kind c) then run_external e bg p (c_kind c) s1
        else Option.bind (execute e (c_kind c) line s1) (\<lambda>s. Some (True, s))) = Some (b, s')"
    using assms(3) by (auto simp: run_command_def bind_eq_Some_conv)
  note f = CreateCommand_fds [OF c(1)]
  show ?thesis
  proof (cases "has_pid (c_kind c)")
    case True
    then obtain s2 where "start_external e bg p (c_kind c) s1 = Some s2" "finish_external e bg p (fork1 e) s2 = Some (b, s')"
      using c(3) by (auto simp: run_external_def bind_eq_Some_conv)
    then show ?thesis using keepsD [OF start_external_fds] keepsD [OF finish_external_fds] f by fastforce
  next
    case False
    then have "execute e (c_kind c) line s1 = Some s'" using c(3) by (auto simp: bind_eq_Some_conv)
    then show ?thesis using keepsD [OF execute_fds] assms(1,2) f by metis
  qed
qed

lemma run_command_to_end:
  assumes "wait_res e (fork1 e) = (r, False)" "r \<noteq> - 1" "run_command e bg line s = Some (b, s')"
  shows "b"
proof -
  have "keeps fst (finish_external e bg cmd (fork1 e) u)" for cmd u
    unfolding finish_external_def Let_def using assms(1,2) by (intro keepsI) auto
  then have "keeps fst (run_command e bg line s)"
    unfolding run_command_def run_external_def by (intro keepsI) simp_all
  then show ?thesis using keepsD assms(3) by fastforce
qed

lemma redirection_prepared:
  assumes "standard_fds (fds s)" "\<forall>x. \<not> fails e x" "\<forall>f. creat_ok e f"
  shows "prepareRedirectionCommand e line type s = (Some 3, before_first_of line type,
    s\<lparr>fds := (fds s)(3 := fds s 1, 1 \<mapsto> (if type = ''>>'' then ''append '' else ''truncate '') @ trim (after_first_of line type))\<rparr>)"
proof -
  note f = standard_fds [OF assms(1)]
  obtain x where "fds s 1 = Some x" using f(2) by blast
  then show ?thesis using f(5) f(7) [of x] assms(2,3) by (simp add: prepareRedirectionCommand_def Let_def fun_upd_twist)
qed

lemma executePipeCommand_fds:
  assumes "standard_fds (fds s)" "\<forall>x. \<not> fails e x"
  shows "keeps (same_fds s) (executePipeCommand e line type s)"
proof -
  note f = standard_fds [OF assms(1)]
  have p: "open_pipe s = (3, 4, s\<lparr>fds := (fds s)(3 \<mapsto> ''pipe read'', 4 \<mapsto> ''pipe write'')\<rparr>)"
    using f(5,6) by (simp add: open_pipe_def Let_def)
  have "fds s2 = (fds s)(3 \<mapsto> ''pipe read'', 4 \<mapsto> ''pipe write'')"
    if "CreateCommand a (s\<lparr>fds := (fds s)(3 \<mapsto> ''pipe read'', 4 \<mapsto> ''pipe write'')\<rparr>) = Some x" "x = (q, s1)"
      "CreateCommand b s1 = Some y" "y = (r, s2)" for a b q r s1 s2 x y
    using that CreateCommand_fds by fastforce
  moreover have "((fds s)(3 \<mapsto> x, 4 \<mapsto> y))(3 := None, 4 := None) = fds s" for x y
    using f(4) [of 3] f(4) [of 4] by (auto simp: fun_eq_iff)
  ultimately have c: "(fds s2)(3 := None, 4 := None) = fds s"
    if "CreateCommand a (s\<lparr>fds := (fds s)(3 \<mapsto> ''pipe read'', 4 \<mapsto> ''pipe write'')\<rparr>) = Some (q, s1)"
      "CreateCommand b s1 = Some (r, s2)" for a b q r s1 s2
    using that by metis
  show ?thesis using assms(2) unfolding executePipeCommand_def Let_def wait_pipe_def p
    by (intro keepsI) (simp_all add: handle_all_fds, erule c, assumption)
qed

text \<open>
  C14. The descriptors of the shell survive a line: if only the standard descriptors are open, no call fails and the child that
  is waited for ends, then after any line, with a pipe, a redirection, \<open>cat\<close> or any other command, the descriptor table is the one before.
  During a redirected command the standard output is the named file, truncated for \<open>>\<close> and
  appended to for \<open>>>\<close>.
\<close>

theorem descriptors_restored:
  assumes "standard_fds (fds s)" "\<forall>x. \<not> fails e x" "\<forall>f. creat_ok e f"
    "wait_res e (fork1 e) = (r, False)" "r \<noteq> - 1" "executeCommand e line s = Some s'"
  shows "fds s' = fds s \<and> (\<forall>type. fds (snd (snd (prepareRedirectionCommand e line type s))) 1 =
    Some ((if type = ''>>'' then ''append '' else ''truncate '') @ trim (after_first_of line type)))"
proof
  note f = standard_fds [OF assms(1)]
  show "\<forall>type. fds (snd (snd (prepareRedirectionCommand e line type s))) 1 =
    Some ((if type = ''>>'' then ''append '' else ''truncate '') @ trim (after_first_of line type))"
    using redirection_prepared [OF assms(1-3)] by simp
  obtain bg where bg: "isBackgroundCommand line = Some bg" using assms(6) by (auto simp: executeCommand_def bind_eq_Some_conv)
  show "fds s' = fds s"
  proof (cases "isPipeCommand line")
    case (Some type)
    then show ?thesis using bg assms(6) keepsD [OF executePipeCommand_fds [OF assms(1,2)]] by (simp add: executeCommand_def)
  next
    case None
    show ?thesis
    proof (cases "isRedirectionCommand line")
      case N: None
      have free: "fds s (new_fd (fds s)) = None" using f(4,5) by simp
      have "map_option snd (run_command e bg line s) = Some s'" using None N bg assms(6) by (simp add: executeCommand_def)
      then obtain z where z: "run_command e bg line s = Some z" "snd z = s'" unfolding map_option_eq_Some by blast
      then have "run_command e bg line s = Some (fst z, s')" by (cases z) simp
      then show ?thesis by (rule run_command_fds [OF assms(2) free])
    next
      case (Some type)
      let ?t = "(fds s)(3 := fds s 1, 1 \<mapsto> (if type = ''>>'' then ''append '' else ''truncate '') @ trim (after_first_of line type))"
      have "Option.bind (run_command e bg (before_first_of line type) (s\<lparr>fds := ?t\<rparr>))
          (\<lambda>(b, u). Some (if b then restore_stdout e 3 u else u)) = Some s'"
        using assms(6) None Some bg by (simp add: executeCommand_def redirection_prepared [OF assms(1-3)])
      then obtain b u where u: "run_command e bg (before_first_of line type) (s\<lparr>fds := ?t\<rparr>) = Some (b, u)"
          "s' = (if b then restore_stdout e 3 u else u)"
        by (cases "run_command e bg (before_first_of line type) (s\<lparr>fds := ?t\<rparr>)") auto
      obtain x where x: "fds s 1 = Some x" using f(2) by blast
      have "new_fd ?t = 4" using f(1-4) x by (intro new_fd_eq) (auto simp: MAX_FDS_def less_Suc_eq numeral_eq_Suc)
      then have "?t (new_fd ?t) = None" using f(4) [of 4] by simp
      then have "fds u = ?t" using run_command_fds [OF assms(2) _ u(1)] by simp
      moreover have "(?t(1 := ?t 3))(3 := None) = fds s" using f(4) [of 3] by (auto simp: fun_eq_iff)
      ultimately show ?thesis using run_command_to_end [OF assms(4,5) u(1)] u(2) assms(2) by (simp add: restore_stdout_def Let_def)
    qed
  qed
qed

theorem descriptors_restored_witness:
  "\<exists>s'. executeCommand E0 ''showpid > f'' (init_shell 7) = Some s' \<and> fds s' = fds (init_shell 7)"
proof -
  have "map_option run (executeCommand E0 ''showpid > f'' (init_shell 7)) = Some True" by code_simp
  then obtain s' where s': "executeCommand E0 ''showpid > f'' (init_shell 7) = Some s'"
    by (cases "executeCommand E0 ''showpid > f'' (init_shell 7)") simp_all
  have "standard_fds (fds (init_shell 7))" by (auto simp: standard_fds_def init_shell_def)
  moreover have "\<forall>x. \<not> fails E0 x" "\<forall>f. creat_ok E0 f" "wait_res E0 (fork1 E0) = (500, False)" "(500 :: int) \<noteq> - 1"
    by (simp_all add: E0_def)
  ultimately show ?thesis using descriptors_restored [OF _ _ _ _ _ s'] s' by (intro exI [of _ s']) simp
qed

subsection \<open>Built-in commands\<close>

lemma cat_chunks_ok: "concat (cat_chunks s) = s \<and> list_all (\<lambda>c. length c \<le> 20) (cat_chunks s) \<and>
  list_all (\<lambda>c. length c = 20) (butlast (cat_chunks s)) \<and> cat_chunks s \<noteq> []"
proof (induction s rule: cat_chunks.induct)
  case (1 s)
  then show ?case by (cases "length s < 20") (simp_all add: cat_chunks.simps [of s])
qed

fun out_text :: "event list \<Rightarrow> string" where
  "out_text [] = []"
| "out_text (Raw s # es) = s @ out_text es"
| "out_text (Out s # es) = s @ CHR 0x0A # out_text es"
| "out_text (_ # es) = out_text es"

lemma output_append: "out_text (xs @ ys) = out_text xs @ out_text ys"
  by (induction xs rule: out_text.induct) simp_all

lemma output_Raw: "out_text (map Raw cs) = concat cs"
  by (induction cs) simp_all

lemma cat_files_output:
  assumes "\<forall>x. \<not> fails e x"
    "\<forall>w \<in> set ws. w \<notin> {''>'', ''>>'', ''|'', ''|&''} \<and> open_res e (trim w) = Some (content w)"
  shows "out_text (events (cat_files e ws s)) = out_text (events s) @ concat (map content ws)"
  using assms(2)
proof (induction ws arbitrary: s)
  case (Cons w ws)
  then have "open_res e (trim w) = Some (content w)" "w \<notin> {''>'', ''>>'', ''|'', ''|&''}" by simp_all
  then show ?case using Cons assms(1) cat_chunks_ok [of "content w"]
    by (simp add: Let_def output_append output_Raw)
qed simp

text \<open>
  \<open>cat\<close> prints the files: when all its arguments are files that can be opened and no call fails, what the loop of 20-byte
  reads writes is exactly the contents of the files, one after the other, and every piece but the last of a file has 20 bytes.
\<close>

theorem cat_prints_files:
  assumes "\<forall>x. \<not> fails e x" "parseCommandLine line = Some (w # ws)" "ws \<noteq> []"
    "\<forall>w \<in> set ws. w \<notin> {''>'', ''>>'', ''|'', ''|&''} \<and> open_res e (trim w) = Some (content w)"
  shows "\<exists>s'. exec_cat e line s = Some s' \<and> out_text (events s') = out_text (events s) @ concat (map content ws) \<and>
    (\<forall>w. list_all (\<lambda>c. length c = 20) (butlast (cat_chunks (content w))))"
  using cat_files_output [OF assms(1,4), of s] assms(2,3) cat_chunks_ok by (simp add: exec_cat_def)

theorem cat_prints_files_witness:
  "\<exists>s'. exec_cat E0 ''cat a b'' (init_shell 7) = Some s' \<and> out_text (events s') = ''some text of a filesome text of a file''"
proof -
  have "parseCommandLine ''cat a b'' = Some [''cat'', ''a'', ''b'']" by code_simp
  moreover have "\<forall>x. \<not> fails E0 x" "\<forall>w \<in> set [''a'', ''b'']. w \<notin> {''>'', ''>>'', ''|'', ''|&''} \<and>
      open_res E0 (trim w) = Some ''some text of a file''" by (simp_all add: E0_def)
  ultimately obtain s' where "exec_cat E0 ''cat a b'' (init_shell 7) = Some s'"
      "out_text (events s') = out_text (events (init_shell 7)) @ concat (map (\<lambda>_. ''some text of a file'') [''a'', ''b''])"
    using cat_prints_files [of E0 "''cat a b''" "''cat''" "[''a'', ''b'']" "\<lambda>_. ''some text of a file''" "init_shell 7"] by auto
  then show ?thesis by (simp add: init_shell_def)
qed

text \<open>
  \<open>cd -\<close> goes back: after a successful \<open>cd\<close> to a directory the previous directory is the one the shell came
  from, and \<open>cd -\<close> changes to it and remembers the directory it left, so that the next \<open>cd -\<close> returns there.
\<close>

theorem cd_back:
  assumes "parseCommandLine line = Some [w, d]" "removeBackgroundSign d = Some d'" "d \<noteq> ''-''" "d' \<noteq> ''-''"
    "cwd e = Some c" "c \<noteq> []" "chdir_res e d' = 0"
    "cwd e' = Some c'" "c' \<noteq> []" "chdir_res e' c = 0"
  shows "\<exists>s' s''. exec_cd e line s = Some s' \<and> prev_pwd s' = c \<and> events s' = events s @ [Chdir d'] \<and>
    exec_cd e' ''cd -'' s' = Some s'' \<and> prev_pwd s'' = c' \<and> events s'' = events s' @ [Chdir c]"
proof -
  have "parseCommandLine ''cd -'' = Some [''cd'', ''-'']" "removeBackgroundSign ''-'' = Some ''-''" by code_simp+
  then show ?thesis using assms by (simp add: exec_cd_def arg_def)
qed

theorem cd_back_witness:
  "\<exists>s' s''. exec_cd E0 ''cd /tmp'' (init_shell 7) = Some s' \<and>
     exec_cd (E0\<lparr>cwd := Some ''/tmp''\<rparr>) ''cd -'' s' = Some s'' \<and> prev_pwd s'' = ''/tmp''"
proof -
  have "parseCommandLine ''cd /tmp'' = Some [''cd'', ''/tmp'']" "removeBackgroundSign ''/tmp'' = Some ''/tmp''" by code_simp+
  then show ?thesis
    using cd_back [of "''cd /tmp''" "''cd''" "''/tmp''" "''/tmp''" E0 "''/home''" "E0\<lparr>cwd := Some ''/tmp''\<rparr>" "''/tmp''" "init_shell 7"]
    by (auto simp: E0_def)
qed

subsection \<open>Defects\<close>

text \<open>
  A failing \<open>fork\<close> is reported but not treated as a failure: the command becomes a job with process id -1, and a signal
  that the user sends to this job goes to every process the user may signal.
\<close>

theorem failed_fork_becomes_job:
  "map_option (\<lambda>s. filter (\<lambda>v. v = Signal (- 1) 9) (events s))
     (main_loop [(E0\<lparr>fork1 := - 1\<rparr>, ''sleep 1 &''), (E0, ''kill -9 1'')] (init_shell 7)) = Some [Signal (- 1) 9]"
  by code_simp

text \<open>
  A redirected command that is stopped leaves the redirection in place: the shell returns to the prompt with its own standard
  output still the file. An output file that cannot be opened leaves the saved descriptor open.
\<close>

theorem redirection_sticks:
  "map_option (\<lambda>s. fds s 1) (main_loop [(E0\<lparr>wait_res := (\<lambda>p. (p, True))\<rparr>, ''sleep 9 > f'')] (init_shell 7)) = Some (Some ''truncate f'') \<and>
   map_option (\<lambda>s. fds s 3) (main_loop [(E0\<lparr>creat_ok := (\<lambda>_. False)\<rparr>, ''showpid > f'')] (init_shell 7)) = Some (Some ''stdout'')"
  by code_simp

text \<open>
  The sign \<open>&\<close> of a redirected background command is taken for a part of the name of the file.
\<close>

theorem redirection_keeps_ampersand:
  "fds (snd (snd (prepareRedirectionCommand E0 ''sleep 9 > f &'' ''>'' (init_shell 7)))) 1 = Some ''truncate f &''"
  by code_simp

text \<open>
  Two timeouts that end at the same second: the handler of the alarm kills the process of the first and drops both, so the second
  process goes on running.
\<close>

theorem alarm_kills_one:
  "map_option (\<lambda>s. filter (\<lambda>v. v = Signal 500 9 \<or> v = Signal 600 9) (events s))
     (Option.bind (main_loop [(E0, ''timeout 5 sleep 10 &''), (E0\<lparr>fork1 := 600\<rparr>, ''timeout 5 sleep 20 &'')] (init_shell 7))
       (alarmHandler (E0\<lparr>now := 105\<rparr>))) = Some [Signal 500 9] \<and>
   map_option times
     (Option.bind (main_loop [(E0, ''timeout 5 sleep 10 &''), (E0\<lparr>fork1 := 600\<rparr>, ''timeout 5 sleep 20 &'')] (init_shell 7))
       (alarmHandler (E0\<lparr>now := 105\<rparr>))) = Some []"
  by code_simp

text \<open>
  \<open>timeout\<close> looks for its third word as a piece of text in the whole line, so a command whose name starts the word
  \<open>timeout\<close> itself, such as \<open>time\<close>, is found in it and the child is given the whole line.
\<close>

theorem timeout_finds_itself:
  "timeout_argv ''timeout 10 time ls'' = Some [''/bin/bash'', ''-c'', ''timeout 10 time ls''] \<and>
   timeout_argv ''timeout 10 ls -l'' = Some [''/bin/bash'', ''-c'', ''ls -l'']"
  by code_simp

text \<open>
  A pipe is not the current command, so \<open>ctrl-C\<close> and \<open>ctrl-Z\<close> while it runs reach no process: the children are in process groups of
  their own, and the handlers send nothing.
\<close>

theorem pipe_ignores_ctrl_c:
  "map_option events (main_loop [(E0\<lparr>sigs := [(SIGINT, 100, \<lambda>_. False), (SIGTSTP, 101, \<lambda>_. False)]\<rparr>, ''yes | more'')] (init_shell 7)) =
     Some [Raw ''smash> '', Out ''smash: got ctrl-C'', Out ''smash: got ctrl-Z'']"
  by code_simp

end
