(* ===== verification/Smash_Dangling.thy ===== *)
theory Smash_Dangling
  imports Smash
begin

text \<open>
  The pointer to the last command: command objects that were deleted stay deleted, so when the job of the command that the shell started
  last is removed, the pointer \<open>current_cmd\<close> is left dangling and the main loop writes through it.
\<close>

subsection \<open>Deleted commands stay deleted\<close>

text \<open>Addresses are not used twice, and only \<open>CreateCommand\<close> makes new objects.\<close>

definition shrinks :: "shell \<Rightarrow> shell \<Rightarrow> bool" where
  "shrinks s s' \<longleftrightarrow> next_addr s' = next_addr s \<and> dom (cmds s') \<subseteq> dom (cmds s)"

lemma shrinks_simps [simp]:
  "shrinks s (say v s') = shrinks s s'" "shrinks (say v s) s' = shrinks s s'" "shrinks s (s'\<lparr>jobs := a\<rparr>) = shrinks s s'"
  "shrinks s (s'\<lparr>fds := b\<rparr>) = shrinks s s'" "shrinks s (s'\<lparr>times := c\<rparr>) = shrinks s s'" "shrinks s (s'\<lparr>events := d\<rparr>) = shrinks s s'"
  "shrinks s (s'\<lparr>current_cmd := f\<rparr>) = shrinks s s'" "shrinks s (s'\<lparr>prev_pwd := g\<rparr>) = shrinks s s'" "shrinks s (s'\<lparr>run := h\<rparr>) = shrinks s s'"
  "shrinks s s"
  by (simp_all add: shrinks_def)

lemma shrinks_trans: "shrinks s t \<Longrightarrow> shrinks t u \<Longrightarrow> shrinks s u"
  unfolding shrinks_def by (metis subset_trans)

lemma delete_cmd_dom: "delete_cmd p st = Some st' \<Longrightarrow> dom st' \<subseteq> dom st"
  by (auto simp: delete_cmd_def split: if_splits)

lemma remove_loop_dom: "remove_loop it fin passed es mx st = Some (es', mx', st') \<Longrightarrow> dom st' \<subseteq> dom st"
proof (induction es arbitrary: passed mx st)
  case (Cons e es)
  show ?case
  proof (cases "fin (j_pid e)")
    case True
    then obtain st1 passed1 mx1 where "delete_cmd (j_cmd e) st = Some st1" "remove_loop it fin passed1 es mx1 st1 = Some (es', mx', st')"
      using Cons.prems by (auto simp: bind_eq_Some_conv split: if_splits)
    then show ?thesis using Cons.IH delete_cmd_dom by blast
  qed (use Cons in auto)
qed simp

lemma RemoveFinishedJobs_shrinks:
  assumes "RemoveFinishedJobs e s = Some s'"
  shows "shrinks s s'"
proof -
  obtain es mx st where "remove_loop Pointers (finished e) [] (entries (jobs s)) (max_job_id (jobs s)) (cmds s) = Some (es, mx, st)"
      "s' = s\<lparr>jobs := \<lparr>entries = es, max_job_id = mx\<rparr>, cmds := st\<rparr>"
    using assms by (auto simp: RemoveFinishedJobs_def removeFinishedJobs_def bind_eq_Some_conv)
  then show ?thesis using remove_loop_dom by (simp add: shrinks_def)
qed

lemma SetForeground_dom: "SetForeground b p st = Some st' \<Longrightarrow> dom st' = dom st"
  by (erule SetForeground_Some) (simp add: insert_absorb domI)

lemma SetPid_dom: "SetPid i p st = Some st' \<Longrightarrow> dom st' = dom st"
  by (erule SetPid_Some) (simp add: insert_absorb domI)

lemma delete_all_dom: "delete_all es st = Some st' \<Longrightarrow> dom st' \<subseteq> dom st"
proof (induction es arbitrary: st)
  case (Cons e es)
  then obtain st1 where "delete_cmd (j_cmd e) st = Some st1" "delete_all es st1 = Some st'" by (auto simp: bind_eq_Some_conv)
  then show ?case using Cons.IH delete_cmd_dom by blast
qed simp

lemma kill_loop_dom: "kill_loop k es st = Some (evs, f, st') \<Longrightarrow> dom st' \<subseteq> dom st"
proof (induction es arbitrary: st evs f)
  case (Cons e es)
  show ?case
  proof (cases "k (j_pid e) SIGKILL = - 1")
    case False
    then obtain st1 evs1 f1 where "delete_cmd (j_cmd e) st = Some st1" "kill_loop k es st1 = Some (evs1, f1, st')"
      using Cons.prems by (auto simp: bind_eq_Some_conv)
    then show ?thesis using Cons.IH delete_cmd_dom by blast
  qed (use Cons.prems in simp)
qed simp

lemma handlers_shrink:
  "keeps (shrinks s) (ctrlCHandler e s)" "keeps (shrinks s) (ctrlZHandler e s)" "keeps (shrinks s) (alarmHandler e s)"
  unfolding ctrlCHandler_def ctrlZHandler_def alarmHandler_def killFinishedAlarms_def Let_def
  by (intro keepsI; (drule RemoveFinishedJobs_shrinks)?; (drule SetForeground_dom)?; simp split: option.split; simp add: shrinks_def)+

lemma handle_all_shrinks: "handle_all e xs s = Some s' \<Longrightarrow> shrinks s s'"
proof (induction xs arbitrary: s)
  case (Cons x xs)
  obtain sg t fin where x: "x = (sg, t, fin)" by (cases x)
  then obtain u where u: "handle (e\<lparr>now := t, finished := fin\<rparr>) sg s = Some u" "handle_all e xs u = Some s'"
    using Cons.prems by (auto simp: bind_eq_Some_conv)
  have "shrinks s u" using u(1) keepsD [OF handlers_shrink(1)] keepsD [OF handlers_shrink(2)] keepsD [OF handlers_shrink(3)]
    by (cases sg) (auto simp: handle_def)
  then show ?case using Cons.IH [OF u(2)] shrinks_trans by blast
qed simp

lemma cat_files_shrinks [simp]: "shrinks u (cat_files e ws s) = shrinks u s"
  by (induction ws arbitrary: s) (simp_all add: Let_def split: option.split)

lemma exec_quit_shrinks:
  assumes "exec_quit e line s = Some s'"
  shows "shrinks s s'"
proof -
  have "\<exists>js st evs. s' = s\<lparr>jobs := js, cmds := st, events := evs, run := False\<rparr> \<and>
      (clearJobsList (jobs s) (cmds s) = Some (js, st) \<or> (\<exists>evs. killAllJobs (kill_res e) (jobs s) (cmds s) = Some (evs, js, st)))"
    using assms by (cases s) (auto simp: exec_quit_def bind_eq_Some_conv split: if_splits)
  then obtain js st evs where s': "s' = s\<lparr>jobs := js, cmds := st, events := evs, run := False\<rparr>" "dom st \<subseteq> dom (cmds s)"
    using delete_all_dom kill_loop_dom by (fastforce simp: clearJobsList_def killAllJobs_def bind_eq_Some_conv)
  then show ?thesis by (simp add: shrinks_def)
qed

lemma exec_shrinks:
  "keeps (shrinks s) (exec_pwd e s)" "keeps (shrinks s) (exec_cd e line s)" "keeps (shrinks s) (exec_bg e line s)"
  "keeps (shrinks s) (exec_jobs e s)" "keeps (shrinks s) (exec_kill e line s)" "keeps (shrinks s) (exec_cat e line s)"
  unfolding exec_pwd_def exec_cd_def exec_bg_def exec_jobs_def exec_kill_def exec_cat_def Let_def
  by (intro keepsI; (drule RemoveFinishedJobs_shrinks)?; simp)+

lemma exec_fg_shrinks: "keeps (shrinks s) (exec_fg e line s)"
  unfolding exec_fg_def Let_def
  by (intro keepsI; (drule RemoveFinishedJobs_shrinks)?; (drule handle_all_shrinks)?; (drule SetForeground_dom)?;
      simp add: shrinks_def split: if_splits; blast intro: subset_trans)

lemma execute_shrinks: "execute e k line s = Some s' \<Longrightarrow> shrinks s s'"
  using keepsD [OF exec_shrinks(1)] keepsD [OF exec_shrinks(2)] keepsD [OF exec_shrinks(3)] keepsD [OF exec_shrinks(4)]
    keepsD [OF exec_shrinks(5)] keepsD [OF exec_shrinks(6)] keepsD [OF exec_fg_shrinks] exec_quit_shrinks
  by (cases k) (auto simp: execute_def exec_showpid_def Let_def)

lemma start_external_shrinks: "keeps (shrinks s) (start_external e bg cmd k s)"
  unfolding start_external_def register_timeout_def Let_def
  by (intro keepsI; (drule SetPid_dom)?; auto simp: shrinks_def split: if_splits dest!: SetForeground_dom)

lemma finish_external_shrinks: "keeps (\<lambda>x. shrinks s (snd x)) (finish_external e bg cmd pid s)"
  unfolding finish_external_def Let_def
  by (intro keepsI; (drule RemoveFinishedJobs_shrinks)?; (drule handle_all_shrinks)?; simp; blast intro: shrinks_trans)

text \<open>Over a whole line: an address below the next one is in the store afterwards only if it was before.\<close>

definition older :: "shell \<Rightarrow> shell \<Rightarrow> bool" where
  "older s s' \<longleftrightarrow> next_addr s \<le> next_addr s' \<and> (\<forall>p < next_addr s. p \<in> dom (cmds s') \<longrightarrow> p \<in> dom (cmds s))"

lemma older_trans: "older s t \<Longrightarrow> older t u \<Longrightarrow> older s u"
  by (auto simp: older_def)

lemma shrinks_older: "shrinks s s' \<Longrightarrow> older s s'"
  by (auto simp: older_def shrinks_def)

lemma older_simps [simp]:
  "older s (say v s') = older s s'" "older (s\<lparr>fds := a\<rparr>) s' = older s s'" "older s (s'\<lparr>fds := a\<rparr>) = older s s'" "older s s"
  by (simp_all add: older_def)

lemma CreateCommand_older: "CreateCommand line s = Some (p, s') \<Longrightarrow> older s s'"
  by (auto simp: CreateCommand_def chprompt_def Let_def bind_eq_Some_conv older_def split: if_splits)

lemma run_command_older:
  assumes "run_command e bg line s = Some (b, s')"
  shows "older s s'"
proof -
  obtain p s1 c where c: "CreateCommand line s = Some (p, s1)" "cmds s1 p = Some c"
      "(if has_pid (c_kind c) then run_external e bg p (c_kind c) s1
        else Option.bind (execute e (c_kind c) line s1) (\<lambda>s. Some (True, s))) = Some (b, s')"
    using assms by (auto simp: run_command_def bind_eq_Some_conv)
  have "shrinks s1 s'"
  proof (cases "has_pid (c_kind c)")
    case True
    then obtain s2 where "start_external e bg p (c_kind c) s1 = Some s2" "finish_external e bg p (fork1 e) s2 = Some (b, s')"
      using c(3) by (auto simp: run_external_def bind_eq_Some_conv)
    then show ?thesis using keepsD [OF start_external_shrinks] keepsD [OF finish_external_shrinks] shrinks_trans by fastforce
  next
    case False
    then show ?thesis using c(3) execute_shrinks by (auto simp: bind_eq_Some_conv)
  qed
  then show ?thesis using older_trans [OF CreateCommand_older [OF c(1)]] shrinks_older by blast
qed

lemma executePipeCommand_older: "keeps (older s) (executePipeCommand e line type s)"
proof -
  have c: "older s u2"
    if "open_pipe s = (rd, x)" "x = (wr, u0)" "CreateCommand a u0 = Some y" "y = (p, u1)" "CreateCommand b u1 = Some z" "z = (q, u2)"
    for rd wr u0 a b p q u1 u2 x y z
  proof -
    have "older s u0" using that(1,2) by (auto simp: open_pipe_def Let_def)
    then show ?thesis using that(3-6) CreateCommand_older older_trans by blast
  qed
  have w: "older s v" if "handle_all e xs u = Some v" "older s u" for u v xs
    using that handle_all_shrinks shrinks_older older_trans by blast
  show ?thesis unfolding executePipeCommand_def Let_def wait_pipe_def
    by (intro keepsI; (drule (5) c)?; (drule w)?; simp)
qed

lemma executeCommand_older: "keeps (older s) (executeCommand e line s)"
proof -
  have p: "older s s'" if "prepareRedirectionCommand e line type s = (o1, x)" "x = (rest, s')" for type o1 x rest s'
    using that by (auto simp: prepareRedirectionCommand_def Let_def split: if_splits)
  have k: "keeps (\<lambda>x. older s (snd x)) (run_command e bg line s)" for bg
    using run_command_older by (auto simp: keeps_def split: option.split)
  have red: "older s (restore_stdout e fd u) = older s u" for fd u by (simp add: restore_stdout_def Let_def)
  have run: "older s v" if "run_command e bg l u = Some x" "x = (b, v)" "older s u" for bg l u x b v
    using that run_command_older older_trans by blast
  show ?thesis unfolding executeCommand_def
    by (intro keepsI executePipeCommand_older k; (drule (1) p)?; (drule (2) run)?; simp add: red)
qed

subsection \<open>The dangling pointer\<close>

text \<open>
  C39. The shell keeps a pointer to the command it started last. When that command is a job that the next prompt finds finished,
  the prompt deletes the command and the pointer stays; after any line that does not make another command the current
  one, the main loop writes through the pointer into the deleted object.
\<close>

theorem current_cmd_dangles:
  assumes "shell_ok s" "j \<in> set (entries (jobs s))" "j_cmd j = current_cmd s" "current_cmd s \<noteq> NULL" "at_prompt e (j_pid j)"
  shows "\<exists>s1. RemoveFinishedJobs (e\<lparr>finished := at_prompt e\<rparr>) (say (Raw (prompt s)) s) = Some s1 \<and>
    current_cmd s1 = current_cmd s \<and> current_cmd s \<notin> dom (cmds s1) \<and>
    (\<forall>line s2. executeCommand e line s1 = Some s2 \<and> current_cmd s2 = current_cmd s \<longrightarrow>
       SetForeground False (current_cmd s2) (cmds s2) = None \<and> main_turn e line s = None)"
proof -
  let ?e = "e\<lparr>finished := at_prompt e\<rparr>" and ?s = "say (Raw (prompt s)) s"
  obtain s1 where s1: "RemoveFinishedJobs ?e ?s = Some s1" "lessens ?s s1"
      "cmds s1 = cmds s |` (- j_cmd ` {j \<in> set (entries (jobs s)). at_prompt e (j_pid j)})"
    using RemoveFinishedJobs_ok [of ?s ?e] assms(1) by auto
  have "current_cmd s \<in> j_cmd ` {j \<in> set (entries (jobs s)). at_prompt e (j_pid j)}" using assms(2,3,5) by (metis (mono_tags, lifting) imageI mem_Collect_eq)
  then have gone: "current_cmd s \<notin> dom (cmds s1)" unfolding s1(3) by simp
  have cur: "current_cmd s1 = current_cmd s" and nxt: "next_addr s1 = next_addr s"
    using s1(2) by (simp_all add: lessens_def)
  have below: "current_cmd s < next_addr s" using shell_okD(3,4) [OF assms(1)] assms(2,3) by fastforce
  have "SetForeground False (current_cmd s2) (cmds s2) = None \<and> main_turn e line s = None"
    if "executeCommand e line s1 = Some s2" "current_cmd s2 = current_cmd s" for line s2
  proof -
    have "current_cmd s \<notin> dom (cmds s2)" using keepsD [OF executeCommand_older that(1)] gone below nxt by (auto simp: older_def)
    then have "SetForeground False (current_cmd s2) (cmds s2) = None" using that(2) by (simp add: SetForeground_def domIff)
    then show ?thesis using s1(1) that assms(4) by (simp add: main_turn_def)
  qed
  then show ?thesis using s1(1) cur gone by blast
qed

theorem current_cmd_dangles_witness:
  "main_loop [(E0, ''sleep 1 &''), (E0\<lparr>at_prompt := (\<lambda>_. True)\<rparr>, ''showpid'')] (init_shell 7) = None"
proof -
  let ?l = "''sleep 1 &''" and ?e = "E0\<lparr>at_prompt := (\<lambda>_. True)\<rparr>"
  have i: "run (init_shell 7)" by (simp add: init_shell_def)
  have "map_option (\<lambda>s. (current_cmd s, map j_cmd (entries (jobs s)), run s)) (main_turn E0 ?l (init_shell 7)) = Some (1, [1], True)" by code_simp
  then obtain s where s: "main_turn E0 ?l (init_shell 7) = Some s" "current_cmd s = 1" "map j_cmd (entries (jobs s)) = [1]" "run s"
    by (cases "main_turn E0 ?l (init_shell 7)") auto
  have ok: "shell_ok s" using keepsD [OF main_turn_ok [OF init_shell_ok] s(1)] s(4) by (simp add: shell_safe_def)
  obtain j where j: "j \<in> set (entries (jobs s))" "j_cmd j = current_cmd s" using s(2,3) by (cases "entries (jobs s)") auto
  have n: "current_cmd s \<noteq> NULL" "at_prompt ?e (j_pid j)" using s(2) by simp_all
  obtain s1 where s1: "current_cmd s1 = current_cmd s" "\<And>line s2. executeCommand ?e line s1 = Some s2 \<and> current_cmd s2 = current_cmd s \<Longrightarrow> main_turn ?e line s = None"
    using current_cmd_dangles [OF ok j n] by blast
  have "isBackgroundCommand ''showpid'' = Some False" "isPipeCommand ''showpid'' = None" "isRedirectionCommand ''showpid'' = None"
      "kind_of (firstWord ''showpid'') = ShowPid" by code_simp+
  then have "\<exists>s2. executeCommand ?e ''showpid'' s1 = Some s2 \<and> current_cmd s2 = current_cmd s" using s1(1)
    by (simp add: executeCommand_def run_command_def CreateCommand_def has_pid_def execute_def exec_showpid_def Let_def)
  then show ?thesis using s1(2) s(1,4) i by auto
qed

end
