(* ===== verification/Spec2Isabelle.thy ===== *)
theory Spec2Isabelle
  imports Server_Progress Weights Malloc_2_Client Malloc_2_Debug Malloc_3_Debug Malloc_4_Client Smash_Dangling
begin

text \<open>
  The four programs of a course in operating systems: a shell (\<open>src/HW1Wet\<close>), system calls on the weights of processes
  (\<open>src/HW2Wet\<close>), a web server with a pool of threads (\<open>src/HW3Wet\<close>) and four versions of \<open>malloc\<close> (\<open>src/HW4Wet\<close>). The programs do
  not call each other; they share the prelude and the C string functions of this development.

  \<^bold>\<open>Conventions.\<close> Addresses are natural numbers, the null pointer is 0, and objects are entries of a map from addresses
  to records. A function of type \<open>option\<close> returns \<open>None\<close> where the code has undefined behaviour (a null or deleted object, an index
  outside an array) or, where the text of the definition says so, where its loop does not return; in the server \<open>Undef\<close> is undefined
  behaviour and \<open>Exit\<close> or \<open>Died\<close> the end of the process. Two things the language standards leave undefined are read as
  the implementations do them: the iterators of a vector are pointers (\<open>Jobs\<close> also has the reading of the standard), and \<open>sprintf\<close> onto its own
  argument appends. Answers of
  the operating system (\<open>read\<close>, \<open>sbrk\<close>, \<open>fork\<close>, \<open>waitpid\<close>, \<open>kill\<close>, the clock) are arguments, and the theorems hold for all of
  them unless a hypothesis says which answer is assumed. \<open>size_t\<close> is reduced modulo \<open>2 ^ 64\<close> where it can wrap, \<open>int\<close> weights are
  32-bit words; job ids, process ids and times of the shell and the counters of the server are unbounded integers.

  \<^bold>\<open>Shared theories.\<close>
  \<^item> \<open>Prelude\<close>: sizes, C integers, decimal numbers, the collections of simplification rules.
  \<^item> \<open>C_Strings\<close>: \<open>strstr\<close>, \<open>strcasecmp\<close>, \<open>atoi\<close>, \<open>find_first_of\<close> and the other library functions the sources call.
  \<^item> \<open>Dll\<close>: doubly linked lists in a heap, used by the queue of the server and the lists of the allocators.

  \<^bold>\<open>Shell, \<open>HW1Wet\<close>.\<close>
  \<^item> \<open>Cmdline\<close> (\<open>Commands.cpp\<close>, 17 to 135): trimming, splitting into words, the signs for background, pipes and redirections. Trimming
    and splitting are exact; the background sign, blank lines and the split at \<open>|&\<close> show defects.
  \<^item> \<open>Jobs\<close> (\<open>Commands.cpp\<close>, 520 to 857): \<open>JobsList\<close> and \<open>TimesList\<close>, with command objects in a store. The list is sorted by id,
    removal of finished jobs is exact when iterators are pointers, and undefined by the C++ standard as soon as a job is finished; a job that is stopped again returns to its place. The locale
    \<open>job_table\<close> is what the shell relies on, interpreted for the list (\<open>jt\<close>).
  \<^item> \<open>Shell\<close> (the rest of \<open>Commands.cpp\<close>, \<open>signals.cpp\<close>, \<open>smash.cpp\<close>): every \<open>execute\<close>, \<open>CreateCommand\<close>, \<open>executeCommand\<close>,
    \<open>executePipeCommand\<close>, \<open>prepareRedirectionCommand\<close>, the handlers, the main loop. The record \<open>shell\<close> is \<open>SmallShell\<close> with the store of commands,
    the descriptor table and the events the shell caused; the record \<open>env\<close> holds the answers of the system during one line and the
    signals that arrive while the shell waits for a child; which jobs are found finished can differ at the prompt, during the line and at each
    signal. A call that fails in a child makes it a second shell (\<open>start_child\<close> and the two children of a pipe). A search for a
    free descriptor looks at 1024 entries, the usual limit of a process.
  \<^item> \<open>Shell_Safe\<close>: the invariant, kept by every operation, and the shell as a state machine (\<open>smash_step\<close>).
  \<^item> \<open>Smash\<close>: reachable states, signals, jobs, descriptors, \<open>cat\<close>, \<open>cd\<close>, and the defects.
  \<^item> \<open>Smash_Dangling\<close>: no line recreates a deleted command, so the pointer to the current command dangles after it was reaped.

  \<^bold>\<open>System calls, \<open>HW2Wet\<close>.\<close> \<open>Weights\<close> (\<open>kernel/hw2.c\<close>): the five calls over the tree of tasks; the sum over the descendants and the
  heaviest ancestor against their specifications on the tree, and where the code differs; and the calls by their numbers in a running
  kernel, which never has a negative weight.

  \<^bold>\<open>Web server, \<open>HW3Wet\<close>.\<close>
  \<^item> \<open>Request_Queue\<close> (\<open>queue.c\<close>): the linked queue. The locale \<open>request_fifo\<close> is what the server relies on, interpreted for the
    linked queue.
  \<^item> \<open>Segel\<close> (\<open>segel.c\<close>): the checked wrappers of system calls and the buffered input and output, over scripts of short and
    interrupted reads and writes.
  \<^item> \<open>Request\<close> (\<open>request.c\<close>): one request, from the bytes read to the bytes written and the counters; the arrays of the code with
    their sizes, the size of a file cut to an \<open>int\<close>, and every call that can fail and end the process.
  \<^item> \<open>Server\<close> (\<open>server.c\<close>): the main thread and the workers as a step relation over the shared queue, with one step per
    critical section and for each wait and wake-up, in every interleaving. Capacity, ownership of nodes and descriptors, mutual exclusion
    and the absence of lost wake-ups are invariants proved by rule induction.
    The relation \<open>ends\<close> says in which states a failing call ends the process. A handler that does not return leaves its worker where it is.
  \<^item> \<open>Server_Progress\<close>: a measure of the work that is left in a state (\<open>work\<close>), which every step of a thread lowers while no connection
    arrives, and that some thread outside a handler can go on until only handlers are left (\<open>settled\<close>): no deadlock. When the handlers
    return too, the server comes to rest. Wake-ups without a signal and new connections are not steps of this run; they may happen before it.

  \<^bold>\<open>Allocators, \<open>HW4Wet\<close>.\<close>
  \<^item> \<open>Malloc_1\<close> (\<open>malloc_1.cpp\<close>): the program break and the first allocator.
  \<^item> \<open>Allocator\<close>: the contract of an allocator as the locales \<open>allocator\<close> and \<open>reallocator\<close>: a heap of disjoint blocks of bytes
    for the client, with what sequences of requests do to it.
  \<^item> \<open>Memory_Client\<close>: the contract for a program that mixes requests, releases, reallocations and writes. The heap it should see is the
    step relation \<open>spec_step\<close>; the locale \<open>memory\<close> extends \<open>reallocator\<close> and proves that an allocator answers every such sequence
    by a run of it.
  \<^item> \<open>Blocks\<close>, \<open>Stacked\<close>: blocks with headers, and their layout in the heap.
  \<^item> \<open>Malloc_2\<close> (\<open>malloc_2.cpp\<close>): the free list by address; first fit; it satisfies the contract (\<open>m2\<close>), and in
    \<open>Malloc_2_Client\<close> the contract for mixed requests (\<open>m2c\<close>). \<open>Malloc_2_Debug\<close>: the printed list.
  \<^item> \<open>Malloc_3\<close> (\<open>malloc_3.cpp\<close>) with \<open>Histogram\<close>, \<open>Malloc_3_Safe\<close>, \<open>Malloc_3_Realloc\<close> and \<open>Malloc_3_Contract\<close>: the list of all
    blocks, the histogram of free ones, splitting, merging, the last block, mapped blocks. The exact outcome of an allocation (best fit,
    splitting, extending, appending), no two free neighbours, the statistics as sums over the blocks, the contract (\<open>m3\<close>), and three defects. \<open>Malloc_3_Debug\<close>: the printed lists and histogram, and \<open>found_93\<close>.
  \<^item> \<open>Malloc_4\<close>, \<open>Malloc_4_Safe\<close> (\<open>malloc_4.cpp\<close>): each function translated again and compared with the third allocator on rounded
    sizes; the contract with reallocation (\<open>m4\<close>); every pointer is a multiple of 8.
  \<^item> \<open>Malloc_4_Client\<close>: the contract for mixed requests (\<open>m4c\<close>). It is stated for a kernel that grants a data segment of
    128 KB, in which no merged block is too large for the histogram, whose index the code does not check.

  \<^bold>\<open>Loops and bounds.\<close> Loops that follow pointers (the lists of the allocators, the parents and children of a task) and the loop over
  request headers are \<open>partial_function (option)\<close>, so that not returning is \<open>None\<close>; the theorems prove that they return a result, and for
  the headers also when they do not. All other loops are total functions; the search for a free descriptor stops after 1024
  entries. The index into the histogram is an \<open>int\<close> in the code and a natural number here, which differ only for sizes of
  \<open>2 ^ 41\<close> bytes and more.

  \<^bold>\<open>Not modelled.\<close> How a stream writes a pointer, an argument of the functions that print the lists of the allocators.
  \<open>printTimesList\<close>, whose body is a comment. The children of the shell and of the server after \<open>execve\<close>,
  and a child of the shell that became a second shell. Signals that arrive in the middle of
  a line outside the waits of the shell. Failures of installing the handlers, and reading the line. That a client of an allocator
  writes over a header: headers and data are kept in separate maps. \<open>sched.h\<close>, \<open>syscalls.h\<close>, \<open>init_task.h\<close> and the table of system calls are files of
  the Linux kernel; of them only what the repository adds is modelled, the field, its initial value and the entries of the table. The transcripts under \<open>HW1Wet/tests\<close> are data.
\<close>

end
